(* ===== verification/Prelude.thy ===== *)
theory Prelude
  imports Main "HOL-Library.Word" "HOL-Library.Char_ord" "HOL-Library.List_Lexorder"
    "HOL-Library.AList" "HOL-Library.Multiset"
begin

text \<open>
  What every component of the model shares.

  \<^item> How a C++ call ends: \<open>exn\<close> collects the exceptions the transport throws or lets
    through, the abort of a failed \<open>assert\<close>, the exit of the process and undefined behaviour.
  \<^item> \<open>outcome\<close>: an operation on a state returns the exception or the value together with the
    state it leaves behind, since a C++ operation keeps the writes it did before it threw.
  \<^item> C strings, decimal numbers as \<open>boost::format\<close> and \<open>lexical_cast\<close> print them, and the
    truncating division of \<open>total_seconds\<close>.
  \<^item> \<open>std::map\<close> as an association list with distinct keys, behind the locale \<open>std_map\<close>.
\<close>

section \<open>Exceptions and outcomes\<close>

datatype exn =
    IllegalStateException string
  | CommException string
  | ProtocolException string
  | InvalidArgument string
  | DomainError string
  | OutOfRange
  | OtherException string
  | ThreadInterrupted
  | AssertionFailure
  | UndefinedBehaviour
  | ProcessExit int

text \<open>
  The exceptions a \<open>catch (const std::exception&)\<close> clause sees. \<open>boost::thread_interrupted\<close>
  does not derive from \<open>std::exception\<close>; an abort, an exit and undefined behaviour are not
  exceptions at all.
\<close>

fun is_std_exception :: "exn \<Rightarrow> bool" where
  "is_std_exception ThreadInterrupted = False"
| "is_std_exception AssertionFailure = False"
| "is_std_exception UndefinedBehaviour = False"
| "is_std_exception (ProcessExit n) = False"
| "is_std_exception e = True"

type_synonym ('a, 's) outcome = "(exn + 'a) \<times> 's"

fun andThen :: "('a, 's) outcome \<Rightarrow> ('a \<Rightarrow> 's \<Rightarrow> ('b, 's) outcome) \<Rightarrow> ('b, 's) outcome" where
  "andThen (Inl e, s) k = (Inl e, s)"
| "andThen (Inr x, s) k = k x s"

lemma andThen_Inr_iff:
  "andThen r k = (Inr y, s') \<longleftrightarrow> (\<exists>x s. r = (Inr x, s) \<and> k x s = (Inr y, s'))"
  by (cases "(r, k)" rule: andThen.cases) auto

lemma andThen_Inl_iff:
  "andThen r k = (Inl e, s') \<longleftrightarrow>
     r = (Inl e, s') \<or> (\<exists>x s. r = (Inr x, s) \<and> k x s = (Inl e, s'))"
  by (cases "(r, k)" rule: andThen.cases) auto

lemma andThen_assoc: "andThen (andThen r k) l = andThen r (\<lambda>x s. andThen (k x s) l)"
  by (cases "(r, k)" rule: andThen.cases) auto

lemma andThen_return [simp]: "andThen r (\<lambda>x s. (Inr x, s)) = r"
  by (cases r; cases "fst r") auto

text \<open>How an operation on outcomes is taken apart.\<close>

lemmas outcome_splits = if_splits prod.splits sum.splits

text \<open>Facts that say which part of a state an operation leaves alone.\<close>

named_theorems frame_rules

text \<open>
  \<open>assert\<close>: with \<open>dbg\<close> (\<open>NDEBUG\<close> not defined) a false condition aborts, without it the
  statement does nothing.
\<close>

definition assertC :: "bool \<Rightarrow> bool \<Rightarrow> 's \<Rightarrow> (unit, 's) outcome" where
  "assertC dbg b s = (if dbg \<and> \<not> b then (Inl AssertionFailure, s) else (Inr (), s))"

lemma assertC_True [simp]: "assertC dbg True s = (Inr (), s)"
  by (simp add: assertC_def)

lemma assertC_release [simp]: "assertC False b s = (Inr (), s)"
  by (simp add: assertC_def)

section \<open>C strings and numbers\<close>

text \<open>What a C function reads behind \<open>s.c_str()\<close>: the bytes up to the first NUL.\<close>

definition c_str :: "string \<Rightarrow> string" where
  "c_str s = takeWhile (\<lambda>c. c \<noteq> CHR 0x00) s"

lemma c_str_id: "CHR 0x00 \<notin> set s \<Longrightarrow> c_str s = s"
  by (auto simp: c_str_def takeWhile_eq_all_conv)

lemma c_str_idem [simp]: "c_str (c_str s) = c_str s"
  by (simp add: c_str_def)

lemma length_c_str: "length (c_str s) \<le> length s"
  by (simp add: c_str_def length_takeWhile_le)

definition digit_char :: "nat \<Rightarrow> char" where
  "digit_char d = char_of (48 + d)"

fun show_nat :: "nat \<Rightarrow> string" where
  "show_nat n = (if n < 10 then [digit_char n] else show_nat (n div 10) @ [digit_char (n mod 10)])"

declare show_nat.simps [simp del]

definition show_int :: "int \<Rightarrow> string" where
  "show_int i = (if i < 0 then ''-'' @ show_nat (nat (- i)) else show_nat (nat i))"

definition digit_val :: "char \<Rightarrow> nat" where
  "digit_val c = of_char c - 48"

definition read_nat :: "string \<Rightarrow> nat" where
  "read_nat s = foldl (\<lambda>n c. 10 * n + digit_val c) 0 s"

lemma digit_val_char: "d < 10 \<Longrightarrow> digit_val (digit_char d) = d"
  by (simp add: digit_val_def digit_char_def)

lemma read_show_nat [simp]: "read_nat (show_nat n) = n"
proof (induction n rule: show_nat.induct)
  case (1 n)
  show ?case
  proof (cases "n < 10")
    case True
    then show ?thesis by (simp add: show_nat.simps [of n] read_nat_def digit_val_char)
  next
    case False
    with 1 have "foldl (\<lambda>n c. 10 * n + digit_val c) 0 (show_nat (n div 10)) = n div 10"
      by (simp add: read_nat_def)
    with False show ?thesis
      by (simp add: show_nat.simps [of n] read_nat_def digit_val_char)
  qed
qed

lemma show_nat_inject [simp]: "show_nat m = show_nat n \<longleftrightarrow> m = n"
  by (metis read_show_nat)

lemma show_nat_digits: "c \<in> set (show_nat n) \<Longrightarrow> \<exists>d < 10. c = digit_char d"
proof (induction n rule: show_nat.induct)
  case (1 n)
  show ?case
  proof (cases "n < 10")
    case True
    with 1 show ?thesis by (auto simp: show_nat.simps [of n])
  next
    case False
    with 1 have "c \<in> set (show_nat (n div 10)) \<or> c = digit_char (n mod 10)"
      by (auto simp: show_nat.simps [of n])
    then show ?thesis
    proof
      assume "c \<in> set (show_nat (n div 10))"
      with 1 False show ?thesis by blast
    next
      assume "c = digit_char (n mod 10)"
      then show ?thesis by (intro exI [of _ "n mod 10"]) simp
    qed
  qed
qed

lemma of_char_digit: "d < 10 \<Longrightarrow> (of_char (digit_char d) :: nat) = 48 + d"
  by (simp add: digit_char_def)

lemma show_nat_no_char:
  assumes "(of_char c :: nat) < 48 \<or> 57 < (of_char c :: nat)"
  shows "c \<notin> set (show_nat n)"
proof
  assume "c \<in> set (show_nat n)"
  then obtain d where "d < 10" and "c = digit_char d" by (blast dest: show_nat_digits)
  then show False using assms by (simp add: of_char_digit)
qed

lemma show_nat_nonempty [simp]: "show_nat n \<noteq> []"
  by (subst show_nat.simps) simp

lemma show_int_inject [simp]: "show_int i = show_int j \<longleftrightarrow> i = j"
proof -
  have neq: "''-'' @ show_nat a \<noteq> show_nat b" for a b
  proof
    assume "''-'' @ show_nat a = show_nat b"
    then have "CHR ''-'' \<in> set (show_nat b)" by (metis append_Cons list.set_intros(1))
    then show False by (simp add: show_nat_no_char)
  qed
  show ?thesis
    using neq [of "nat (- i)" "nat j"] neq [of "nat (- j)" "nat i"]
    by (auto simp: show_int_def split: if_splits)
qed

text \<open>Integer division of C++ truncates towards zero.\<close>

definition cpp_quot :: "int \<Rightarrow> int \<Rightarrow> int" where
  "cpp_quot a b =
     (let q = \<bar>a\<bar> div \<bar>b\<bar> in if (a < 0) = (b < 0) then q else - q)"

lemma cpp_quot_nonneg: "0 \<le> a \<Longrightarrow> 0 < b \<Longrightarrow> cpp_quot a b = a div b"
  by (simp add: cpp_quot_def)

section \<open>Ordered maps\<close>

text \<open>
  \<open>std::map\<close> as the transport uses it: \<open>find\<close>, \<open>m[k] = v\<close>, \<open>erase\<close>, \<open>size\<close>. The order of the
  keys is never observed by the code, so an association list with distinct keys is enough.
\<close>

locale std_map =
  fixes empty :: "'m"
    and find :: "'m \<Rightarrow> 'k \<Rightarrow> 'v option"
    and assign :: "'k \<Rightarrow> 'v \<Rightarrow> 'm \<Rightarrow> 'm"
    and erase :: "'k \<Rightarrow> 'm \<Rightarrow> 'm"
    and count :: "'m \<Rightarrow> nat"
    and invar :: "'m \<Rightarrow> bool"
  assumes find_empty: "find empty k = None"
    and find_assign: "find (assign k v m) k' = (if k' = k then Some v else find m k')"
    and find_erase: "find (erase k m) k' = (if k' = k then None else find m k')"
    and count_empty: "count empty = 0"
    and count_assign:
      "invar m \<Longrightarrow> count (assign k v m) = (if find m k = None then Suc (count m) else count m)"
    and count_erase: "count (erase k m) \<le> count m"
    and invar_empty: "invar empty"
    and invar_assign: "invar m \<Longrightarrow> invar (assign k v m)"
    and invar_erase: "invar m \<Longrightarrow> invar (erase k m)"
begin

lemma find_assign_same: "find (assign k v m) k = Some v"
  by (simp add: find_assign)

lemma find_assign_other: "k' \<noteq> k \<Longrightarrow> find (assign k v m) k' = find m k'"
  by (simp add: find_assign)

lemma find_erase_other: "k' \<noteq> k \<Longrightarrow> find (erase k m) k' = find m k'"
  by (simp add: find_erase)

lemma dom_assign: "dom (find (assign k v m)) = insert k (dom (find m))"
  by (auto simp: find_assign dom_def)

lemma dom_erase: "dom (find (erase k m)) = dom (find m) - {k}"
  by (auto simp: find_erase dom_def split: if_splits)

lemma assign_forall:
  assumes "\<And>k v. find m k = Some v \<Longrightarrow> P k v" and "P k v"
    and "find (assign k v m) k' = Some v'"
  shows "P k' v'"
  using assms by (auto simp: find_assign split: if_splits)

lemma erase_forall:
  assumes "\<And>k v. find m k = Some v \<Longrightarrow> P k v" and "find (erase k m) k' = Some v'"
  shows "P k' v'"
  using assms by (auto simp: find_erase split: if_splits)

lemma erase_assign: "find (erase k (assign k v m)) = (find m)(k := None)"
  by (rule ext) (simp add: find_erase find_assign)

lemma count_assign_le: "invar m \<Longrightarrow> count (assign k v m) \<le> Suc (count m)"
  by (simp add: count_assign)

end

abbreviation distinct_keys :: "('k \<times> 'v) list \<Rightarrow> bool" where
  "distinct_keys m \<equiv> distinct (map fst m)"

declare map_of_eq_Some_iff [simp del] Some_eq_map_of_iff [simp del]

lemma length_update:
  "distinct_keys m \<Longrightarrow>
     length (AList.update k v m) = (if map_of m k = None then Suc (length m) else length m)"
  by (induction m) (auto split: if_splits)

interpretation sm: std_map "[]" map_of AList.update AList.delete length distinct_keys
proof unfold_locales
  show "map_of (AList.update k v m) k' = (if k' = k then Some v else map_of m k')"
    for k :: 'k and v :: 'v and m k'
    by (simp add: update_conv')
  show "map_of (AList.delete k m) k' = (if k' = k then None else map_of m k')"
    for k :: 'k and m :: "('k \<times> 'v) list" and k'
    by (simp add: delete_conv')
  show "length (AList.delete k m) \<le> length m" for k :: 'k and m :: "('k \<times> 'v) list"
    by (rule length_delete_le)
qed (auto simp: length_update distinct_update distinct_delete)

lemmas map_facts = sm.find_assign sm.find_erase sm.dom_assign sm.dom_erase

section \<open>Lists\<close>

lemma filter_take_Suc_length:
  "i < length xs \<Longrightarrow> length (filter P (xs[i := y])) + (if P (xs ! i) then 1 else 0)
     = length (filter P xs) + (if P y then 1 else 0)"
proof (induction xs arbitrary: i)
  case Nil
  then show ?case by simp
next
  case (Cons x xs)
  then show ?case by (cases i) auto
qed

lemma length_filter_eq: "length (filter P xs) = length xs \<longleftrightarrow> (\<forall>x \<in> set xs. P x)"
proof (induction xs)
  case Nil
  then show ?case by simp
next
  case (Cons x xs)
  have "length (filter P xs) \<noteq> Suc (length xs)"
    using length_filter_le [of P xs] by linarith
  with Cons show ?case by auto
qed

lemma unat_less_2_32: "unat (x :: 32 word) < 2 ^ 32"
  using unsigned_less [of x] by simp

lemma unat_of_nat_32: "n < 2 ^ 32 \<Longrightarrow> unat (of_nat n :: 32 word) = n"
  by (simp add: unsigned_of_nat take_bit_nat_eq_self_iff)

end
