(* ===== verification/SpreadMessage.thy ===== *)
theory SpreadMessage
  imports Prelude
begin

text \<open>
  \<open>SpreadMessage\<close> (\<open>SpreadMessage.h\<close>, \<open>SpreadMessage.cpp\<close>): the value object that carries one
  Spread message, with its type, quality of service, payload bytes and destination groups.
  \<open>std::set<std::string>\<close> iterates in the order of \<open>operator<\<close> on strings (bytes, unsigned), so
  the groups are a strictly sorted list. \<open>MAX_GROUP_NAME\<close> comes from \<open>sp.h\<close> and is the
  argument \<open>maxg\<close>.
\<close>

section \<open>Enumerations\<close>

datatype message_type = REGULAR | MEMBERSHIP | OTHER

fun type_code :: "message_type \<Rightarrow> nat" where
  "type_code REGULAR = 0x0001"
| "type_code MEMBERSHIP = 0x0002"
| "type_code OTHER = 0xFFFF"

datatype qos = UNRELIABLE | RELIABLE | FIFO | CAUSAL | AGREED | SAFE

fun qos_code :: "qos \<Rightarrow> 32 word" where
  "qos_code UNRELIABLE = 0x00000001"
| "qos_code RELIABLE = 0x00000002"
| "qos_code FIFO = 0x00000004"
| "qos_code CAUSAL = 0x00000008"
| "qos_code AGREED = 0x00000010"
| "qos_code SAFE = 0x00000020"

text \<open>The enumerators are ordered by their values, as C++ compares them.\<close>

lemma qos_code_inject [simp]: "qos_code a = qos_code b \<longleftrightarrow> a = b"
  by (cases a; cases b) simp_all

instantiation qos :: linorder
begin

definition less_eq_qos :: "qos \<Rightarrow> qos \<Rightarrow> bool" where
  "less_eq_qos a b \<longleftrightarrow> qos_code a \<le> qos_code b"

definition less_qos :: "qos \<Rightarrow> qos \<Rightarrow> bool" where
  "less_qos a b \<longleftrightarrow> qos_code a < qos_code b"

instance
  by standard (auto simp: less_eq_qos_def less_qos_def dest: order.antisym)

end

section \<open>The message\<close>

record spread_message =
  mtype :: message_type
  mqos :: qos
  mdata :: string
  mgroups :: "string list"

definition message_new :: spread_message where
  "message_new = \<lparr>mtype = OTHER, mqos = UNRELIABLE, mdata = [], mgroups = []\<rparr>"

definition message_of_type :: "message_type \<Rightarrow> spread_message" where
  "message_of_type mt = \<lparr>mtype = mt, mqos = UNRELIABLE, mdata = [], mgroups = []\<rparr>"

definition message_of_data :: "string \<Rightarrow> spread_message" where
  "message_of_data d = \<lparr>mtype = OTHER, mqos = UNRELIABLE, mdata = d, mgroups = []\<rparr>"

definition message_of_cstring :: "string \<Rightarrow> spread_message" where
  "message_of_cstring buf =
     \<lparr>mtype = OTHER, mqos = UNRELIABLE, mdata = c_str buf, mgroups = []\<rparr>"

definition getType :: "spread_message \<Rightarrow> message_type" where
  "getType m = mtype m"

definition setType :: "message_type \<Rightarrow> spread_message \<Rightarrow> spread_message" where
  "setType t m = m\<lparr>mtype := t\<rparr>"

definition getQOS :: "spread_message \<Rightarrow> qos" where
  "getQOS m = mqos m"

definition setQOS :: "qos \<Rightarrow> spread_message \<Rightarrow> spread_message" where
  "setQOS q m = m\<lparr>mqos := q\<rparr>"

definition getData :: "spread_message \<Rightarrow> string" where
  "getData m = mdata m"

definition setData :: "string \<Rightarrow> spread_message \<Rightarrow> spread_message" where
  "setData d m = m\<lparr>mdata := d\<rparr>"

definition setData_cstring :: "string \<Rightarrow> spread_message \<Rightarrow> spread_message" where
  "setData_cstring buf m = m\<lparr>mdata := c_str buf\<rparr>"

text \<open>\<open>int getSize()\<close> narrows the length to a 32 bit signed integer.\<close>

definition getSize :: "spread_message \<Rightarrow> int" where
  "getSize m = sint (of_nat (length (mdata m)) :: 32 word)"

definition getGroups :: "spread_message \<Rightarrow> string list" where
  "getGroups m = mgroups m"

definition addGroup :: "nat \<Rightarrow> string \<Rightarrow> spread_message \<Rightarrow> (unit, spread_message) outcome" where
  "addGroup maxg name m =
     (if length name > maxg - 1
      then (Inl (InvalidArgument (''Group name '' @ [CHR 0x27] @ name @ [CHR 0x27]
                   @ '' is too long for spread.'')), m)
      else (Inr (), m\<lparr>mgroups := insort_insert name (mgroups m)\<rparr>))"

text \<open>The loops of the callers that add several groups one after the other.\<close>

fun addGroups :: "nat \<Rightarrow> string list \<Rightarrow> spread_message \<Rightarrow> (unit, spread_message) outcome" where
  "addGroups maxg [] m = (Inr (), m)"
| "addGroups maxg (g # gs) m = andThen (addGroup maxg g m) (\<lambda>_. addGroups maxg gs)"

section \<open>Facts\<close>

text \<open>
  Well-formed: the groups are a set in iteration order and each fits a row of \<open>maxg\<close> bytes with
  its terminating NUL.
\<close>

definition message_wf :: "nat \<Rightarrow> spread_message \<Rightarrow> bool" where
  "message_wf maxg m \<longleftrightarrow>
     sorted (mgroups m) \<and> distinct (mgroups m) \<and> (\<forall>g \<in> set (mgroups m). length g \<le> maxg - 1)"

lemmas message_accessors =
  getType_def setType_def getQOS_def setQOS_def getData_def setData_def setData_cstring_def
  getGroups_def

lemmas message_constructors =
  message_new_def message_of_type_def message_of_data_def message_of_cstring_def

lemma message_wf_constructors [simp]:
  "message_wf maxg message_new" "message_wf maxg (message_of_type t)"
  "message_wf maxg (message_of_data d)" "message_wf maxg (message_of_cstring d)"
  by (simp_all add: message_wf_def message_constructors)

lemma message_wf_setters [simp]:
  "message_wf maxg (m\<lparr>mtype := t\<rparr>) = message_wf maxg m"
  "message_wf maxg (m\<lparr>mqos := q\<rparr>) = message_wf maxg m"
  "message_wf maxg (m\<lparr>mdata := d\<rparr>) = message_wf maxg m"
  by (simp_all add: message_wf_def)

lemma addGroup_ok:
  "length g \<le> maxg - 1 \<Longrightarrow>
     addGroup maxg g m = (Inr (), m\<lparr>mgroups := insort_insert g (mgroups m)\<rparr>)"
  by (simp add: addGroup_def)

lemma addGroup_wf:
  assumes "message_wf maxg m" and "addGroup maxg g m = (r, m')"
  shows "message_wf maxg m'"
  using assms
  by (auto simp: addGroup_def message_wf_def set_insort_insert sorted_insort_insert
      distinct_insort_insert split: if_splits)

lemma addGroups_wf:
  "message_wf maxg m \<Longrightarrow> addGroups maxg gs m = (r, m') \<Longrightarrow> message_wf maxg m'"
proof (induction gs arbitrary: m)
  case Nil
  then show ?case by simp
next
  case (Cons g gs)
  obtain r1 m1 where step: "addGroup maxg g m = (r1, m1)" by (metis surj_pair)
  with Cons.prems have "message_wf maxg m1" by (blast intro: addGroup_wf)
  with Cons step show ?case by (cases r1) auto
qed

lemma addGroups_ok:
  "(\<And>g. g \<in> set gs \<Longrightarrow> length g \<le> maxg - 1) \<Longrightarrow>
     \<exists>m'. addGroups maxg gs m = (Inr (), m') \<and> set (mgroups m') = set (mgroups m) \<union> set gs
        \<and> mtype m' = mtype m \<and> mqos m' = mqos m \<and> mdata m' = mdata m"
proof (induction gs arbitrary: m)
  case Nil
  then show ?case by simp
next
  case (Cons g gs)
  let ?m1 = "m\<lparr>mgroups := insort_insert g (mgroups m)\<rparr>"
  have "addGroup maxg g m = (Inr (), ?m1)" using Cons.prems by (intro addGroup_ok) simp
  moreover have "\<exists>m'. addGroups maxg gs ?m1 = (Inr (), m')
      \<and> set (mgroups m') = set (mgroups ?m1) \<union> set gs
      \<and> mtype m' = mtype ?m1 \<and> mqos m' = mqos ?m1 \<and> mdata m' = mdata ?m1"
    using Cons.prems by (intro Cons.IH) simp
  ultimately show ?case by (auto simp: set_insort_insert)
qed

lemma addGroups_frame:
  "addGroups maxg gs m = (r, m') \<Longrightarrow>
     mtype m' = mtype m \<and> mqos m' = mqos m \<and> mdata m' = mdata m"
proof (induction gs arbitrary: m)
  case Nil
  then show ?case by simp
next
  case (Cons g gs)
  obtain r1 m1 where step: "addGroup maxg g m = (r1, m1)" by (metis surj_pair)
  then have "mtype m1 = mtype m \<and> mqos m1 = mqos m \<and> mdata m1 = mdata m"
    by (auto simp: addGroup_def split: if_splits)
  with Cons step show ?case by (cases r1) fastforce+
qed

end
