(* ===== verification/SpreadApi.thy ===== *)
theory SpreadApi
  imports SpreadMessage
begin

text \<open>
  The Spread client library (\<open>sp.h\<close>) is not part of the repository. It is the record
  \<open>spread_api\<close>: the macros and error codes as constants, every call as a function from the history
  of the calls made so far to what the library returns. The history makes the environment
  arbitrary: a return code may depend on everything that happened before. Each call the transport
  makes is one \<open>spread_call\<close> with its arguments and its result; the history \<open>spread_call list\<close>
  holds the latest call first.

  \<open>joined\<close> and \<open>in_session\<close> read off a history what the documentation of Spread says a mailbox
  is: connected since its last accepted \<open>SP_connect\<close>, a member of a group since a \<open>SP_join\<close>
  that returned 0 until a \<open>SP_leave\<close> that returned 0.
\<close>

section \<open>The library as a parameter\<close>

record sp_received =
  rc_ret :: int
  rc_service :: int
  rc_numGroups :: int
  rc_groups :: "nat \<Rightarrow> string"
  rc_buf :: string

datatype spread_call =
    SpConnect string int int string
  | SpDisconnect int
  | SpJoin int string int
  | SpLeave int string int
  | SpReceive int sp_received
  | SpMulticast int "32 word" string string int
  | SpMultigroupMulticast int "32 word" "string list" string int

type_synonym history = "spread_call list"

record spread_codes =
  ACCEPT_SESSION :: int
  ILLEGAL_SPREAD :: int
  COULD_NOT_CONNECT :: int
  REJECT_QUOTA :: int
  REJECT_NO_NAME :: int
  REJECT_ILLEGAL_NAME :: int
  REJECT_NOT_UNIQUE :: int
  REJECT_VERSION :: int
  REJECT_AUTH :: int
  CONNECTION_CLOSED :: int
  NET_ERROR_ON_SESSION :: int
  ILLEGAL_SESSION :: int
  ILLEGAL_SERVICE :: int
  ILLEGAL_MESSAGE :: int
  ILLEGAL_GROUP :: int
  GROUPS_TOO_SHORT :: int
  BUFFER_TOO_SHORT :: int
  MESSAGE_TOO_LONG :: int
  SP_BUG :: "int option"

record spread_api = spread_codes +
  MAX_GROUP_NAME :: nat
  DEFAULT_SPREAD_PORT :: "32 word"
  SELF_DISCARD :: "32 word"
  RELIABLE_MESS :: "32 word"
  Is_regular_mess :: "int \<Rightarrow> bool"
  Is_membership_mess :: "int \<Rightarrow> bool"
  SP_connect :: "history \<Rightarrow> string \<Rightarrow> int \<times> int \<times> string"
  SP_join :: "history \<Rightarrow> int \<Rightarrow> string \<Rightarrow> int"
  SP_leave :: "history \<Rightarrow> int \<Rightarrow> string \<Rightarrow> int"
  SP_receive :: "history \<Rightarrow> int \<Rightarrow> sp_received"
  SP_multicast :: "history \<Rightarrow> int \<Rightarrow> 32 word \<Rightarrow> string \<Rightarrow> string \<Rightarrow> int"
  SP_multigroup_multicast :: "history \<Rightarrow> int \<Rightarrow> 32 word \<Rightarrow> string list \<Rightarrow> string \<Rightarrow> int"

section \<open>What a history says\<close>

fun joined :: "int \<Rightarrow> history \<Rightarrow> string set" where
  "joined mb [] = {}"
| "joined mb (SpJoin m g r # w) =
     (if m = mb \<and> r = 0 then insert g (joined mb w) else joined mb w)"
| "joined mb (SpLeave m g r # w) =
     (if m = mb \<and> r = 0 then joined mb w - {g} else joined mb w)"
| "joined mb (SpConnect d r m p # w) = (if m = mb then {} else joined mb w)"
| "joined mb (SpDisconnect m # w) = (if m = mb then {} else joined mb w)"
| "joined mb (c # w) = joined mb w"

fun in_session :: "int \<Rightarrow> int \<Rightarrow> history \<Rightarrow> bool" where
  "in_session acc mb [] = False"
| "in_session acc mb (SpConnect d r m p # w) =
     (if m = mb then r = acc else in_session acc mb w)"
| "in_session acc mb (SpDisconnect m # w) = (if m = mb then False else in_session acc mb w)"
| "in_session acc mb (c # w) = in_session acc mb w"

text \<open>The messages that left the process, latest first: groups, service and payload.\<close>

fun sent :: "history \<Rightarrow> (string list \<times> 32 word \<times> string) list" where
  "sent [] = []"
| "sent (SpMulticast m s g d r # w) = (if r < 0 then sent w else ([g], s, d) # sent w)"
| "sent (SpMultigroupMulticast m s gs d r # w) = (if r < 0 then sent w else (gs, s, d) # sent w)"
| "sent (c # w) = sent w"

section \<open>A concrete library\<close>

text \<open>
  A daemon that accepts every call and has one regular message for a group \<open>''g''\<close> waiting, with
  the constants of \<open>sp.h\<close> of Spread 4. Only witnesses use it.
\<close>

definition sample_message :: sp_received where
  "sample_message = \<lparr>rc_ret = 3, rc_service = 2, rc_numGroups = 1,
     rc_groups = (\<lambda>i. if i = 0 then ''g'' else []), rc_buf = ''abc''\<rparr>"

definition sample_api :: spread_api where
  "sample_api = \<lparr>ACCEPT_SESSION = 1, ILLEGAL_SPREAD = -1, COULD_NOT_CONNECT = -2,
     REJECT_QUOTA = -3, REJECT_NO_NAME = -4, REJECT_ILLEGAL_NAME = -5, REJECT_NOT_UNIQUE = -6,
     REJECT_VERSION = -7, REJECT_AUTH = -20, CONNECTION_CLOSED = -8, NET_ERROR_ON_SESSION = -18,
     ILLEGAL_SESSION = -11, ILLEGAL_SERVICE = -12, ILLEGAL_MESSAGE = -13, ILLEGAL_GROUP = -14,
     GROUPS_TOO_SHORT = -16, BUFFER_TOO_SHORT = -15, MESSAGE_TOO_LONG = -17, SP_BUG = None,
     MAX_GROUP_NAME = 32, DEFAULT_SPREAD_PORT = 4803, SELF_DISCARD = 0x40, RELIABLE_MESS = 2,
     Is_regular_mess = (\<lambda>s. s = 2), Is_membership_mess = (\<lambda>s. s = 4096),
     SP_connect = (\<lambda>w d. (1, 7, ''#r7#localhost'')),
     SP_join = (\<lambda>w m g. 0), SP_leave = (\<lambda>w m g. 0),
     SP_receive = (\<lambda>w m. sample_message),
     SP_multicast = (\<lambda>w m s g d. int (length d)),
     SP_multigroup_multicast = (\<lambda>w m s gs d. int (length d))\<rparr>"

end
