(* ===== verification/ErrorMessages.thy ===== *)
theory ErrorMessages
  imports SpreadApi
begin

text \<open>
  \<open>spreadErrorString\<close> (\<open>ErrorMessages.cpp\<close>): the description of a Spread error code. The
  \<open>switch\<close> compares with the constants of \<open>sp.h\<close> in the order below; a C++ \<open>switch\<close> needs
  pairwise different labels (\<open>codes_distinct\<close>), so the order does not matter there. The case
  \<open>SP_BUG\<close> exists only where the macro does.
\<close>

definition spreadErrorString :: "'a spread_codes_scheme \<Rightarrow> int \<Rightarrow> string" where
  "spreadErrorString api code =
    (if code = ILLEGAL_SPREAD api then
       ''Connection to Spread daemon failed, check port and hostname''
     else if code = COULD_NOT_CONNECT api then
       ''Connection to Spread daemon failed due to socket errors '' @
       '', check port and hostname. Is the daemon running?''
     else if code = REJECT_QUOTA api then
       ''The Spread daemon rejected the connection. Too many clients'' @
       '' are connected to the Spread daemon.''
     else if code = REJECT_NO_NAME api then
       ''The Spread daemon rejected the connection. No name was '' @
       ''supplied for the new client.''
     else if code = REJECT_ILLEGAL_NAME api then
       ''The Spread daemon rejected the connection. The name '' @
       ''provided for the client is illegal.''
     else if code = REJECT_NOT_UNIQUE api then
       ''The Spread daemon rejected the connection. The name '' @
       ''provided for the new client is not unique within the '' @
       ''Spread daemon.''
     else if code = REJECT_VERSION api then
       ''The Spread daemon rejected the connection. Spread daemon '' @
       ''version and Spread library versions do not match.''
     else if code = REJECT_AUTH api then
       ''The Spread daemon rejected the connection. The client failed'' @
       '' to authenticate to the Spread daemon.''
     else if code = CONNECTION_CLOSED api then
       ''The Spread daemon has closed the client'' @ [CHR 0x27] @ ''s connection.''
     else if code = NET_ERROR_ON_SESSION api then
       ''The client lost its connection to the Spread daemon. ''
     else if code = ILLEGAL_SESSION api then
       ''An illegal mailbox was supplied to the Spread library '' @
       ''(client-side programming error).''
     else if code = ILLEGAL_SERVICE api then
       ''An illegal service was requested from the Spread library '' @
       ''(client-side programming error).''
     else if code = ILLEGAL_MESSAGE api then
       ''An illegal message was passed to the Spread library '' @
       ''(client-side programming error).''
     else if code = ILLEGAL_GROUP api then
       ''An illegal group name was passed to the Spread library '' @
       ''(client-side programming error).''
     else if code = GROUPS_TOO_SHORT api then
       ''Group buffer too short when receiving a message.''
     else if code = BUFFER_TOO_SHORT api then
       ''Message body buffer too short when receiving a message.''
     else if code = MESSAGE_TOO_LONG api then
       ''Message body too long when sending a message''
     else if SP_BUG api = Some code then
       ''Internal error in the Spread library.''
     else ''Unknown Spread error, code: '' @ show_int code)"

text \<open>The labels of the \<open>switch\<close>, in its order.\<close>

definition error_codes :: "'a spread_codes_scheme \<Rightarrow> int list" where
  "error_codes api =
     [ILLEGAL_SPREAD api, COULD_NOT_CONNECT api, REJECT_QUOTA api, REJECT_NO_NAME api,
      REJECT_ILLEGAL_NAME api, REJECT_NOT_UNIQUE api, REJECT_VERSION api, REJECT_AUTH api,
      CONNECTION_CLOSED api, NET_ERROR_ON_SESSION api, ILLEGAL_SESSION api, ILLEGAL_SERVICE api,
      ILLEGAL_MESSAGE api, ILLEGAL_GROUP api, GROUPS_TOO_SHORT api, BUFFER_TOO_SHORT api,
      MESSAGE_TOO_LONG api] @ (case SP_BUG api of None \<Rightarrow> [] | Some c \<Rightarrow> [c])"

definition codes_distinct :: "'a spread_codes_scheme \<Rightarrow> bool" where
  "codes_distinct api \<longleftrightarrow> distinct (error_codes api)"

lemma spreadErrorString_unknown:
  "code \<notin> set (error_codes api) \<Longrightarrow>
     spreadErrorString api code = ''Unknown Spread error, code: '' @ show_int code"
  by (auto simp: spreadErrorString_def error_codes_def split: option.splits)

section \<open>The descriptions are pairwise different\<close>

text \<open>
  Two characters and the length of a description tell which case produced it; \<open>key_code\<close> reads
  the code back from them.
\<close>

definition text_key :: "string \<Rightarrow> char \<times> char \<times> nat" where
  "text_key s = (hd s, s ! 4, length s)"

lemma text_key_error:
  "text_key (spreadErrorString api code) =
    (if code = ILLEGAL_SPREAD api then (CHR ''C'', CHR ''e'', 59)
     else if code = COULD_NOT_CONNECT api then (CHR ''C'', CHR ''e'', 105)
     else if code = REJECT_QUOTA api then (CHR ''T'', CHR ''S'', 95)
     else if code = REJECT_NO_NAME api then (CHR ''T'', CHR ''S'', 83)
     else if code = REJECT_ILLEGAL_NAME api then (CHR ''T'', CHR ''S'', 87)
     else if code = REJECT_NOT_UNIQUE api then (CHR ''T'', CHR ''S'', 119)
     else if code = REJECT_VERSION api then (CHR ''T'', CHR ''S'', 106)
     else if code = REJECT_AUTH api then (CHR ''T'', CHR ''S'', 98)
     else if code = CONNECTION_CLOSED api then (CHR ''T'', CHR ''S'', 53)
     else if code = NET_ERROR_ON_SESSION api then (CHR ''T'', CHR ''c'', 53)
     else if code = ILLEGAL_SESSION api then (CHR ''A'', CHR ''l'', 86)
     else if code = ILLEGAL_SERVICE api then (CHR ''A'', CHR ''l'', 89)
     else if code = ILLEGAL_MESSAGE api then (CHR ''A'', CHR ''l'', 84)
     else if code = ILLEGAL_GROUP api then (CHR ''A'', CHR ''l'', 87)
     else if code = GROUPS_TOO_SHORT api then (CHR ''G'', CHR ''p'', 48)
     else if code = BUFFER_TOO_SHORT api then (CHR ''M'', CHR ''a'', 55)
     else if code = MESSAGE_TOO_LONG api then (CHR ''M'', CHR ''a'', 44)
     else if SP_BUG api = Some code then (CHR ''I'', CHR ''r'', 37)
     else (CHR ''U'', CHR ''o'', 28 + length (show_int code)))"
  by (simp add: spreadErrorString_def text_key_def)

lemma text_key_unknown:
  "code \<notin> set (error_codes api) \<Longrightarrow> fst (text_key (spreadErrorString api code)) = CHR ''U''"
  by (simp add: spreadErrorString_unknown text_key_def)


definition key_code :: "'a spread_codes_scheme \<Rightarrow> char \<times> char \<times> nat \<Rightarrow> int option" where
  "key_code api = map_of (zip
     [(CHR ''C'', CHR ''e'', 59), (CHR ''C'', CHR ''e'', 105), (CHR ''T'', CHR ''S'', 95),
      (CHR ''T'', CHR ''S'', 83), (CHR ''T'', CHR ''S'', 87), (CHR ''T'', CHR ''S'', 119),
      (CHR ''T'', CHR ''S'', 106), (CHR ''T'', CHR ''S'', 98), (CHR ''T'', CHR ''S'', 53),
      (CHR ''T'', CHR ''c'', 53), (CHR ''A'', CHR ''l'', 86), (CHR ''A'', CHR ''l'', 89),
      (CHR ''A'', CHR ''l'', 84), (CHR ''A'', CHR ''l'', 87), (CHR ''G'', CHR ''p'', 48),
      (CHR ''M'', CHR ''a'', 55), (CHR ''M'', CHR ''a'', 44), (CHR ''I'', CHR ''r'', 37)]
     (error_codes api))"

lemma error_codesE:
  assumes "code \<in> set (error_codes api)" "code \<notin> set (take 17 (error_codes api))"
  shows "SP_BUG api = Some code"
  using assms by (auto simp: error_codes_def split: option.splits)

lemma key_code_key:
  assumes "code \<in> set (error_codes api)"
  shows "key_code api (text_key (spreadErrorString api code)) = Some code"
proof (cases "code \<in> set (take 17 (error_codes api))")
  case False
  with assms have "SP_BUG api = Some code" by (rule error_codesE)
  with False show ?thesis
    by (simp add: text_key_error key_code_def error_codes_def)
next
  case True
  then show ?thesis
    unfolding text_key_error
    by (simp add: key_code_def error_codes_def split: if_split) blast
qed

lemma key_code_unknown:
  assumes "code \<notin> set (error_codes api)"
  shows "key_code api (text_key (spreadErrorString api code)) = None"
 using assms 
    by (auto simp add: text_key_error key_code_def error_codes_def split: option.splits)

text \<open>Descriptions identify codes: two codes have the same description only if they are the
  same code, whatever the constants of the library are; an unknown code prints itself.\<close>

lemma error_texts_identify_codes:
  "spreadErrorString api a = spreadErrorString api b \<longleftrightarrow> a = b"
proof
  assume eq: "spreadErrorString api a = spreadErrorString api b"
  show "a = b"
  proof (cases "a \<in> set (error_codes api)")
    case True
    then show ?thesis by (metis eq key_code_key key_code_unknown option.distinct(1) option.inject)
  next
    case False
    then have "b \<notin> set (error_codes api)"
      by (metis eq key_code_key key_code_unknown option.distinct(1))
    with False eq show ?thesis by (simp add: spreadErrorString_unknown)
  qed
qed simp

end
