(* ===== verification/Interfaces.thy ===== *)
theory Interfaces
  imports Prelude
begin

text \<open>
  The contracts between the components, one locale each. A locale fixes the operations a client
  calls and assumes the laws its provider promises; the client's lemmas are proved inside the
  locale, and the provider's theory interprets it on the model of the code.
\<close>

section \<open>Joining and leaving groups\<close>

text \<open>
  What \<open>MembershipManager\<close> needs of the connection: a successful \<open>join\<close> or \<open>leave\<close> changes the
  set of joined groups by exactly that group, a failing one does not change it. \<open>proper\<close> are the
  group names the connection passes on unchanged.
\<close>

locale group_provider =
  fixes cjoin :: "string \<Rightarrow> 'c \<Rightarrow> (unit, 'c) outcome"
    and cleave :: "string \<Rightarrow> 'c \<Rightarrow> (unit, 'c) outcome"
    and members :: "'c \<Rightarrow> string set"
    and proper :: "string \<Rightarrow> bool"
  assumes join_ok: "proper g \<Longrightarrow> cjoin g c = (Inr x, c') \<Longrightarrow> members c' = insert g (members c)"
    and join_fail: "cjoin g c = (Inl e, c') \<Longrightarrow> members c' = members c"
    and leave_ok: "proper g \<Longrightarrow> cleave g c = (Inr x, c') \<Longrightarrow> members c' = members c - {g}"
    and leave_fail: "cleave g c = (Inl e, c') \<Longrightarrow> members c' = members c"
begin

lemma join_members_mono: "proper g \<Longrightarrow> cjoin g c = (r, c') \<Longrightarrow> members c \<subseteq> members c'"
  by (cases r) (auto dest: join_ok join_fail)

lemma join_members_bound: "proper g \<Longrightarrow> cjoin g c = (r, c') \<Longrightarrow> members c' \<subseteq> insert g (members c)"
  by (cases r) (auto dest: join_ok join_fail)

lemma leave_members_anti: "proper g \<Longrightarrow> cleave g c = (r, c') \<Longrightarrow> members c' \<subseteq> members c"
  by (cases r) (auto dest: leave_ok leave_fail)

lemma leave_members_other:
  "proper g \<Longrightarrow> cleave g c = (r, c') \<Longrightarrow> h \<noteq> g \<Longrightarrow> h \<in> members c' \<longleftrightarrow> h \<in> members c"
  by (cases r) (auto dest: leave_ok leave_fail)

end

section \<open>Collecting the parts of a message\<close>

text \<open>
  What \<open>AssemblyPool\<close> needs of an \<open>Assembly\<close>: it is made from a first fragment, further fragments
  are added until every part is there, and a part that is already there is refused. \<open>parts\<close> is what
  it has collected, \<open>total\<close> how many parts it waits for; a fragment carries its \<open>index\<close> and the
  number of parts it \<open>declares\<close>. \<open>feed\<close> adds fragments one after the other.
\<close>

fun feed :: "('f \<Rightarrow> 'a \<Rightarrow> (bool, 'a) outcome) \<Rightarrow> 'f list \<Rightarrow> 'a \<Rightarrow> (exn + bool) list \<times> 'a" where
  "feed add [] a = ([], a)"
| "feed add (f # fs) a =
     (case add f a of (r, a1) \<Rightarrow> (case feed add fs a1 of (rs, a2) \<Rightarrow> (r # rs, a2)))"

locale part_collector =
  fixes make :: "'f \<Rightarrow> exn + 'a"
    and add :: "'f \<Rightarrow> 'a \<Rightarrow> (bool, 'a) outcome"
    and parts :: "'a \<Rightarrow> nat \<Rightarrow> 'f option"
    and total :: "'a \<Rightarrow> nat"
    and index :: "'f \<Rightarrow> nat"
    and declared :: "'f \<Rightarrow> nat"
    and invar :: "'a \<Rightarrow> bool"
  assumes make_ok: "index f < declared f \<Longrightarrow>
      \<exists>a. make f = Inr a \<and> invar a \<and> total a = declared f \<and> parts a = [index f \<mapsto> f]"
    and add_new: "invar a \<Longrightarrow> declared f = total a \<Longrightarrow> index f < total a \<Longrightarrow>
      parts a (index f) = None \<Longrightarrow>
      \<exists>a'. add f a = (Inr (dom (parts a') = {..<total a'}), a') \<and> invar a'
        \<and> total a' = total a \<and> parts a' = (parts a)(index f \<mapsto> f)"
    and add_twice: "invar a \<Longrightarrow> declared f = total a \<Longrightarrow> index f < total a \<Longrightarrow>
      parts a (index f) \<noteq> None \<Longrightarrow> \<exists>text. add f a = (Inl (ProtocolException text), a)"
begin

text \<open>
  Feeding fragments that are pairwise different and new: every call but the last reports that the
  assembly is not complete yet, provided the last one fills it.
\<close>

lemma feed_new:
  assumes "invar a" and "\<forall>f \<in> set fs. declared f = total a \<and> index f < total a"
    and "distinct (map index fs)" and "\<forall>f \<in> set fs. parts a (index f) = None"
    and "dom (parts a) \<union> index ` set fs = {..<total a}" and "fs \<noteq> []"
  shows "\<exists>a'. feed add fs a = (replicate (length fs - 1) (Inr False) @ [Inr True], a')
      \<and> invar a' \<and> total a' = total a \<and> parts a' = parts a ++ map_of (map (\<lambda>f. (index f, f)) fs)"
  using assms
proof (induction fs arbitrary: a)
  case Nil
  then show ?case by simp
next
  case (Cons f fs)
  obtain a1 where a1: "add f a = (Inr (dom (parts a1) = {..<total a1}), a1)" "invar a1"
      "total a1 = total a" "parts a1 = (parts a)(index f \<mapsto> f)"
    using add_new [of a f] Cons.prems by auto
  show ?case
  proof (cases "fs = []")
    case True
    with a1 Cons.prems show ?thesis
      by (intro exI [of _ a1]) (auto simp: fun_eq_iff map_add_def)
  next
    case False
    have f_new: "index f \<notin> index ` set fs" using Cons.prems(3) by auto
    have fs_new: "\<forall>h \<in> set fs. parts a1 (index h) = None"
    proof
      fix h
      assume "h \<in> set fs"
      moreover from this have "index h \<noteq> index f" using f_new by (metis image_eqI)
      ultimately show "parts a1 (index h) = None" using Cons.prems(4) a1(4) by simp
    qed
    have cover: "dom (parts a1) \<union> index ` set fs = {..<total a1}"
      using Cons.prems(5) a1(3,4) by auto
    obtain h where "h \<in> set fs" using False by (cases fs) auto
    then have "index h < total a1" "index h \<notin> dom (parts a1)"
      using Cons.prems(2) fs_new a1(3) by auto
    then have not_yet: "dom (parts a1) \<noteq> {..<total a1}" by auto
    obtain a2 where a2: "feed add fs a1 = (replicate (length fs - 1) (Inr False) @ [Inr True], a2)"
        "invar a2" "total a2 = total a1"
        "parts a2 = parts a1 ++ map_of (map (\<lambda>f. (index f, f)) fs)"
    proof -
      have "\<forall>f \<in> set fs. declared f = total a1 \<and> index f < total a1"
        using Cons.prems(2) a1(3) by simp
      moreover have "distinct (map index fs)" using Cons.prems(3) by simp
      ultimately show ?thesis using that Cons.IH [OF a1(2) _ _ fs_new cover False] by blast
    qed
    have rep: "replicate (length fs) x = x # replicate (length fs - 1) x" for x :: "exn + bool"
      using False by (cases fs) auto
    have "map_of (map (\<lambda>f. (index f, f)) fs) (index f) = None"
      using f_new by (simp add: map_of_eq_None_iff image_image)
    then have final: "parts a2 = parts a ++ map_of (map (\<lambda>f. (index f, f)) (f # fs))"
      unfolding a2(4) a1(4) by (auto simp: fun_eq_iff map_add_def split: option.splits)
    have "feed add (f # fs) a = (replicate (length (f # fs) - 1) (Inr False) @ [Inr True], a2)"
      using a1(1) a2(1) not_yet rep by simp
    moreover have "total a2 = total a" using a1(3) a2(3) by simp
    ultimately show ?thesis using a2(2) final by blast
  qed
qed

text \<open>Feeding a second copy of a collected part changes nothing.\<close>

lemma feed_twice:
  assumes "invar a" and "declared f = total a" and "index f < total a"
    and "parts a (index f) \<noteq> None"
  shows "\<exists>text. feed add [f, f] a
    = ([Inl (ProtocolException text), Inl (ProtocolException text)], a)"
  using add_twice [OF assms] by fastforce

end

section \<open>Registering sinks\<close>

text \<open>
  What \<open>InConnector\<close> needs of a bus: adding a sink takes one reference on the group of its scope or,
  when it throws, none; removing one gives the reference back even when it throws. \<open>references\<close> are
  the references the bus holds, \<open>room\<close> says that it can take another one.
\<close>

locale sink_registry =
  fixes add_sink :: "'sc \<Rightarrow> nat \<Rightarrow> 'b \<Rightarrow> (unit, 'b) outcome"
    and remove_sink :: "'sc \<Rightarrow> nat \<Rightarrow> 'b \<Rightarrow> (unit, 'b) outcome"
    and references :: "'b \<Rightarrow> 'g multiset"
    and group_for :: "'sc \<Rightarrow> 'g"
    and invar :: "'b \<Rightarrow> bool"
    and room :: "'b \<Rightarrow> bool"
  assumes add_ok: "invar b \<Longrightarrow> room b \<Longrightarrow> add_sink s k b = (Inr x, b') \<Longrightarrow>
      invar b' \<and> references b' = add_mset (group_for s) (references b)"
    and add_fail: "invar b \<Longrightarrow> room b \<Longrightarrow> add_sink s k b = (Inl e, b') \<Longrightarrow>
      invar b' \<and> references b' = references b"
    and remove_any: "invar b \<Longrightarrow> remove_sink s k b = (r, b') \<Longrightarrow>
      invar b' \<and> references b' = references b - {#group_for s#}"
begin

lemma add_then_remove:
  assumes "invar b" and "room b" and "add_sink s k b = (Inr x, b1)" and "remove_sink s k b1 = (r, b2)"
  shows "references b2 = references b"
  using add_ok [OF assms(1-3)] remove_any [OF _ assms(4)] by simp

end

end
