(* ===== verification/SpreadConnection.thy ===== *)
theory SpreadConnection
  imports ErrorMessages Interfaces
begin

text \<open>
  \<open>SpreadConnection\<close> (\<open>SpreadConnection.h\<close>, \<open>SpreadConnection.cpp\<close>): one connection to a Spread
  daemon. An operation takes the connection together with the history of library calls and returns
  both; \<open>receive\<close> also takes the message it fills. \<open>dbg\<close> says whether \<open>assert\<close> is compiled in,
  \<open>win32\<close> whether the platform is Windows (where only the daemon name differs; the mutex of that
  build serialises calls that are sequential here). Log output is not modelled.
\<close>

section \<open>State and construction\<close>

definition SPREAD_MAX_GROUPS :: nat where
  "SPREAD_MAX_GROUPS = 100"

record spread_connection =
  connected :: bool
  host :: string
  port :: "32 word"
  daemonName :: string
  mailbox :: int
  privateGroup :: string

type_synonym conn_state = "spread_connection \<times> history"

definition defaultHost :: string where
  "defaultHost = ''localhost''"

definition defaultPort :: "spread_api \<Rightarrow> 32 word" where
  "defaultPort api = DEFAULT_SPREAD_PORT api"

definition daemon_name :: "bool \<Rightarrow> string \<Rightarrow> 32 word \<Rightarrow> string" where
  "daemon_name win32 h p =
     (if win32 then show_nat (unat p) @ ''@'' @ h
      else if h = defaultHost then show_nat (unat p)
      else show_nat (unat p) @ ''@'' @ h)"

text \<open>The constructor leaves \<open>mailbox\<close> uninitialised; \<open>junk\<close> is what the memory held.\<close>

definition conn_new :: "bool \<Rightarrow> int \<Rightarrow> string \<Rightarrow> 32 word \<Rightarrow> spread_connection" where
  "conn_new win32 junk h p =
     \<lparr>connected = False, host = h, port = p, daemonName = daemon_name win32 h p,
      mailbox = junk, privateGroup = []\<rparr>"

definition conn_printContents :: "spread_connection \<Rightarrow> string" where
  "conn_printContents c = privateGroup c @ ''@'' @ daemonName c"

definition conn_getTransportURL :: "spread_connection \<Rightarrow> string" where
  "conn_getTransportURL c = ''spread://'' @ host c @ '':'' @ show_nat (unat (port c))"

definition conn_isActive :: "spread_connection \<Rightarrow> bool" where
  "conn_isActive c = connected c"

section \<open>Activation\<close>

definition conn_activate :: "spread_api \<Rightarrow> conn_state \<Rightarrow> (unit, conn_state) outcome" where
  "conn_activate api s = (case s of (c, w) \<Rightarrow>
     if connected c then
       (Inl (IllegalStateException
          (''Connection with id '' @ privateGroup c @ '' is already active.'')), (c, w))
     else
       (case SP_connect api w (c_str (daemonName c)) of (ret, mb, pg) \<Rightarrow>
         let w' = SpConnect (c_str (daemonName c)) ret mb (c_str pg) # w;
             c' = c\<lparr>mailbox := mb\<rparr>
         in if ret \<noteq> ACCEPT_SESSION api then
              (Inl (CommException (''Error connecting to Spread daemon at '' @ [CHR 0x27]
                  @ daemonName c @ [CHR 0x27] @ '': '' @ spreadErrorString api ret)), (c', w'))
            else (Inr (), (c'\<lparr>privateGroup := c_str pg, connected := True\<rparr>, w'))))"

definition conn_deactivate :: "conn_state \<Rightarrow> (unit, conn_state) outcome" where
  "conn_deactivate s = (case s of (c, w) \<Rightarrow>
     if \<not> connected c then (Inl (IllegalStateException ''Connection is not active.''), (c, w))
     else (Inr (), (c\<lparr>connected := False\<rparr>, SpDisconnect (mailbox c) # w)))"

definition conn_destroy :: "conn_state \<Rightarrow> (unit, conn_state) outcome" where
  "conn_destroy s = (if connected (fst s) then conn_deactivate s else (Inr (), s))"

section \<open>Groups\<close>

definition conn_join :: "spread_api \<Rightarrow> string \<Rightarrow> conn_state \<Rightarrow> (unit, conn_state) outcome" where
  "conn_join api grp s = (case s of (c, w) \<Rightarrow>
     if \<not> connected c then (Inl (IllegalStateException ''Connection is not active.''), (c, w))
     else
       let ret = SP_join api w (mailbox c) (c_str grp);
           w' = SpJoin (mailbox c) (c_str grp) ret # w
       in if ret \<noteq> 0 then
            (Inl (CommException (''Error joining Spread group '' @ [CHR 0x27] @ grp @ [CHR 0x27]
                @ '': '' @ spreadErrorString api ret)), (c, w'))
          else (Inr (), (c, w')))"

definition conn_leave :: "spread_api \<Rightarrow> string \<Rightarrow> conn_state \<Rightarrow> (unit, conn_state) outcome" where
  "conn_leave api grp s = (case s of (c, w) \<Rightarrow>
     if \<not> connected c then (Inl (IllegalStateException ''Connection is not active.''), (c, w))
     else
       let ret = SP_leave api w (mailbox c) (c_str grp);
           w' = SpLeave (mailbox c) (c_str grp) ret # w
       in if ret \<noteq> 0 then
            (Inl (CommException (''Error leaving Spread group '' @ [CHR 0x27] @ grp @ [CHR 0x27]
                @ '': '' @ spreadErrorString api ret)), (c, w'))
          else (Inr (), (c, w')))"

section \<open>Receiving\<close>

text \<open>
  The loop over the received groups. \<open>groups\<close> has \<open>SPREAD_MAX_GROUPS\<close> rows; reading a row behind
  them is undefined. The first argument counts the rounds that are left, \<open>i\<close> is the loop variable.
\<close>

fun receive_groups ::
  "nat \<Rightarrow> nat \<Rightarrow> nat \<Rightarrow> (nat \<Rightarrow> string) \<Rightarrow> spread_message \<Rightarrow> (unit, spread_message) outcome" where
  "receive_groups maxg 0 i rows m = (Inr (), m)"
| "receive_groups maxg (Suc k) i rows m =
     (if i \<ge> SPREAD_MAX_GROUPS then (Inl UndefinedBehaviour, m)
      else andThen (addGroup maxg (c_str (rows i)) m)
             (\<lambda>_. receive_groups maxg k (Suc i) rows))"

definition conn_receive ::
  "spread_api \<Rightarrow> bool \<Rightarrow> spread_message \<Rightarrow> conn_state \<Rightarrow>
     (unit, spread_message \<times> conn_state) outcome" where
  "conn_receive api dbg m s = (case s of (c, w) \<Rightarrow>
     if \<not> connected c then (Inl (IllegalStateException ''Connection is not active.''), (m, c, w))
     else
       let rc = SP_receive api w (mailbox c); w' = SpReceive (mailbox c) rc # w
       in if rc_ret rc < 0 then
            (Inl (CommException (''Spread receive error: ''
                @ spreadErrorString api (rc_ret rc))), (m, c, w'))
          else if Is_regular_mess api (rc_service rc) then
            (if rc_numGroups rc = 1 \<and> c_str (rc_groups rc 0) = privateGroup c
             then (Inl ThreadInterrupted, (m, c, w'))
             else
               (case receive_groups (MAX_GROUP_NAME api) (nat (rc_numGroups rc)) 0 (rc_groups rc)
                       (setData (take (nat (rc_ret rc)) (rc_buf rc)) (setType REGULAR m)) of
                  (r, m') \<Rightarrow> (r, (m', c, w'))))
          else if Is_membership_mess api (rc_service rc) then
            (Inr (), (setType MEMBERSHIP m, c, w'))
          else if dbg then (Inl AssertionFailure, (m, c, w'))
          else (Inl (CommException
                 (''Received a message that is neither membership nor data message. '' @
                  ''This should never happen according to the spread documentation.'')),
                (m, c, w')))"

section \<open>Sending\<close>

text \<open>
  Filling \<open>char groupNames[SPREAD_MAX_GROUPS][MAX_GROUP_NAME]\<close> from row \<open>i\<close> on: a row behind the
  array, or a name that leaves no room for its NUL, is written out of bounds.
\<close>

fun fill_groupNames :: "nat \<Rightarrow> bool \<Rightarrow> nat \<Rightarrow> string list \<Rightarrow> exn + string list" where
  "fill_groupNames maxg dbg i [] = Inr []"
| "fill_groupNames maxg dbg i (g # gs) =
     (if dbg \<and> \<not> length g < maxg then Inl AssertionFailure
      else if i \<ge> SPREAD_MAX_GROUPS \<or> length g \<ge> maxg then Inl UndefinedBehaviour
      else (case fill_groupNames maxg dbg (Suc i) gs of
              Inl e \<Rightarrow> Inl e
            | Inr rows \<Rightarrow> Inr (c_str g # rows)))"

definition send_result :: "spread_api \<Rightarrow> int \<Rightarrow> conn_state \<Rightarrow> (unit, conn_state) outcome" where
  "send_result api ret s =
     (if ret < 0
      then (Inl (CommException (''Spread send error: '' @ spreadErrorString api ret)), s)
      else (Inr (), s))"

definition conn_send ::
  "spread_api \<Rightarrow> bool \<Rightarrow> spread_message \<Rightarrow> conn_state \<Rightarrow> (unit, conn_state) outcome" where
  "conn_send api dbg m s = (case s of (c, w) \<Rightarrow>
     if \<not> connected c then (Inl (IllegalStateException ''Connection is not active.''), (c, w))
     else
       let data = getData m; groups = getGroups m;
           service = or (qos_code (getQOS m)) (SELF_DISCARD api)
       in if groups = [] then
            (if dbg then (Inl AssertionFailure, (c, w))
             else (Inl (CommException ''Group information missing in message''), (c, w)))
          else if length groups = 1 then
            let grp = hd groups
            in if dbg \<and> \<not> length grp < MAX_GROUP_NAME api then (Inl AssertionFailure, (c, w))
               else let ret = SP_multicast api w (mailbox c) service (c_str grp) data
                    in send_result api ret
                         (c, SpMulticast (mailbox c) service (c_str grp) data ret # w)
          else
            (case fill_groupNames (MAX_GROUP_NAME api) dbg 0 groups of
               Inl e \<Rightarrow> (Inl e, (c, w))
             | Inr rows \<Rightarrow>
                 let ret = SP_multigroup_multicast api w (mailbox c) service rows data
                 in send_result api ret
                      (c, SpMultigroupMulticast (mailbox c) service rows data ret # w)))"

text \<open>\<open>interruptReceive\<close> sends an empty message to the private group and ignores the result.\<close>

definition conn_interruptReceive :: "spread_api \<Rightarrow> conn_state \<Rightarrow> (unit, conn_state) outcome" where
  "conn_interruptReceive api s = (case s of (c, w) \<Rightarrow>
     if \<not> connected c then (Inl (IllegalStateException ''Connection is not active.''), (c, w))
     else
       let ret = SP_multicast api w (mailbox c) (RELIABLE_MESS api) (c_str (privateGroup c)) []
       in (Inr (), (c, SpMulticast (mailbox c) (RELIABLE_MESS api) (c_str (privateGroup c)) [] ret
                         # w)))"

section \<open>Facts\<close>

lemmas conn_defs =
  conn_activate_def conn_deactivate_def conn_join_def conn_leave_def conn_receive_def
  conn_send_def conn_interruptReceive_def send_result_def

lemma joined_send_result:
  "send_result api ret s = (r, s') \<Longrightarrow> s' = s"
  by (auto simp: send_result_def split: if_splits)

text \<open>No operation but \<open>activate\<close> and \<open>deactivate\<close> changes the connection object.\<close>

lemma conn_join_frame [frame_rules]: "conn_join api g (c, w) = (r, (c', w')) \<Longrightarrow> c' = c"
  by (auto simp: conn_join_def Let_def split: if_splits)

lemma conn_leave_frame [frame_rules]: "conn_leave api g (c, w) = (r, (c', w')) \<Longrightarrow> c' = c"
  by (auto simp: conn_leave_def Let_def split: if_splits)

lemma conn_receive_frame [frame_rules]: "conn_receive api dbg m (c, w) = (r, (m', c', w')) \<Longrightarrow> c' = c"
  by (auto simp: conn_receive_def Let_def split: if_splits prod.splits)

lemma conn_send_frame [frame_rules]: "conn_send api dbg m (c, w) = (r, (c', w')) \<Longrightarrow> c' = c"
  by (auto simp: conn_send_def send_result_def Let_def split: if_splits sum.splits)

lemma conn_interruptReceive_frame [frame_rules]:
  "conn_interruptReceive api (c, w) = (r, (c', w')) \<Longrightarrow> c' = c"
  by (auto simp: conn_interruptReceive_def Let_def split: if_splits)

subsection \<open>Group membership\<close>

text \<open>A group name without NUL is what the C library sees.\<close>

definition nul_free :: "string \<Rightarrow> bool" where
  "nul_free g \<longleftrightarrow> CHR 0x00 \<notin> set g"

lemma nul_free_c_str [simp]: "nul_free g \<Longrightarrow> c_str g = g"
  by (simp add: nul_free_def c_str_id)

definition conn_members :: "conn_state \<Rightarrow> string set" where
  "conn_members s = joined (mailbox (fst s)) (snd s)"

interpretation conn: group_provider "conn_join api" "conn_leave api" conn_members nul_free
  for api
proof unfold_locales
  show "conn_members c' = insert g (conn_members c)"
    if "nul_free g" and "conn_join api g c = (Inr x, c')" for g c x c'
    using that by (cases c) (auto simp: conn_join_def conn_members_def Let_def split: if_splits)
  show "conn_members c' = conn_members c" if "conn_join api g c = (Inl e, c')" for g c e c'
    using that by (cases c) (auto simp: conn_join_def conn_members_def Let_def split: if_splits)
  show "conn_members c' = conn_members c - {g}"
    if "nul_free g" and "conn_leave api g c = (Inr x, c')" for g c x c'
    using that by (cases c) (auto simp: conn_leave_def conn_members_def Let_def split: if_splits)
  show "conn_members c' = conn_members c" if "conn_leave api g c = (Inl e, c')" for g c e c'
    using that by (cases c) (auto simp: conn_leave_def conn_members_def Let_def split: if_splits)
qed

subsection \<open>Sending\<close>

lemma fill_groupNames_ok:
  "i + length gs \<le> SPREAD_MAX_GROUPS \<Longrightarrow> (\<And>g. g \<in> set gs \<Longrightarrow> length g < maxg) \<Longrightarrow>
     fill_groupNames maxg dbg i gs = Inr (map c_str gs)"
proof (induction gs arbitrary: i)
  case Nil
  then show ?case by simp
next
  case (Cons g gs)
  then have "fill_groupNames maxg dbg (Suc i) gs = Inr (map c_str gs)" by simp
  then show ?case using Cons.prems by (auto simp: not_le)
qed

lemma fill_groupNames_overflow:
  "i \<le> SPREAD_MAX_GROUPS \<Longrightarrow> SPREAD_MAX_GROUPS < i + length gs \<Longrightarrow>
     (\<And>g. g \<in> set gs \<Longrightarrow> length g < maxg) \<Longrightarrow>
     fill_groupNames maxg dbg i gs = Inl UndefinedBehaviour"
proof (induction gs arbitrary: i)
  case Nil
  then show ?case by simp
next
  case (Cons g gs)
  have g: "length g < maxg" using Cons.prems by simp
  show ?case
  proof (cases "i = SPREAD_MAX_GROUPS")
    case True
    with g show ?thesis by simp
  next
    case False
    with Cons.prems have "fill_groupNames maxg dbg (Suc i) gs = Inl UndefinedBehaviour"
      by (intro Cons.IH) auto
    with g False Cons.prems(1) show ?thesis by simp
  qed
qed

subsection \<open>Receiving\<close>

lemma receive_groups_ok:
  "i + k \<le> SPREAD_MAX_GROUPS \<Longrightarrow>
     receive_groups maxg k i rows m = addGroups maxg (map (\<lambda>j. c_str (rows j)) [i..<i + k]) m"
proof (induction k arbitrary: i m)
  case 0
  then show ?case by simp
next
  case (Suc k)
  have split: "[i..<i + Suc k] = i # [Suc i..<Suc i + k]" by (simp add: upt_rec)
  obtain r m1 where step: "addGroup maxg (c_str (rows i)) m = (r, m1)" by (metis surj_pair)
  show ?case
  proof (cases r)
    case (Inl e)
    with step Suc.prems split show ?thesis by simp
  next
    case (Inr u)
    have "receive_groups maxg k (Suc i) rows m1
        = addGroups maxg (map (\<lambda>j. c_str (rows j)) [Suc i..<Suc i + k]) m1"
      using Suc.prems by (intro Suc.IH) simp
    with Inr step Suc.prems split show ?thesis by simp
  qed
qed

section \<open>Names\<close>

lemma append_at_inject:
  assumes "c \<notin> set xs" and "c \<notin> set ys"
  shows "xs @ c # as = ys @ c # bs \<longleftrightarrow> xs = ys \<and> as = bs"
proof
  assume eq: "xs @ c # as = ys @ c # bs"
  have "takeWhile (\<lambda>x. x \<noteq> c) (xs @ c # as) = xs"
    using assms(1) by (subst takeWhile_append2) auto
  moreover have "takeWhile (\<lambda>x. x \<noteq> c) (ys @ c # bs) = ys"
    using assms(2) by (subst takeWhile_append2) auto
  ultimately have "xs = ys" using eq by simp
  with eq show "xs = ys \<and> as = bs" by simp
qed simp

lemma show_nat_no_at [simp]: "CHR ''@'' \<notin> set (show_nat n)"
  by (simp add: show_nat_no_char)

lemma show_nat_neq_at [simp]: "show_nat n \<noteq> show_nat m @ CHR ''@'' # h"
proof
  assume "show_nat n = show_nat m @ CHR ''@'' # h"
  then have "CHR ''@'' \<in> set (show_nat n)" by simp
  then show False by simp
qed

text \<open>Different endpoints have different daemon names, on both platforms: the name handed to
  \<open>SP_connect\<close> determines host and port.\<close>

lemma daemon_name_inject:
  "daemon_name win32 h p = daemon_name win32 h' p' \<longleftrightarrow> h = h' \<and> p = p'"
  using show_nat_neq_at [of "unat p" "unat p'" h'] show_nat_neq_at [of "unat p'" "unat p" h]
  by (auto simp: daemon_name_def append_at_inject word_unat_eq_iff simp del: show_nat_neq_at)

section \<open>Activation state\<close>

text \<open>Every operation except \<open>activate\<close> refuses an inactive connection with
  \<open>IllegalStateException\<close>, without calling the library and without changing anything.\<close>

lemma inactive_connection_refuses:
  assumes "\<not> connected c"
  shows "conn_deactivate (c, w) = (Inl (IllegalStateException ''Connection is not active.''), (c, w))
    \<and> conn_join api g (c, w) = (Inl (IllegalStateException ''Connection is not active.''), (c, w))
    \<and> conn_leave api g (c, w) = (Inl (IllegalStateException ''Connection is not active.''), (c, w))
    \<and> conn_receive api dbg m (c, w)
        = (Inl (IllegalStateException ''Connection is not active.''), (m, c, w))
    \<and> conn_send api dbg m (c, w)
        = (Inl (IllegalStateException ''Connection is not active.''), (c, w))
    \<and> conn_interruptReceive api (c, w)
        = (Inl (IllegalStateException ''Connection is not active.''), (c, w))"
  using assms by (simp add: conn_defs)

theorem inactive_connection_refuses_witness:
  "\<not> connected (conn_new False 0 ''h'' 1)
    \<and> conn_send sample_api True (message_of_data ''d'') (conn_new False 0 ''h'' 1, [])
        = (Inl (IllegalStateException ''Connection is not active.''), (conn_new False 0 ''h'' 1, []))"
proof -
  have h: "\<not> connected (conn_new False 0 ''h'' 1)" by (simp add: conn_new_def)
  show ?thesis
    using h inactive_connection_refuses
      [OF h, of "[]" sample_api "''g''" True "message_of_data ''d''"] by simp
qed

subsection \<open>The protocol of the library\<close>

text \<open>The operations of a client, and the states a client can bring a connection into.\<close>

datatype conn_op =
    CActivate
  | CDeactivate
  | CJoin string
  | CLeave string
  | CReceive spread_message
  | CSend spread_message
  | CInterrupt

fun conn_apply :: "spread_api \<Rightarrow> bool \<Rightarrow> conn_op \<Rightarrow> conn_state \<Rightarrow> conn_state" where
  "conn_apply api dbg CActivate s = snd (conn_activate api s)"
| "conn_apply api dbg CDeactivate s = snd (conn_deactivate s)"
| "conn_apply api dbg (CJoin g) s = snd (conn_join api g s)"
| "conn_apply api dbg (CLeave g) s = snd (conn_leave api g s)"
| "conn_apply api dbg (CReceive m) s = snd (snd (conn_receive api dbg m s))"
| "conn_apply api dbg (CSend m) s = snd (conn_send api dbg m s)"
| "conn_apply api dbg CInterrupt s = snd (conn_interruptReceive api s)"

inductive conn_reachable :: "spread_api \<Rightarrow> bool \<Rightarrow> conn_state \<Rightarrow> bool" for api dbg where
  created: "conn_reachable api dbg (conn_new win32 junk h p, [])"
| step: "conn_reachable api dbg s \<Longrightarrow> conn_reachable api dbg (conn_apply api dbg op s)"

text \<open>Every call but \<open>SP_connect\<close> uses a mailbox that is in a session when it is made.\<close>

fun call_ok :: "int \<Rightarrow> history \<Rightarrow> spread_call \<Rightarrow> bool" where
  "call_ok acc w (SpConnect d r m p) = True"
| "call_ok acc w (SpDisconnect m) = in_session acc m w"
| "call_ok acc w (SpJoin m g r) = in_session acc m w"
| "call_ok acc w (SpLeave m g r) = in_session acc m w"
| "call_ok acc w (SpReceive m rc) = in_session acc m w"
| "call_ok acc w (SpMulticast m s g d r) = in_session acc m w"
| "call_ok acc w (SpMultigroupMulticast m s gs d r) = in_session acc m w"

fun well_used :: "int \<Rightarrow> history \<Rightarrow> bool" where
  "well_used acc [] = True"
| "well_used acc (c # w) = (call_ok acc w c \<and> well_used acc w)"

definition conn_inv :: "spread_api \<Rightarrow> conn_state \<Rightarrow> bool" where
  "conn_inv api s \<longleftrightarrow> well_used (ACCEPT_SESSION api) (snd s)
     \<and> (connected (fst s) \<longrightarrow> in_session (ACCEPT_SESSION api) (mailbox (fst s)) (snd s))"

lemma conn_apply_inv:
  assumes "conn_inv api (c, w)"
  shows "conn_inv api (conn_apply api dbg op (c, w))"
  using assms
  by (cases op)
    (auto simp: conn_inv_def conn_defs Let_def split: outcome_splits)

lemma conn_reachable_inv: "conn_reachable api dbg s \<Longrightarrow> conn_inv api s"
proof (induction rule: conn_reachable.induct)
  case (created win32 junk h p)
  show ?case by (simp add: conn_inv_def conn_new_def)
next
  case (step s op)
  then show ?case by (cases s) (simp add: conn_apply_inv)
qed

text \<open>Whatever a client does and whatever the library answers, the connection calls the library
  only inside a session: \<open>SP_disconnect\<close>, \<open>SP_join\<close>, \<open>SP_leave\<close>, \<open>SP_receive\<close> and the
  multicasts are made only on a mailbox whose \<open>SP_connect\<close> was accepted and that has not been
  disconnected since; and the flag \<open>connected\<close> is only set during a session.\<close>

lemma library_used_in_session:
  assumes "conn_reachable api dbg (c, w)"
  shows "well_used (ACCEPT_SESSION api) w
    \<and> (connected c \<longrightarrow> in_session (ACCEPT_SESSION api) (mailbox c) w)"
  using conn_reachable_inv [OF assms] by (simp add: conn_inv_def)

lemma library_used_in_session_witness:
  "conn_reachable sample_api True
     (conn_apply sample_api True (CJoin ''g'')
       (conn_apply sample_api True CActivate (conn_new False 0 ''localhost'' 4803, [])))
   \<and> well_used 1 (snd (conn_apply sample_api True (CJoin ''g'')
       (conn_apply sample_api True CActivate (conn_new False 0 ''localhost'' 4803, []))))"
proof -
  let ?s = "conn_apply sample_api True (CJoin ''g'')
       (conn_apply sample_api True CActivate (conn_new False 0 ''localhost'' 4803, []))"
  have r: "conn_reachable sample_api True ?s"
    by (intro conn_reachable.intros)
  then have "conn_reachable sample_api True (fst ?s, snd ?s)" by simp
  from library_used_in_session [OF this] have "well_used 1 (snd ?s)"
    by (simp add: sample_api_def del: conn_apply.simps)
  with r show ?thesis by blast
qed

section \<open>Delivery\<close>

lemma map_c_str_nul_free: "(\<And>g. g \<in> set gs \<Longrightarrow> nul_free g) \<Longrightarrow> map c_str gs = gs"
  by (induction gs) auto

lemma message_wf_less:
  "message_wf maxg m \<Longrightarrow> 0 < maxg \<Longrightarrow> g \<in> set (mgroups m) \<Longrightarrow> length g < maxg"
  by (fastforce simp: message_wf_def)

text \<open>C19 Sending a message with 1 to 100 group names that fit reaches the library, in debug and
  release builds: either the message leaves with exactly its groups (in order), its payload and its
  service type with \<open>SELF_DISCARD\<close> added, or the library reports an error, nothing is sent and
  \<open>CommException\<close> is thrown. No \<open>assert\<close> fails and no buffer overflows.\<close>

theorem send_delivers_or_throws:
  assumes "connected c" and "0 < MAX_GROUP_NAME api" and "message_wf (MAX_GROUP_NAME api) m"
    and "mgroups m \<noteq> []" and "length (mgroups m) \<le> SPREAD_MAX_GROUPS"
    and "\<forall>g \<in> set (mgroups m). nul_free g"
  shows "\<exists>r w'. conn_send api dbg m (c, w) = (r, (c, w')) \<and>
     (r = Inr () \<and>
        sent w' = (mgroups m, or (qos_code (mqos m)) (SELF_DISCARD api), mdata m) # sent w
      \<or> (\<exists>text. r = Inl (CommException text)) \<and> sent w' = sent w)"
proof (cases "length (mgroups m) = 1")
  case True
  then obtain g where g: "mgroups m = [g]" by (auto simp: length_Suc_conv)
  then have "length g < MAX_GROUP_NAME api" using message_wf_less [OF assms(3,2)] by simp
  with g assms(1,6) show ?thesis
    by (auto simp: conn_send_def send_result_def message_accessors Let_def)
next
  case False
  have "fill_groupNames (MAX_GROUP_NAME api) dbg 0 (mgroups m) = Inr (map c_str (mgroups m))"
    using assms(5) message_wf_less [OF assms(3,2)] by (intro fill_groupNames_ok) simp_all
  also have "map c_str (mgroups m) = mgroups m"
    using assms(6) by (intro map_c_str_nul_free) blast
  finally show ?thesis using False assms(1,4)
    by (auto simp: conn_send_def send_result_def message_accessors Let_def)
qed

theorem send_delivers_or_throws_witness:
  "\<exists>r w'. conn_send sample_api True \<lparr>mtype = OTHER, mqos = FIFO, mdata = ''abc'', mgroups = [''a'', ''b'']\<rparr>
      ((conn_new False 0 ''h'' 1)\<lparr>connected := True\<rparr>, []) = (r, ((conn_new False 0 ''h'' 1)\<lparr>connected := True\<rparr>, w')) \<and>
     (r = Inr () \<and> sent w' = [([''a'', ''b''], 0x44, ''abc'')]
      \<or> (\<exists>text. r = Inl (CommException text)) \<and> sent w' = [])"
  using send_delivers_or_throws
    [of "(conn_new False 0 ''h'' 1)\<lparr>connected := True\<rparr>" sample_api
      "\<lparr>mtype = OTHER, mqos = FIFO, mdata = ''abc'', mgroups = [''a'', ''b'']\<rparr>" True "[]"]
  by (simp add: sample_api_def message_wf_def SPREAD_MAX_GROUPS_def nul_free_def)

text \<open>\<open>groupNames\<close> has 100 rows and \<open>send\<close> does not check the number of groups: a message with more than
  100 (valid) groups is written behind the array, in debug and release builds alike.\<close>

lemma send_overflows_group_array:
  assumes "connected c" and "0 < MAX_GROUP_NAME api" and "message_wf (MAX_GROUP_NAME api) m"
    and "SPREAD_MAX_GROUPS < length (mgroups m)"
  shows "conn_send api dbg m (c, w) = (Inl UndefinedBehaviour, (c, w))"
proof -
  have "fill_groupNames (MAX_GROUP_NAME api) dbg 0 (mgroups m) = Inl UndefinedBehaviour"
    using assms(4) message_wf_less [OF assms(3,2)] by (intro fill_groupNames_overflow) simp_all
  moreover have "length (mgroups m) \<noteq> 1" and "mgroups m \<noteq> []"
    using assms(4) by (auto simp: SPREAD_MAX_GROUPS_def)
  ultimately show ?thesis using assms(1) by (simp add: conn_send_def message_accessors Let_def)
qed

text \<open>\<open>receive\<close> is interrupted exactly by a regular message for the connection's own private
  group alone; the message object is then untouched.\<close>

lemma receive_interrupted_iff:
  "conn_receive api dbg m (c, w) = (Inl ThreadInterrupted, s) \<longleftrightarrow>
     (\<exists>rc. connected c \<and> rc = SP_receive api w (mailbox c) \<and> 0 \<le> rc_ret rc
        \<and> Is_regular_mess api (rc_service rc) \<and> rc_numGroups rc = 1
        \<and> c_str (rc_groups rc 0) = privateGroup c
        \<and> s = (m, c, SpReceive (mailbox c) rc # w))"
proof -
  have no: "receive_groups maxg k i rows m' \<noteq> (Inl ThreadInterrupted, m'')" for maxg k i rows m' m''
  proof (induction k arbitrary: i m')
    case 0
    then show ?case by simp
  next
    case (Suc k)
    show ?case using Suc.IH
      by (auto simp: addGroup_def)
  qed
  show ?thesis
    using no by (auto simp: conn_receive_def Let_def not_less split: prod.splits)
qed

text \<open>A regular message within the limits of the library fills the message object: type
  \<open>REGULAR\<close>, the first \<open>ret\<close> bytes of the buffer, and the received groups, which are added to
  those the object already had (the caller has to pass a fresh one).\<close>

lemma receive_regular:
  assumes "connected c" and "rc = SP_receive api w (mailbox c)" and "0 \<le> rc_ret rc"
    and "Is_regular_mess api (rc_service rc)" and "nat (rc_numGroups rc) \<le> SPREAD_MAX_GROUPS"
    and "\<forall>i < nat (rc_numGroups rc). length (c_str (rc_groups rc i)) \<le> MAX_GROUP_NAME api - 1"
    and "\<not> (rc_numGroups rc = 1 \<and> c_str (rc_groups rc 0) = privateGroup c)"
  shows "\<exists>m'. conn_receive api dbg m (c, w) = (Inr (), (m', c, SpReceive (mailbox c) rc # w))
     \<and> mtype m' = REGULAR \<and> mqos m' = mqos m \<and> mdata m' = take (nat (rc_ret rc)) (rc_buf rc)
     \<and> set (mgroups m') = set (mgroups m) \<union> (\<lambda>i. c_str (rc_groups rc i)) ` {..<nat (rc_numGroups rc)}"
proof -
  let ?m = "setData (take (nat (rc_ret rc)) (rc_buf rc)) (setType REGULAR m)"
  let ?gs = "map (\<lambda>i. c_str (rc_groups rc i)) [0..<nat (rc_numGroups rc)]"
  have eq: "receive_groups (MAX_GROUP_NAME api) (nat (rc_numGroups rc)) 0 (rc_groups rc) ?m
      = addGroups (MAX_GROUP_NAME api) ?gs ?m"
    using receive_groups_ok [of 0] assms(5) by simp
  have "\<exists>m'. addGroups (MAX_GROUP_NAME api) ?gs ?m = (Inr (), m')
      \<and> set (mgroups m') = set (mgroups ?m) \<union> set ?gs
      \<and> mtype m' = mtype ?m \<and> mqos m' = mqos ?m \<and> mdata m' = mdata ?m"
    using assms(6) by (intro addGroups_ok) auto
  then obtain m' where m': "addGroups (MAX_GROUP_NAME api) ?gs ?m = (Inr (), m')"
    and sets: "set (mgroups m') = set (mgroups ?m) \<union> set ?gs"
    and rest: "mtype m' = mtype ?m" "mqos m' = mqos ?m" "mdata m' = mdata ?m" by blast
  have "conn_receive api dbg m (c, w) = (Inr (), (m', c, SpReceive (mailbox c) rc # w))"
    using assms(1,3,4,7) eq m' by (auto simp: conn_receive_def Let_def assms(2) [symmetric])
  with sets rest show ?thesis
    by (auto simp: message_accessors lessThan_atLeast0)
qed

theorem receive_regular_witness:
  "\<exists>m'. conn_receive sample_api True message_new ((conn_new False 0 ''h'' 1)\<lparr>connected := True\<rparr>, [])
      = (Inr (), (m', (conn_new False 0 ''h'' 1)\<lparr>connected := True\<rparr>, [SpReceive 0 sample_message]))
     \<and> mtype m' = REGULAR \<and> mqos m' = UNRELIABLE \<and> mdata m' = ''abc'' \<and> set (mgroups m') = {''g''}"
proof -
  have h: "SP_receive sample_api [] 0 = sample_message" by (simp add: sample_api_def)
  have u: "{..<Suc 0} = {0}" by auto
  have "\<exists>m'. conn_receive sample_api True message_new ((conn_new False 0 ''h'' 1)\<lparr>connected := True\<rparr>, [])
      = (Inr (), (m', (conn_new False 0 ''h'' 1)\<lparr>connected := True\<rparr>,
          [SpReceive (mailbox ((conn_new False 0 ''h'' 1)\<lparr>connected := True\<rparr>)) sample_message]))
     \<and> mtype m' = REGULAR \<and> mqos m' = mqos message_new
     \<and> mdata m' = take (nat (rc_ret sample_message)) (rc_buf sample_message)
     \<and> set (mgroups m') = set (mgroups message_new)
        \<union> (\<lambda>i. c_str (rc_groups sample_message i)) ` {..<nat (rc_numGroups sample_message)}"
    by (rule receive_regular)
      (auto simp: sample_api_def sample_message_def conn_new_def SPREAD_MAX_GROUPS_def c_str_def)
  then show ?thesis
    by (simp add: sample_message_def message_new_def conn_new_def c_str_def u)
qed

end
