(* ===== verification/MembershipManager.thy ===== *)
theory MembershipManager
  imports SpreadConnection
begin

text \<open>
  \<open>MembershipManager\<close> (\<open>MembershipManager.h\<close>, \<open>MembershipManager.cpp\<close>): reference counts for
  group memberships. The connection is the pair of its operations \<open>cjoin\<close> and \<open>cleave\<close> and its
  state, so that the manager can be run on any connection (the tests ask for a mock); the contract
  is the locale \<open>group_provider\<close>. The counts are \<open>unsigned int\<close>, that is 32 bit words.
\<close>

section \<open>The code\<close>

type_synonym group_map = "(string \<times> 32 word) list"

definition mm_new :: group_map where
  "mm_new = []"

definition mm_join ::
  "(string \<Rightarrow> 'c \<Rightarrow> (unit, 'c) outcome) \<Rightarrow> string \<Rightarrow> group_map \<times> 'c \<Rightarrow>
     (unit, group_map \<times> 'c) outcome" where
  "mm_join cjoin g s = (case s of (groups, c) \<Rightarrow>
     (case map_of groups g of
        None \<Rightarrow>
          (case cjoin g c of
             (Inl e, c') \<Rightarrow> (Inl e, (groups, c'))
           | (Inr _, c') \<Rightarrow> (Inr (), (AList.update g 1 groups, c')))
      | Some n \<Rightarrow> (Inr (), (AList.update g (n + 1) groups, c))))"

definition mm_leave ::
  "bool \<Rightarrow> (string \<Rightarrow> 'c \<Rightarrow> (unit, 'c) outcome) \<Rightarrow> string \<Rightarrow> group_map \<times> 'c \<Rightarrow>
     (unit, group_map \<times> 'c) outcome" where
  "mm_leave dbg cleave g s = (case s of (groups, c) \<Rightarrow>
     (case map_of groups g of
        None \<Rightarrow> (Inl (if dbg then AssertionFailure else UndefinedBehaviour), (groups, c))
      | Some n \<Rightarrow>
          (if n - 1 = 0 then
             (case cleave g c of (r, c') \<Rightarrow> (r, (AList.delete g groups, c')))
           else (Inr (), (AList.update g (n - 1) groups, c)))))"

section \<open>The abstract manager: a multiset of group names\<close>

definition mm_abs :: "group_map \<Rightarrow> string multiset" where
  "mm_abs groups = (\<Sum>p\<leftarrow>groups. replicate_mset (unat (snd p)) (fst p))"

definition mm_inv :: "group_map \<Rightarrow> bool" where
  "mm_inv groups \<longleftrightarrow> distinct_keys groups \<and> (\<forall>p \<in> set groups. snd p \<noteq> 0)"

text \<open>A reference count is at most \<open>UINT_MAX\<close>.\<close>

definition max_refs :: nat where
  "max_refs = 2 ^ 32 - 1"

lemma mm_abs_simps [simp]:
  "mm_abs [] = {#}"
  "mm_abs ((g, n) # groups) = replicate_mset (unat n) g + mm_abs groups"
  by (simp_all add: mm_abs_def)

lemma count_mm_abs_notin: "g \<notin> fst ` set groups \<Longrightarrow> count (mm_abs groups) g = 0"
  by (induction groups) auto

lemma count_mm_abs:
  "distinct_keys groups \<Longrightarrow>
     count (mm_abs groups) g = (case map_of groups g of None \<Rightarrow> 0 | Some n \<Rightarrow> unat n)"
proof (induction groups)
  case Nil
  then show ?case by simp
next
  case (Cons p groups)
  then show ?case by (cases p) (auto simp: count_mm_abs_notin)
qed

lemma mm_inv_map_of: "mm_inv groups \<Longrightarrow> map_of groups g = Some n \<Longrightarrow> n \<noteq> 0"
  by (auto simp: mm_inv_def dest!: map_of_SomeD)

lemma mm_inv_iff: "mm_inv groups \<longleftrightarrow> distinct_keys groups \<and> (\<forall>g. map_of groups g \<noteq> Some 0)"
  by (fastforce simp: mm_inv_def map_of_eq_Some_iff)

lemma mm_inv_new [simp]: "mm_inv []"
  by (simp add: mm_inv_def)

lemma mm_inv_update: "mm_inv groups \<Longrightarrow> n \<noteq> 0 \<Longrightarrow> mm_inv (AList.update g n groups)"
  by (auto simp: mm_inv_iff distinct_update sm.find_assign)

lemma mm_inv_delete: "mm_inv groups \<Longrightarrow> mm_inv (AList.delete g groups)"
  by (auto simp: mm_inv_iff distinct_delete sm.find_erase)

lemma mem_mm_abs:
  assumes "mm_inv groups"
  shows "g \<in># mm_abs groups \<longleftrightarrow> map_of groups g \<noteq> None"
proof -
  have "g \<in># mm_abs groups \<longleftrightarrow> count (mm_abs groups) g \<noteq> 0"
    by (simp add: not_in_iff)
  also have "\<dots> \<longleftrightarrow> map_of groups g \<noteq> None"
    using assms mm_inv_map_of [OF assms]
    by (auto simp: count_mm_abs mm_inv_def unat_gt_0 split: option.splits)
  finally show ?thesis .
qed

lemma unat_inc: "unat (n :: 32 word) < max_refs \<Longrightarrow> unat (n + 1) = Suc (unat n)"
  by (simp add: max_refs_def unat_word_ariths)

lemma unat_dec: "n \<noteq> 0 \<Longrightarrow> unat (n - 1 :: 32 word) = unat n - 1"
  by (rule unat_minus_one)

lemma mm_abs_update_inc:
  assumes "mm_inv groups" and "count (mm_abs groups) g < max_refs"
  shows "mm_abs (AList.update g (case map_of groups g of None \<Rightarrow> 1 | Some n \<Rightarrow> n + 1) groups)
    = add_mset g (mm_abs groups)"
proof (rule multiset_eqI)
  fix h
  have d: "distinct_keys groups" using assms(1) by (simp add: mm_inv_def)
  then show "count (mm_abs (AList.update g
        (case map_of groups g of None \<Rightarrow> 1 | Some n \<Rightarrow> n + 1) groups)) h
      = count (add_mset g (mm_abs groups)) h"
    using assms(2)
    by (auto simp: count_mm_abs distinct_update sm.find_assign unat_inc split: option.splits)
qed

lemma mm_abs_update_dec:
  assumes "mm_inv groups" and "map_of groups g = Some n"
  shows "mm_abs (AList.update g (n - 1) groups) = mm_abs groups - {#g#}"
proof (rule multiset_eqI)
  fix h
  have d: "distinct_keys groups" using assms(1) by (simp add: mm_inv_def)
  then show "count (mm_abs (AList.update g (n - 1) groups)) h = count (mm_abs groups - {#g#}) h"
    using assms mm_inv_map_of [OF assms]
    by (auto simp: count_mm_abs distinct_update sm.find_assign unat_dec split: option.splits)
qed

lemma mm_abs_delete:
  assumes "mm_inv groups" and "map_of groups g = Some n" and "n - 1 = 0"
  shows "mm_abs (AList.delete g groups) = mm_abs groups - {#g#}"
proof (rule multiset_eqI)
  fix h
  have d: "distinct_keys groups" using assms(1) by (simp add: mm_inv_def)
  moreover have "n = 1" using assms(3) by simp
  ultimately show "count (mm_abs (AList.delete g groups)) h = count (mm_abs groups - {#g#}) h"
    using assms(2)
    by (auto simp: count_mm_abs distinct_delete sm.find_erase split: option.splits)
qed

section \<open>Each operation implements the multiset\<close>

lemma mm_join_cases:
  assumes "mm_join cjoin g (groups, c) = (r, (groups', c'))"
  obtains (fresh) "map_of groups g = None" "cjoin g c = (r, c')" "r = Inr ()"
      "groups' = AList.update g 1 groups"
    | (failed) e where "map_of groups g = None" "cjoin g c = (Inl e, c')" "r = Inl e"
      "groups' = groups"
    | (known) n where "map_of groups g = Some n" "r = Inr ()" "c' = c"
      "groups' = AList.update g (n + 1) groups"
  using assms by (auto simp: mm_join_def split: option.splits prod.splits sum.splits)

lemma mm_leave_cases:
  assumes "mm_leave dbg cleave g (groups, c) = (r, (groups', c'))"
  obtains (unknown) "map_of groups g = None" "groups' = groups" "c' = c"
      "r = Inl (if dbg then AssertionFailure else UndefinedBehaviour)"
    | (last) n where "map_of groups g = Some n" "n - 1 = 0" "cleave g c = (r, c')"
      "groups' = AList.delete g groups"
    | (more) n where "map_of groups g = Some n" "n - 1 \<noteq> 0" "r = Inr ()" "c' = c"
      "groups' = AList.update g (n - 1) groups"
  using assms by (auto simp: mm_leave_def split: option.splits prod.splits if_splits)

lemma mm_join_abs:
  assumes "mm_join cjoin g (groups, c) = (r, (groups', c'))" and "mm_inv groups"
    and "count (mm_abs groups) g < max_refs"
  shows "mm_inv groups'"
    and "mm_abs groups' = (case r of Inl _ \<Rightarrow> mm_abs groups | Inr _ \<Rightarrow> add_mset g (mm_abs groups))"
proof -
  have "mm_inv groups' \<and>
    mm_abs groups' = (case r of Inl _ \<Rightarrow> mm_abs groups | Inr _ \<Rightarrow> add_mset g (mm_abs groups))"
    using assms(1)
  proof (cases rule: mm_join_cases)
    case fresh
    then show ?thesis using mm_abs_update_inc [OF assms(2,3)] assms(2)
      by (simp add: mm_inv_update)
  next
    case failed
    then show ?thesis using assms(2) by simp
  next
    case (known n)
    then have "unat n < max_refs"
      using assms(2,3) by (simp add: count_mm_abs mm_inv_def)
    then have "n + 1 \<noteq> 0" by (metis Suc_neq_Zero unat_0 unat_inc)
    with known show ?thesis using mm_abs_update_inc [OF assms(2,3)] assms(2)
      by (simp add: mm_inv_update)
  qed
  then show "mm_inv groups'"
    and "mm_abs groups' = (case r of Inl _ \<Rightarrow> mm_abs groups | Inr _ \<Rightarrow> add_mset g (mm_abs groups))"
    by simp_all
qed

lemma mm_leave_abs:
  assumes "mm_leave dbg cleave g (groups, c) = (r, (groups', c'))" and "mm_inv groups"
  shows "mm_inv groups'" and "mm_abs groups' = mm_abs groups - {#g#}"
proof -
  have "mm_inv groups' \<and> mm_abs groups' = mm_abs groups - {#g#}"
    using assms(1)
  proof (cases rule: mm_leave_cases)
    case unknown
    then show ?thesis using assms(2) mem_mm_abs [OF assms(2)] by (simp add: diff_single_trivial)
  next
    case (last n)
    then show ?thesis using assms(2) by (simp add: mm_inv_delete mm_abs_delete)
  next
    case (more n)
    then show ?thesis using assms(2) by (simp add: mm_inv_update mm_abs_update_dec)
  qed
  then show "mm_inv groups'" and "mm_abs groups' = mm_abs groups - {#g#}"
    by simp_all
qed

section \<open>Runs of operations\<close>

datatype mm_op = MJoin string | MLeave string

fun op_group :: "mm_op \<Rightarrow> string" where
  "op_group (MJoin g) = g"
| "op_group (MLeave g) = g"

fun mm_step ::
  "bool \<Rightarrow> (string \<Rightarrow> 'c \<Rightarrow> (unit, 'c) outcome) \<Rightarrow> (string \<Rightarrow> 'c \<Rightarrow> (unit, 'c) outcome) \<Rightarrow> mm_op \<Rightarrow>
     group_map \<times> 'c \<Rightarrow> (unit, group_map \<times> 'c) outcome" where
  "mm_step dbg cjoin cleave (MJoin g) s = mm_join cjoin g s"
| "mm_step dbg cjoin cleave (MLeave g) s = mm_leave dbg cleave g s"

text \<open>The results of all operations, in order, and the last state; exceptions are caught.\<close>

fun mm_run ::
  "bool \<Rightarrow> (string \<Rightarrow> 'c \<Rightarrow> (unit, 'c) outcome) \<Rightarrow> (string \<Rightarrow> 'c \<Rightarrow> (unit, 'c) outcome) \<Rightarrow>
     mm_op list \<Rightarrow> group_map \<times> 'c \<Rightarrow> (exn + unit) list \<times> (group_map \<times> 'c)" where
  "mm_run dbg cjoin cleave [] s = ([], s)"
| "mm_run dbg cjoin cleave (op # ops) s =
     (case mm_step dbg cjoin cleave op s of (r, s1) \<Rightarrow>
        (case mm_run dbg cjoin cleave ops s1 of (rs, s2) \<Rightarrow> (r # rs, s2)))"

fun spec_step :: "mm_op \<Rightarrow> string multiset \<Rightarrow> string multiset" where
  "spec_step (MJoin g) M = add_mset g M"
| "spec_step (MLeave g) M = M - {#g#}"

fun spec_run :: "mm_op list \<Rightarrow> string multiset \<Rightarrow> string multiset" where
  "spec_run [] M = M"
| "spec_run (op # ops) M = spec_run ops (spec_step op M)"

lemma count_le_size: "count M x \<le> size M"
  by (metis count_le_replicate_mset_subset_eq size_mset_mono size_replicate_mset order_refl)

lemma mm_step_abs:
  assumes "mm_step dbg cjoin cleave op (groups, c) = (r, (groups', c'))" and "mm_inv groups"
    and "size (mm_abs groups) < max_refs"
  shows "mm_inv groups'" and "size (mm_abs groups') \<le> Suc (size (mm_abs groups))"
    and "r = Inr () \<Longrightarrow> mm_abs groups' = spec_step op (mm_abs groups)"
proof -
  have c: "count (mm_abs groups) g < max_refs" for g
    using count_le_size [of "mm_abs groups" g] assms(3) by simp
  have "mm_inv groups' \<and> size (mm_abs groups') \<le> Suc (size (mm_abs groups))
      \<and> (r = Inr () \<longrightarrow> mm_abs groups' = spec_step op (mm_abs groups))"
  proof (cases op)
    case (MJoin g)
    with assms(1) have "mm_join cjoin g (groups, c) = (r, (groups', c'))" by simp
    from mm_join_abs [OF this assms(2) c] MJoin show ?thesis by (cases r) auto
  next
    case (MLeave g)
    with assms(1) have "mm_leave dbg cleave g (groups, c) = (r, (groups', c'))" by simp
    from mm_leave_abs [OF this assms(2)] MLeave show ?thesis
      by (auto simp: size_Diff1_le le_SucI)
  qed
  then show "mm_inv groups'" and "size (mm_abs groups') \<le> Suc (size (mm_abs groups))"
    and "r = Inr () \<Longrightarrow> mm_abs groups' = spec_step op (mm_abs groups)"
    by simp_all
qed

context group_provider
begin

text \<open>Every referenced group is joined, and one operation keeps that.\<close>

lemma mm_step_covers:
  assumes "mm_step dbg cjoin cleave op (groups, c) = (r, (groups', c'))" and "mm_inv groups"
    and "size (mm_abs groups) < max_refs" and "proper (op_group op)"
    and "set_mset (mm_abs groups) \<subseteq> members c"
  shows "set_mset (mm_abs groups') \<subseteq> members c'"
proof (cases op)
  case (MJoin g)
  have n: "count (mm_abs groups) g < max_refs"
    using count_le_size [of "mm_abs groups" g] assms(3) by simp
  have step: "mm_join cjoin g (groups, c) = (r, (groups', c'))" using assms(1) MJoin by simp
  have p: "proper g" using assms(4) MJoin by simp
  show ?thesis using step
  proof (cases rule: mm_join_cases)
    case fresh
    then show ?thesis using mm_join_abs [OF step assms(2) n] assms(5) join_ok [OF p] by auto
  next
    case failed
    then show ?thesis using assms(5) join_fail by auto
  next
    case (known k)
    then have "g \<in># mm_abs groups" using assms(2) by (simp add: mem_mm_abs)
    with known show ?thesis using mm_join_abs [OF step assms(2) n] assms(5) by auto
  qed
next
  case (MLeave g)
  have step: "mm_leave dbg cleave g (groups, c) = (r, (groups', c'))" using assms(1) MLeave by simp
  have p: "proper g" using assms(4) MLeave by simp
  have abs: "mm_abs groups' = mm_abs groups - {#g#}" by (rule mm_leave_abs [OF step assms(2)])
  have sub: "set_mset (mm_abs groups') \<subseteq> set_mset (mm_abs groups)"
    by (metis abs diff_subset_eq_self set_mset_mono)
  show ?thesis using step
  proof (cases rule: mm_leave_cases)
    case (last n)
    have "mm_inv groups'" by (rule mm_leave_abs [OF step assms(2)])
    then have "g \<notin># mm_abs groups'" using last by (simp add: mem_mm_abs sm.find_erase)
    moreover have "h \<in> members c'" if "h \<in># mm_abs groups'" and "h \<noteq> g" for h
      using that sub assms(5) leave_members_other [OF p last(3)] by (meson in_mono)
    ultimately show ?thesis by blast
  qed (use sub assms(5) in auto)
qed

text \<open>When nothing throws, the joined groups are exactly the referenced ones.\<close>

lemma mm_step_exact:
  assumes "mm_step dbg cjoin cleave op (groups, c) = (Inr (), (groups', c'))" and "mm_inv groups"
    and "size (mm_abs groups) < max_refs" and "proper (op_group op)"
    and "set_mset (mm_abs groups) = members c"
  shows "set_mset (mm_abs groups') = members c'"
proof (rule subset_antisym)
  show "set_mset (mm_abs groups') \<subseteq> members c'"
    using mm_step_covers [OF assms(1-4)] assms(5) by simp
next
  have abs: "mm_abs groups' = spec_step op (mm_abs groups)"
    by (rule mm_step_abs(3) [OF assms(1-3)]) simp
  show "members c' \<subseteq> set_mset (mm_abs groups')"
  proof (cases op)
    case (MJoin g)
    then have step: "mm_join cjoin g (groups, c) = (Inr (), (groups', c'))" using assms(1) by simp
    have p: "proper g" using assms(4) MJoin by simp
    from step show ?thesis
      using assms(5) abs MJoin join_members_bound [OF p]
      by (cases rule: mm_join_cases) fastforce+
  next
    case (MLeave g)
    then have step: "mm_leave dbg cleave g (groups, c) = (Inr (), (groups', c'))"
      using assms(1) by simp
    have p: "proper g" using assms(4) MLeave by simp
    from step show ?thesis
    proof (cases rule: mm_leave_cases)
      case (last n)
      have "members c' = members c - {g}" by (rule leave_ok [OF p last(3)])
      also have "\<dots> \<subseteq> set_mset (mm_abs groups - {#g#})"
      proof
        fix x
        assume "x \<in> members c - {g}"
        then have "x \<in># mm_abs groups" and "x \<noteq> g" using assms(5) by auto
        then show "x \<in># mm_abs groups - {#g#}" by (simp add: in_diff_count)
      qed
      finally show ?thesis using abs MLeave by simp
    next
      case (more n)
      have i: "mm_inv groups'" by (rule mm_step_abs(1) [OF assms(1-3)])
      have "h \<in># mm_abs groups' \<longleftrightarrow> h \<in># mm_abs groups" for h
      proof -
        have "h \<in># mm_abs groups' \<longleftrightarrow> map_of groups' h \<noteq> None" by (rule mem_mm_abs [OF i])
        also have "\<dots> \<longleftrightarrow> map_of groups h \<noteq> None" using more by (simp add: sm.find_assign)
        also have "\<dots> \<longleftrightarrow> h \<in># mm_abs groups" by (rule mem_mm_abs [OF assms(2), symmetric])
        finally show ?thesis .
      qed
      then have "set_mset (mm_abs groups') = set_mset (mm_abs groups)" by blast
      with more assms(5) show ?thesis by simp
    qed auto
  qed
qed

lemma mm_run_covers:
  assumes "mm_run dbg cjoin cleave ops (groups, c) = (rs, (groups', c'))" and "mm_inv groups"
    and "size (mm_abs groups) + length ops \<le> max_refs" and "\<forall>op \<in> set ops. proper (op_group op)"
    and "set_mset (mm_abs groups) \<subseteq> members c"
  shows "mm_inv groups' \<and> set_mset (mm_abs groups') \<subseteq> members c'"
  using assms
proof (induction ops arbitrary: groups c rs)
  case Nil
  then show ?case by simp
next
  case (Cons op ops)
  obtain r g1 c1 where step: "mm_step dbg cjoin cleave op (groups, c) = (r, (g1, c1))"
    by (metis prod.exhaust)
  obtain rs1 where run: "mm_run dbg cjoin cleave ops (g1, c1) = (rs1, (groups', c'))"
    using Cons.prems(1) step by (auto split: prod.splits)
  have b: "size (mm_abs groups) < max_refs" using Cons.prems(3) by simp
  note abs = mm_step_abs [OF step Cons.prems(2) b]
  show ?case
  proof (rule Cons.IH [OF run abs(1)])
    show "size (mm_abs g1) + length ops \<le> max_refs" using abs(2) Cons.prems(3) by simp
    show "set_mset (mm_abs g1) \<subseteq> members c1"
      by (rule mm_step_covers [OF step Cons.prems(2) b]) (use Cons.prems in simp_all)
  qed (use Cons.prems in simp)
qed

lemma mm_run_exact:
  assumes "mm_run dbg cjoin cleave ops (groups, c) = (rs, (groups', c'))" and "mm_inv groups"
    and "size (mm_abs groups) + length ops \<le> max_refs" and "\<forall>op \<in> set ops. proper (op_group op)"
    and "set_mset (mm_abs groups) = members c" and "\<forall>r \<in> set rs. r = Inr ()"
  shows "mm_abs groups' = spec_run ops (mm_abs groups) \<and> set_mset (mm_abs groups') = members c'"
  using assms
proof (induction ops arbitrary: groups c rs)
  case Nil
  then show ?case by simp
next
  case (Cons op ops)
  obtain r g1 c1 where step: "mm_step dbg cjoin cleave op (groups, c) = (r, (g1, c1))"
    by (metis prod.exhaust)
  obtain rs1 where run: "mm_run dbg cjoin cleave ops (g1, c1) = (rs1, (groups', c'))"
    and rs: "rs = r # rs1"
    using Cons.prems(1) step by (auto split: prod.splits)
  have b: "size (mm_abs groups) < max_refs" using Cons.prems(3) by simp
  have r: "r = Inr ()" using Cons.prems(6) rs by simp
  note abs = mm_step_abs [OF step Cons.prems(2) b]
  have "mm_abs groups' = spec_run ops (mm_abs g1) \<and> set_mset (mm_abs groups') = members c'"
  proof (rule Cons.IH [OF run abs(1)])
    show "size (mm_abs g1) + length ops \<le> max_refs" using abs(2) Cons.prems(3) by simp
    show "set_mset (mm_abs g1) = members c1"
      by (rule mm_step_exact [OF step [unfolded r] Cons.prems(2) b]) (use Cons.prems in simp_all)
  qed (use Cons.prems rs in simp_all)
  then show ?case unfolding spec_run.simps abs(3) [OF r, symmetric] .
qed

end

section \<open>The manager on a Spread connection\<close>

text \<open>The manager runs on the connection's \<open>join\<close> and \<open>leave\<close>.\<close>

definition spread_run ::
  "spread_api \<Rightarrow> bool \<Rightarrow> mm_op list \<Rightarrow> conn_state \<Rightarrow> (exn + unit) list \<times> (group_map \<times> conn_state)" where
  "spread_run api dbg ops c = mm_run dbg (conn_join api) (conn_leave api) ops (mm_new, c)"

definition active_conn :: spread_connection where
  "active_conn = (conn_new False 7 ''localhost'' 4803)\<lparr>connected := True\<rparr>"

lemma active_conn_simps [simp]: "connected active_conn" "mailbox active_conn = 7"
  by (simp_all add: active_conn_def conn_new_def)

text \<open>Whatever the library answers to the joins and leaves of a manager that starts empty (some
  may fail), every group with a positive reference count is a group the daemon confirmed and the
  manager has not left: events for it arrive.\<close>

lemma referenced_groups_are_joined:
  assumes "spread_run api dbg ops c = (rs, (groups, c'))" and "length ops \<le> max_refs"
    and "\<forall>op \<in> set ops. nul_free (op_group op)"
  shows "mm_inv groups \<and> set_mset (mm_abs groups) \<subseteq> conn_members c'"
  using conn.mm_run_covers [of dbg api ops "[]" c rs groups c'] assms
  by (simp add: spread_run_def mm_new_def)

lemma referenced_groups_are_joined_witness:
  "\<exists>rs groups c'. spread_run sample_api True [MJoin ''a'', MJoin ''b'', MJoin ''a'', MLeave ''b'']
       (active_conn, []) = (rs, (groups, c'))
     \<and> mm_inv groups \<and> set_mset (mm_abs groups) \<subseteq> conn_members c'"
proof -
  obtain rs groups c' where run: "spread_run sample_api True
      [MJoin ''a'', MJoin ''b'', MJoin ''a'', MLeave ''b''] (active_conn, []) = (rs, (groups, c'))"
    by (metis prod.exhaust)
  have "mm_inv groups \<and> set_mset (mm_abs groups) \<subseteq> conn_members c'"
    by (rule referenced_groups_are_joined [OF run]) (simp_all add: max_refs_def nul_free_def)
  with run show ?thesis by blast
qed

text \<open>C17 Refinement: as long as no operation throws, the manager is a multiset of group names
  (\<open>join\<close> adds one occurrence, \<open>leave\<close> removes one), and the connection is a member of exactly the
  groups that occur in it.\<close>

theorem manager_refines_multiset:
  assumes "spread_run api dbg ops (c, w) = (rs, (groups, (c', w')))" and "length ops \<le> max_refs"
    and "\<forall>op \<in> set ops. nul_free (op_group op)" and "joined (mailbox c) w = {}"
    and "\<forall>r \<in> set rs. r = Inr ()"
  shows "mm_abs groups = spec_run ops {#} \<and> conn_members (c', w') = set_mset (mm_abs groups)"
  using conn.mm_run_exact [of dbg api ops "[]" "(c, w)" rs groups "(c', w')"] assms
  by (auto simp: spread_run_def mm_new_def conn_members_def)

theorem manager_refines_multiset_witness:
  "\<exists>rs groups c' w'. spread_run sample_api True [MJoin ''a'', MJoin ''b'', MJoin ''a'', MLeave ''b'']
       (active_conn, []) = (rs, (groups, (c', w')))
     \<and> mm_abs groups = {#''a'', ''a''#} \<and> conn_members (c', w') = {''a''}"
proof -
  obtain rs groups c' w' where run: "spread_run sample_api True
      [MJoin ''a'', MJoin ''b'', MJoin ''a'', MLeave ''b''] (active_conn, [])
      = (rs, (groups, (c', w')))"
    by (metis prod.exhaust)
  moreover from run have "\<forall>r \<in> set rs. r = Inr ()"
    by (auto simp: spread_run_def mm_new_def mm_join_def mm_leave_def conn_join_def
        conn_leave_def sample_api_def Let_def)
  ultimately have "mm_abs groups
        = spec_run [MJoin ''a'', MJoin ''b'', MJoin ''a'', MLeave ''b''] {#}
      \<and> conn_members (c', w') = set_mset (mm_abs groups)"
    by (intro manager_refines_multiset [OF run]) (simp_all add: max_refs_def nul_free_def)
  with run show ?thesis by simp
qed

text \<open>The library is called only when a reference count leaves or reaches zero: joining a
  referenced group and leaving a group with more references makes no call; the first join makes one
  \<open>SP_join\<close>, the last leave one \<open>SP_leave\<close>.\<close>

lemma library_called_on_first_and_last:
  assumes "connected c" and "mm_inv groups" and "count (mm_abs groups) g < max_refs"
  shows "snd (snd (snd (mm_join (conn_join api) g (groups, (c, w))))) =
      (if g \<in># mm_abs groups then w
       else SpJoin (mailbox c) (c_str g) (SP_join api w (mailbox c) (c_str g)) # w)
    \<and> snd (snd (snd (mm_leave dbg (conn_leave api) g (groups, (c, w))))) =
      (if count (mm_abs groups) g = 1
       then SpLeave (mailbox c) (c_str g) (SP_leave api w (mailbox c) (c_str g)) # w else w)"
proof (cases "map_of groups g")
  case None
  then show ?thesis using assms mem_mm_abs [OF assms(2), of g]
    by (auto simp: mm_join_def mm_leave_def conn_join_def conn_leave_def count_mm_abs mm_inv_def
        Let_def not_in_iff split: outcome_splits)
next
  case (Some n)
  have d: "distinct_keys groups" using assms(2) by (simp add: mm_inv_def)
  have "g \<in># mm_abs groups" using Some assms(2) by (simp add: mem_mm_abs)
  moreover have "count (mm_abs groups) g = unat n" using Some d by (simp add: count_mm_abs)
  moreover have "unat n = 1 \<longleftrightarrow> n = 1" by (metis unat_1 word_unat_eq_iff)
  ultimately show ?thesis using Some assms(1)
    by (auto simp: mm_join_def mm_leave_def conn_leave_def Let_def
        split: outcome_splits)
qed

theorem library_called_on_first_and_last_witness:
  "snd (snd (snd (mm_join (conn_join sample_api) ''a'' ([(''a'', 1)], (active_conn, []))))) = []
   \<and> snd (snd (snd (mm_leave True (conn_leave sample_api) ''a'' ([(''a'', 1)], (active_conn, [])))))
      = [SpLeave 7 ''a'' 0]"
proof -
  have h: "connected active_conn" "mm_inv [(''a'', 1)]"
    "count (mm_abs [(''a'', 1)]) ''a'' < max_refs"
    by (simp_all add: mm_inv_def max_refs_def)
  show ?thesis
    using library_called_on_first_and_last [OF h, of sample_api "[]" True]
    by (simp add: c_str_def sample_api_def)
qed

end
