(* ===== verification/RsbApi.thy ===== *)
theory RsbApi
  imports Prelude
begin

text \<open>
  What the transport uses of the RSB core and of the generated protocol classes, none of which is
  in the repository.

  \<^item> The accessors of \<open>rsb::protocol::Notification\<close> and \<open>FragmentedNotification\<close> that the code
    calls, as record fields. \<open>sender_id\<close> and \<open>data\<close> are byte strings, the counters are protobuf
    \<open>uint32\<close> values, everything the transport only passes on is \<open>nt_meta\<close>.
  \<^item> \<open>scope_api\<close>: \<open>rsb::Scope\<close> (\<open>toString\<close>, \<open>superScopes(true)\<close>, the parsing constructor) and the
    hexadecimal MD5 digest, as functions.
  \<^item> \<open>codec_api\<close>: \<open>ByteSize\<close>, \<open>SerializeToString\<close> and \<open>ParseFromString\<close> of the generated class.
    \<open>ByteSize\<close> is called on a fragment of which only the notification is filled, so it is a
    function of that notification.
  \<^item> \<open>event_api\<close>: \<open>rsb::Event\<close>, the converters and the functions that copy an event into a
    notification.
\<close>

section \<open>Notifications\<close>

record event_id =
  sender_id :: string
  sequence_number :: "32 word"

record 'm notification =
  nt_event_id :: event_id
  nt_scope :: string
  nt_wire_schema :: string
  nt_data :: string
  nt_meta :: 'm

record 'm fragmented =
  fn_notification :: "'m notification"
  fn_data_part :: "32 word"
  fn_num_data_parts :: "32 word"

section \<open>Scopes and digests\<close>

record 'sc scope_api =
  scope_toString :: "'sc \<Rightarrow> string"
  superScopes :: "'sc \<Rightarrow> 'sc list"
  scope_parse :: "string \<Rightarrow> exn + 'sc"
  md5_hex :: "string \<Rightarrow> string"

text \<open>The digest is printed with hexadecimal digits, so it has no NUL.\<close>

definition digest_printable :: "'sc scope_api \<Rightarrow> bool" where
  "digest_printable sa \<longleftrightarrow> (\<forall>s. CHR 0x00 \<notin> set (md5_hex sa s))"

section \<open>The codec\<close>

record 'm codec_api =
  headerByteSize :: "'m notification \<Rightarrow> 32 word"
  serialize :: "'m fragmented \<Rightarrow> string option"
  parse :: "string \<Rightarrow> 'm fragmented option"

text \<open>What the protobuf documentation promises: parsing a serialised message gives it back.\<close>

definition codec_roundtrips :: "'m codec_api \<Rightarrow> bool" where
  "codec_roundtrips ca \<longleftrightarrow> (\<forall>f bytes. serialize ca f = Some bytes \<longrightarrow> parse ca bytes = Some f)"

section \<open>Events\<close>

text \<open>
  \<open>to_wire\<close> looks up the converter of the event's type and serialises its data: the wire schema and
  the bytes, or the exception. \<open>blank\<close> is a notification as the protocol library creates it.
\<close>

record ('e, 'sc, 'm) event_api =
  setSendTime :: "int \<Rightarrow> 'e \<Rightarrow> 'e"
  getScope :: "'e \<Rightarrow> 'sc"
  getEventId :: "'e \<Rightarrow> event_id"
  to_wire :: "'e \<Rightarrow> exn + string \<times> string"
  blank :: "'m notification"
  fillNotificationId :: "'e \<Rightarrow> 'm notification \<Rightarrow> 'm notification"
  fillNotificationHeader :: "'e \<Rightarrow> string \<Rightarrow> 'm notification \<Rightarrow> 'm notification"

text \<open>
  What \<open>fillNotificationId\<close> and \<open>fillNotificationHeader\<close> are documented to do: the first stores
  the identity of the event, the second stores its scope and wire schema and leaves the identity.
\<close>

definition fills_notifications :: "'sc scope_api \<Rightarrow> ('e, 'sc, 'm) event_api \<Rightarrow> bool" where
  "fills_notifications sa ea \<longleftrightarrow>
     (\<forall>e n schema. nt_event_id (fillNotificationId ea e n) = getEventId ea e
        \<and> nt_event_id (fillNotificationHeader ea e schema n) = nt_event_id n
        \<and> nt_scope (fillNotificationHeader ea e schema n) = scope_toString sa (getScope ea e)
        \<and> nt_wire_schema (fillNotificationHeader ea e schema n) = schema)"

end
