(* ===== verification/GroupNameCache.thy ===== *)
theory GroupNameCache
  imports RsbApi SpreadConnection
begin

text \<open>
  \<open>GroupNameCache\<close> (\<open>GroupNameCache.h\<close>, \<open>GroupNameCache.cpp\<close>): the Spread groups of a scope and
  its super-scopes, cached per scope. \<open>scopeToGroups\<close> returns the group names and the new cache.
  The lock makes each call atomic.
\<close>

section \<open>The code\<close>

type_synonym 'sc cache = "('sc \<times> string list) list"

definition scopeToGroup :: "'sc scope_api \<Rightarrow> nat \<Rightarrow> 'sc \<Rightarrow> string" where
  "scopeToGroup sa maxg scope = take (maxg - 1) (md5_hex sa (scope_toString sa scope))"

text \<open>The loop that appends the group of each super-scope to the cache item.\<close>

fun push_groups :: "'sc scope_api \<Rightarrow> nat \<Rightarrow> 'sc list \<Rightarrow> string list \<Rightarrow> string list" where
  "push_groups sa maxg [] item = item"
| "push_groups sa maxg (s # scopes) item =
     push_groups sa maxg scopes (item @ [scopeToGroup sa maxg s])"

definition scopeToGroups ::
  "'sc scope_api \<Rightarrow> nat \<Rightarrow> 'sc \<Rightarrow> 'sc cache \<Rightarrow> string list \<times> 'sc cache" where
  "scopeToGroups sa maxg scope cache =
     (case map_of cache scope of
        Some groups \<Rightarrow> (groups, cache)
      | None \<Rightarrow>
          let cache1 = (if length cache > 300 then [] else cache);
              item = push_groups sa maxg (superScopes sa scope) []
          in (item, AList.update scope item cache1))"

text \<open>A sequence of lookups on one cache.\<close>

fun cache_run ::
  "'sc scope_api \<Rightarrow> nat \<Rightarrow> 'sc list \<Rightarrow> 'sc cache \<Rightarrow> string list list \<times> 'sc cache" where
  "cache_run sa maxg [] cache = ([], cache)"
| "cache_run sa maxg (s # ss) cache =
     (case scopeToGroups sa maxg s cache of (groups, cache1) \<Rightarrow>
        (case cache_run sa maxg ss cache1 of (rest, cache2) \<Rightarrow> (groups # rest, cache2)))"

section \<open>The cache is transparent\<close>

definition groups_of :: "'sc scope_api \<Rightarrow> nat \<Rightarrow> 'sc \<Rightarrow> string list" where
  "groups_of sa maxg scope = map (scopeToGroup sa maxg) (superScopes sa scope)"

definition cache_inv :: "'sc scope_api \<Rightarrow> nat \<Rightarrow> 'sc cache \<Rightarrow> bool" where
  "cache_inv sa maxg cache \<longleftrightarrow> distinct_keys cache \<and> length cache \<le> 301
     \<and> (\<forall>s groups. map_of cache s = Some groups \<longrightarrow> groups = groups_of sa maxg s)"

lemma push_groups_eq: "push_groups sa maxg scopes item = item @ map (scopeToGroup sa maxg) scopes"
  by (induction scopes arbitrary: item) auto

lemma cache_inv_empty [simp]: "cache_inv sa maxg []"
  by (simp add: cache_inv_def)

lemma scopeToGroups_step:
  assumes "cache_inv sa maxg cache" and "scopeToGroups sa maxg s cache = (groups, cache')"
  shows "groups = groups_of sa maxg s \<and> cache_inv sa maxg cache'"
proof (cases "map_of cache s")
  case (Some g)
  with assms show ?thesis by (auto simp: scopeToGroups_def cache_inv_def)
next
  case None
  let ?c1 = "if length cache > 300 then [] else cache"
  have eqs: "groups = groups_of sa maxg s" "cache' = AList.update s (groups_of sa maxg s) ?c1"
    using None assms(2)
    by (auto simp: scopeToGroups_def push_groups_eq groups_of_def Let_def)
  have c1: "distinct_keys ?c1" "length ?c1 \<le> 300"
    "\<forall>s g. map_of ?c1 s = Some g \<longrightarrow> g = groups_of sa maxg s"
    using assms(1) by (auto simp: cache_inv_def)
  then have "cache_inv sa maxg (AList.update s (groups_of sa maxg s) ?c1)"
    by (auto simp: cache_inv_def distinct_update length_update sm.find_assign split: if_splits)
  with eqs show ?thesis by simp
qed

lemma cache_run_inv:
  assumes "cache_inv sa maxg cache" and "cache_run sa maxg ss cache = (results, cache')"
  shows "results = map (groups_of sa maxg) ss \<and> cache_inv sa maxg cache'"
  using assms
proof (induction ss arbitrary: cache results)
  case Nil
  then show ?case by simp
next
  case (Cons s ss)
  obtain g c1 where 1: "scopeToGroups sa maxg s cache = (g, c1)" by (metis prod.exhaust)
  obtain rs where 2: "cache_run sa maxg ss c1 = (rs, cache')" and 3: "results = g # rs"
    using Cons.prems(2) 1 by (auto split: prod.splits)
  show ?case
    using scopeToGroups_step [OF Cons.prems(1) 1] Cons.IH [OF _ 2] 3 by simp
qed

text \<open>The cache is transparent and bounded: any sequence of lookups on a new cache returns, for
  each scope, the group of every super-scope in the order of \<open>superScopes(true)\<close>, and the cache
  never holds more than 301 scopes.\<close>

lemma cache_transparent_and_bounded:
  "fst (cache_run sa maxg ss []) = map (groups_of sa maxg) ss
    \<and> length (snd (cache_run sa maxg ss [])) \<le> 301"
  using cache_run_inv [OF cache_inv_empty, of sa maxg ss] 
  by (cases "cache_run sa maxg ss []") (auto simp: cache_inv_def)

section \<open>Group names fit the library\<close>

lemma scopeToGroup_nul_free: "digest_printable sa \<Longrightarrow> nul_free (scopeToGroup sa maxg s)"
  by (auto simp: nul_free_def scopeToGroup_def digest_printable_def dest: in_set_takeD)

lemma scopeToGroup_length: "length (scopeToGroup sa maxg s) \<le> maxg - 1"
  by (simp add: scopeToGroup_def)

text \<open>The groups of a scope can always be added to a message: no name is too long for the
  library, \<open>addGroup\<close> does not throw, and the message holds exactly the groups of the scope and its
  super-scopes (plus what it held before).\<close>

lemma scope_groups_fit_message:
  "\<exists>m'. addGroups maxg (groups_of sa maxg scope) m = (Inr (), m')
    \<and> set (mgroups m') = set (mgroups m) \<union> scopeToGroup sa maxg ` set (superScopes sa scope)
    \<and> mdata m' = mdata m"
proof -
  have "\<exists>m'. addGroups maxg (groups_of sa maxg scope) m = (Inr (), m')
      \<and> set (mgroups m') = set (mgroups m) \<union> set (groups_of sa maxg scope)
      \<and> mtype m' = mtype m \<and> mqos m' = mqos m \<and> mdata m' = mdata m"
    by (rule addGroups_ok) (auto simp: groups_of_def scopeToGroup_def)
  then show ?thesis by (auto simp: groups_of_def)
qed

end
