(* ===== verification/Notifications.thy ===== *)
theory Notifications
  imports RsbApi SpreadMessage
begin

text \<open>
  \<open>Notifications.h\<close>: what travels between the connectors and the bus. A received notification only
  adds the owner of the pointer \<open>notification\<close>, so it has the fields of the base class; a
  notification to send adds its quality of service, its groups and its fragments.
\<close>

record ('sc, 'm) transport_notification =
  nf_scope :: "'sc"
  nf_wireSchema :: string
  nf_serializedPayload :: string
  nf_notification :: "'m notification"

record ('sc, 'm) outgoing_notification = "('sc, 'm) transport_notification" +
  on_qos :: qos
  on_groups :: "string list"
  on_fragments :: "'m fragmented list"

text \<open>The conversion of a pointer to a notification to send into one of the base class.\<close>

definition as_notification ::
  "('sc, 'm) outgoing_notification \<Rightarrow> ('sc, 'm) transport_notification" where
  "as_notification n = transport_notification.truncate n"

lemma as_notification_simps [simp]:
  "nf_scope (as_notification n) = nf_scope n"
  "nf_wireSchema (as_notification n) = nf_wireSchema n"
  "nf_serializedPayload (as_notification n) = nf_serializedPayload n"
  "nf_notification (as_notification n) = nf_notification n"
  by (simp_all add: as_notification_def transport_notification.defs)

end
