(* ===== verification/ConnectorBase.thy ===== *)
theory ConnectorBase
  imports Prelude
begin

text \<open>
  \<open>ConnectorBase\<close> (\<open>ConnectorBase.h\<close>, \<open>ConnectorBase.cpp\<close>): the flag \<open>active\<close> that both
  connectors share. The base operations check it, the derived classes set it. Every operation
  returns the flag it leaves behind.
\<close>

definition base_isActive :: "bool \<Rightarrow> bool" where
  "base_isActive active = active"

definition base_activate :: "bool \<Rightarrow> (unit, bool) outcome" where
  "base_activate active =
     (if active then (Inl (IllegalStateException ''Connector is already active''), active)
      else (Inr (), active))"

definition base_deactivate :: "bool \<Rightarrow> (unit, bool) outcome" where
  "base_deactivate active =
     (if \<not> active then (Inl (IllegalStateException ''Connector is not active''), active)
      else (Inr (), active))"

text \<open>
  Both print functions ask the bus: \<open>address\<close> is how its pointer is printed, \<open>url\<close> what its
  \<open>getTransportURL\<close> returns.
\<close>

definition base_printContents :: "string \<Rightarrow> bool \<Rightarrow> string" where
  "base_printContents address active =
     ''active = '' @ (if active then ''1'' else ''0'') @ '', bus = '' @ address"

definition base_getTransportURL :: "string \<Rightarrow> string" where
  "base_getTransportURL url = url"

definition base_new :: bool where
  "base_new = False"

end
