(* ===== verification/OutConnector.thy ===== *)
theory OutConnector
  imports GroupNameCache Notifications ConnectorBase
begin

text \<open>
  \<open>OutConnector\<close> (\<open>OutConnector.h\<close>, \<open>OutConnector.cpp\<close>): turns an event into the fragments that
  carry it. The bus is reached through an interface, so \<open>oc_handle\<close> takes the bus operation as an
  argument. The converters and the event are parameters (\<open>event_api\<close>).
\<close>

section \<open>State\<close>

datatype ordering_spec = UNORDERED | ORDERED

datatype reliability_spec = UNRELIABLE_SPEC | RELIABLE_SPEC

record 'sc out_connector =
  oc_active :: bool
  oc_cache :: "'sc cache"
  qosSpecs :: "ordering_spec \<times> reliability_spec"
  messageQOS :: qos
  maxFragmentSize :: "32 word"
  minDataSpace :: "32 word"

definition oc_new :: "32 word \<Rightarrow> 'sc out_connector" where
  "oc_new maxSize = \<lparr>oc_active = False, oc_cache = [], qosSpecs = (ORDERED, RELIABLE_SPEC),
     messageQOS = FIFO, maxFragmentSize = maxSize, minDataSpace = 5\<rparr>"

definition oc_default :: "'sc out_connector" where
  "oc_default = oc_new 100000"

definition oc_setScope :: "'sc \<Rightarrow> 'sc out_connector \<Rightarrow> 'sc out_connector" where
  "oc_setScope scope oc = oc"

definition oc_activate :: "'sc out_connector \<Rightarrow> (unit, 'sc out_connector) outcome" where
  "oc_activate oc =
     (case base_activate (oc_active oc) of
        (Inl e, a) \<Rightarrow> (Inl e, oc\<lparr>oc_active := a\<rparr>)
      | (Inr _, a) \<Rightarrow> (Inr (), oc\<lparr>oc_active := True\<rparr>))"

definition oc_deactivate :: "'sc out_connector \<Rightarrow> (unit, 'sc out_connector) outcome" where
  "oc_deactivate oc =
     (case base_deactivate (oc_active oc) of
        (Inl e, a) \<Rightarrow> (Inl e, oc\<lparr>oc_active := a\<rparr>)
      | (Inr _, a) \<Rightarrow> (Inr (), oc\<lparr>oc_active := False\<rparr>))"

definition oc_destroy :: "'sc out_connector \<Rightarrow> (unit, 'sc out_connector) outcome" where
  "oc_destroy oc = (if oc_active oc then oc_deactivate oc else (Inr (), oc))"

definition oc_setQualityOfServiceSpecs ::
  "ordering_spec \<times> reliability_spec \<Rightarrow> 'sc out_connector \<Rightarrow> 'sc out_connector" where
  "oc_setQualityOfServiceSpecs specs oc =
     oc\<lparr>qosSpecs := specs,
        messageQOS := (case specs of
            (UNORDERED, UNRELIABLE_SPEC) \<Rightarrow> UNRELIABLE
          | (UNORDERED, RELIABLE_SPEC) \<Rightarrow> RELIABLE
          | (ORDERED, UNRELIABLE_SPEC) \<Rightarrow> FIFO
          | (ORDERED, RELIABLE_SPEC) \<Rightarrow> FIFO)\<rparr>"

section \<open>Fragments\<close>

text \<open>\<open>std::string::substr\<close>.\<close>

definition substr :: "string \<Rightarrow> nat \<Rightarrow> nat \<Rightarrow> exn + string" where
  "substr s pos n = (if pos > length s then Inl OutOfRange else Inr (take n (drop pos s)))"

definition too_big_text :: string where
  "too_big_text = ''The meta data of this event are too big for Spread!''"

text \<open>The notification of a fragment before its data is set.\<close>

definition fragment_header ::
  "('e, 'sc, 'm) event_api \<Rightarrow> 'e \<Rightarrow> string \<Rightarrow> bool \<Rightarrow> 'm notification" where
  "fragment_header ea e schema first =
     (let n = fillNotificationId ea e (blank ea)
      in if first then fillNotificationHeader ea e schema n else n)"

text \<open>
  The loop of \<open>handle\<close>. \<open>fragment\<close> and \<open>offset\<close> are \<open>unsigned int\<close>; \<open>frags\<close> is the vector that
  \<open>resize(fragment + 1)\<close> extends by one element, unless \<open>fragment + 1\<close> wraps to 0: then \<open>back()\<close> is
  called on an empty vector. Up to that point \<open>fragment\<close> grows, so the loop ends.
\<close>

function make_fragments ::
  "'m codec_api \<Rightarrow> ('e, 'sc, 'm) event_api \<Rightarrow> bool \<Rightarrow> 32 word \<Rightarrow> 32 word \<Rightarrow> 'e \<Rightarrow> string \<Rightarrow> string
     \<Rightarrow> 32 word \<Rightarrow> 32 word \<Rightarrow> 'm fragmented list \<Rightarrow> exn + 'm fragmented list" where
  "make_fragments ca ea dbg maxSize minSpace e schema wire fragment offset frags =
     (if fragment = 0 \<or> unat offset < length wire then
        if fragment + 1 = 0 then Inl UndefinedBehaviour
        else
          let n = fragment_header ea e schema (fragment = 0);
              headerSize = headerByteSize ca n
          in if dbg \<and> \<not> headerSize \<le> maxSize - minSpace then Inl AssertionFailure
             else if headerSize \<ge> maxSize - minSpace then Inl (ProtocolException too_big_text)
             else
               let maxDataPartSize = maxSize - headerSize
               in case substr wire (unat offset) (unat maxDataPartSize) of
                    Inl ex \<Rightarrow> Inl ex
                  | Inr dataPart \<Rightarrow>
                      make_fragments ca ea dbg maxSize minSpace e schema wire (fragment + 1)
                        (offset + maxDataPartSize)
                        (frags @ [\<lparr>fn_notification = n\<lparr>nt_data := dataPart\<rparr>,
                                   fn_data_part = fragment, fn_num_data_parts = 1\<rparr>])
      else Inr frags)"
  by pat_completeness auto
termination
proof (relation "measure (\<lambda>(ca, ea, dbg, maxSize, minSpace, e, schema, wire, fragment, offset, frags).
    2 ^ 32 - unat fragment)", goal_cases)
  case (2 ca ea dbg maxSize minSpace e schema wire fragment offset frags)
  have "unat (fragment + 1) = Suc (unat fragment)"
    using 2(2) by (simp add: unatSuc add.commute)
  moreover have "unat fragment < 2 ^ 32" by (rule unat_less_2_32)
  ultimately show ?case by simp
qed simp

declare make_fragments.simps [simp del]

section \<open>Handling an event\<close>

definition oc_handle ::
  "'sc scope_api \<Rightarrow> nat \<Rightarrow> 'm codec_api \<Rightarrow> ('e, 'sc, 'm) event_api \<Rightarrow> bool
     \<Rightarrow> (('sc, 'm) outgoing_notification \<Rightarrow> 'b \<Rightarrow> (unit, 'b) outcome)
     \<Rightarrow> int \<Rightarrow> 'e \<Rightarrow> 'sc out_connector \<times> 'b \<Rightarrow> (unit, 'e \<times> 'sc out_connector \<times> 'b) outcome" where
  "oc_handle sa maxg ca ea dbg bus_handle now event s = (case s of (oc, b) \<Rightarrow>
     let e = setSendTime ea now event;
         scope = getScope ea e
     in case scopeToGroups sa maxg scope (oc_cache oc) of (groups, cache') \<Rightarrow>
       let oc' = oc\<lparr>oc_cache := cache'\<rparr>
       in case to_wire ea e of
            Inl ex \<Rightarrow> (Inl ex, (e, oc', b))
          | Inr (wireSchema, wire) \<Rightarrow>
              (case make_fragments ca ea dbg (maxFragmentSize oc) (minDataSpace oc) e wireSchema
                      wire 0 0 [] of
                 Inl ex \<Rightarrow> (Inl ex, (e, oc', b))
               | Inr fragments \<Rightarrow>
                   (case bus_handle
                      \<lparr>nf_scope = scope, nf_wireSchema = wireSchema, nf_serializedPayload = wire,
                       nf_notification = fn_notification (fragments ! 0), on_qos = messageQOS oc,
                       on_groups = groups, on_fragments = fragments\<rparr> b of
                      (r, b') \<Rightarrow> (r, (e, oc', b')))))"

section \<open>Sending notifications\<close>

text \<open>
  What \<open>OutConnector\<close> needs of a bus: a notification that is handled without an exception has been
  posted. \<open>traffic\<close> is what has left the process, latest first; \<open>posts n ps\<close> says that the packets
  \<open>ps\<close> carry the notification \<open>n\<close>.
\<close>

locale message_bus =
  fixes handle_outgoing :: "('sc, 'm) outgoing_notification \<Rightarrow> 'b \<Rightarrow> (unit, 'b) outcome"
    and traffic :: "'b \<Rightarrow> 'p list"
    and posts :: "('sc, 'm) outgoing_notification \<Rightarrow> 'p list \<Rightarrow> bool"
  assumes handle_posts:
    "handle_outgoing n b = (Inr x, b') \<Longrightarrow> \<exists>ps. posts n ps \<and> traffic b' = rev ps @ traffic b"
begin

lemma oc_handle_posts:
  assumes "oc_handle sa maxg ca ea dbg handle_outgoing now event (oc, b) = (Inr x, (e, oc', b'))"
  obtains schema wire fragments ps where
    "e = setSendTime ea now event" and "to_wire ea e = Inr (schema, wire)"
    and "make_fragments ca ea dbg (maxFragmentSize oc) (minDataSpace oc) e schema wire 0 0 []
      = Inr fragments"
    and "posts \<lparr>nf_scope = getScope ea e, nf_wireSchema = schema, nf_serializedPayload = wire,
        nf_notification = fn_notification (fragments ! 0), on_qos = messageQOS oc,
        on_groups = fst (scopeToGroups sa maxg (getScope ea e) (oc_cache oc)),
        on_fragments = fragments\<rparr> ps"
    and "traffic b' = rev ps @ traffic b"
proof -
  have e: "e = setSendTime ea now event" using assms
    by (auto simp: oc_handle_def Let_def split: prod.splits sum.splits)
  obtain groups cache' where groups:
    "scopeToGroups sa maxg (getScope ea e) (oc_cache oc) = (groups, cache')"
    by (metis surj_pair)
  obtain schema wire where wire: "to_wire ea e = Inr (schema, wire)"
    using assms groups e by (auto simp: oc_handle_def Let_def split: sum.splits)
  obtain fragments where fragments:
    "make_fragments ca ea dbg (maxFragmentSize oc) (minDataSpace oc) e schema wire 0 0 []
      = Inr fragments"
    using assms groups e wire by (auto simp: oc_handle_def Let_def split: sum.splits)
  let ?n = "\<lparr>nf_scope = getScope ea e, nf_wireSchema = schema, nf_serializedPayload = wire,
      nf_notification = fn_notification (fragments ! 0), on_qos = messageQOS oc,
      on_groups = groups, on_fragments = fragments\<rparr>"
  have "handle_outgoing ?n b = (Inr x, b')"
    using assms groups e wire fragments by (auto simp: oc_handle_def Let_def split: prod.splits)
  from handle_posts [OF this] show thesis
    using that [OF e wire fragments] groups by auto
qed

end

end
