(* ===== verification/Assembly.thy ===== *)
theory Assembly
  imports RsbApi Interfaces
begin

text \<open>
  \<open>Assembly\<close> (\<open>Assembly.h\<close>, \<open>Assembly.cpp\<close> lines 44 to 100): the fragments of one notification
  that have arrived so far. \<open>store\<close> is the vector of fragment pointers (\<open>None\<close> is a null pointer),
  \<open>receivedParts\<close> an \<open>unsigned int\<close>, \<open>birthTime\<close> a \<open>ptime\<close> in microseconds. An index behind the
  vector is undefined behaviour. The clock is an argument.
\<close>

section \<open>The code\<close>

record 'm assembly =
  receivedParts :: "32 word"
  store :: "'m fragmented option list"
  birthTime :: int

definition isComplete :: "'m assembly \<Rightarrow> bool" where
  "isComplete a \<longleftrightarrow> unat (receivedParts a) = length (store a)"

definition twice_text :: "'m fragmented \<Rightarrow> string" where
  "twice_text f = ''Received fragment ('' @ show_nat (unat (fn_data_part f)) @ ''/''
     @ show_nat (unat (fn_num_data_parts f)) @ '') of notification for event with sender id ''
     @ sender_id (nt_event_id (fn_notification f)) @ '' and sequence number ''
     @ show_nat (unat (sequence_number (nt_event_id (fn_notification f)))) @ '' twice!.''"

definition assembly_add ::
  "bool \<Rightarrow> 'm fragmented \<Rightarrow> 'm assembly \<Rightarrow> (bool, 'm assembly) outcome" where
  "assembly_add dbg f a =
     (let i = unat (fn_data_part f) in
      if dbg \<and> unat (fn_num_data_parts f) \<noteq> length (store a) then (Inl AssertionFailure, a)
      else if i \<ge> length (store a) then (Inl UndefinedBehaviour, a)
      else if store a ! i \<noteq> None then (Inl (ProtocolException (twice_text f)), a)
      else let a' = a\<lparr>store := (store a)[i := Some f], receivedParts := receivedParts a + 1\<rparr>
           in (Inr (isComplete a'), a'))"

definition assembly_new :: "bool \<Rightarrow> int \<Rightarrow> 'm fragmented \<Rightarrow> exn + 'm assembly" where
  "assembly_new dbg now f =
     (case assembly_add dbg f
        \<lparr>receivedParts = 0, store = replicate (unat (fn_num_data_parts f)) None, birthTime = now\<rparr> of
        (Inl e, _) \<Rightarrow> Inl e
      | (Inr _, a) \<Rightarrow> Inr a)"

text \<open>
  The loop that appends the data of the parts 1, 2, ... to the data of part 0. Dereferencing a
  null pointer is undefined.
\<close>

fun append_parts :: "'m fragmented option list \<Rightarrow> string \<Rightarrow> exn + string" where
  "append_parts [] result = Inr result"
| "append_parts (None # ps) result = Inl UndefinedBehaviour"
| "append_parts (Some f # ps) result = append_parts ps (result @ nt_data (fn_notification f))"

text \<open>
  The result shares the notification of the fragment in \<open>store[0]\<close>, so the appended data is
  written there too: the operation returns the assembly it leaves behind.
\<close>

definition getCompleteNotification ::
  "bool \<Rightarrow> 'm assembly \<Rightarrow> ('m notification, 'm assembly) outcome" where
  "getCompleteNotification dbg a =
     (if dbg \<and> \<not> isComplete a then (Inl AssertionFailure, a)
      else case store a of
        [] \<Rightarrow> (Inl UndefinedBehaviour, a)
      | None # ps \<Rightarrow> (Inl UndefinedBehaviour, a)
      | Some f # ps \<Rightarrow>
          (case append_parts ps (nt_data (fn_notification f)) of
             Inl e \<Rightarrow> (Inl e, a)
           | Inr joined_data \<Rightarrow>
               let n = (fn_notification f)\<lparr>nt_data := joined_data\<rparr>
               in (Inr n, a\<lparr>store := Some (f\<lparr>fn_notification := n\<rparr>) # ps\<rparr>)))"

text \<open>
  \<open>total_seconds()\<close> truncates towards zero; the result is converted to \<open>unsigned int\<close>.
\<close>

definition age :: "int \<Rightarrow> 'm assembly \<Rightarrow> 32 word" where
  "age now a = of_int (cpp_quot (now - birthTime a) 1000000)"

section \<open>What an assembly has collected\<close>

definition frag_index :: "'m fragmented \<Rightarrow> nat" where
  "frag_index f = unat (fn_data_part f)"

definition frag_total :: "'m fragmented \<Rightarrow> nat" where
  "frag_total f = unat (fn_num_data_parts f)"

lemmas frag_defs = frag_index_def frag_total_def

definition asm_parts :: "'m assembly \<Rightarrow> nat \<Rightarrow> 'm fragmented option" where
  "asm_parts a i = (if i < length (store a) then store a ! i else None)"

text \<open>The counter counts the parts, and the vector has a 32 bit size.\<close>

definition asm_inv :: "'m assembly \<Rightarrow> bool" where
  "asm_inv a \<longleftrightarrow> length (store a) < 2 ^ 32
     \<and> unat (receivedParts a) = length (filter (\<lambda>p. p \<noteq> None) (store a))"

lemma isComplete_iff:
  assumes "asm_inv a"
  shows "isComplete a \<longleftrightarrow> dom (asm_parts a) = {..<length (store a)}"
proof -
  have "isComplete a \<longleftrightarrow> length (filter (\<lambda>p. p \<noteq> None) (store a)) = length (store a)"
    using assms by (simp add: asm_inv_def isComplete_def)
  also have "\<dots> \<longleftrightarrow> (\<forall>p \<in> set (store a). p \<noteq> None)"
    by (rule length_filter_eq)
  also have "\<dots> \<longleftrightarrow> dom (asm_parts a) = {..<length (store a)}"
    by (auto simp: asm_parts_def all_set_conv_all_nth dom_def split: if_splits)
  finally show ?thesis .
qed

lemma asm_inv_store:
  assumes "asm_inv a" and "i < length (store a)" and "store a ! i = None"
  shows "asm_inv (a\<lparr>store := (store a)[i := Some f], receivedParts := receivedParts a + 1\<rparr>)"
proof -
  let ?P = "\<lambda>p. p \<noteq> None"
  have len: "length (filter ?P ((store a)[i := Some f])) = Suc (length (filter ?P (store a)))"
    using filter_take_Suc_length [OF assms(2), of ?P "Some f"] assms(3) by simp
  moreover have "length (filter ?P ((store a)[i := Some f])) \<le> length (store a)"
    using length_filter_le [of ?P "(store a)[i := Some f]"] by simp
  ultimately have "unat (receivedParts a) + 1 < 2 ^ 32"
    using assms(1) by (simp add: asm_inv_def)
  then have "unat (receivedParts a + 1) = Suc (unat (receivedParts a))"
    by (simp add: unat_word_ariths)
  with len assms(1) show ?thesis by (simp add: asm_inv_def)
qed

lemma asm_inv_empty:
  "asm_inv \<lparr>receivedParts = 0, store = replicate (unat (n :: 32 word)) None, birthTime = now\<rparr>"
  using unat_less_2_32 [of n] by (simp add: asm_inv_def)

lemma asm_parts_store:
  "i < length (store a) \<Longrightarrow>
     asm_parts (a\<lparr>store := (store a)[i := Some f], receivedParts := c\<rparr>) = (asm_parts a)(i \<mapsto> f)"
  by (auto simp: asm_parts_def fun_eq_iff)

text \<open>The three outcomes of \<open>add\<close> for a fragment inside the vector.\<close>

lemma assembly_add_new:
  assumes "asm_inv a" and "frag_total f = length (store a)" and "frag_index f < length (store a)"
    and "asm_parts a (frag_index f) = None"
  obtains a' where "assembly_add dbg f a = (Inr (isComplete a'), a')" and "asm_inv a'"
    and "length (store a') = length (store a)" and "asm_parts a' = (asm_parts a)(frag_index f \<mapsto> f)"
    and "birthTime a' = birthTime a"
proof -
  let ?i = "frag_index f"
  let ?a = "a\<lparr>store := (store a)[?i := Some f], receivedParts := receivedParts a + 1\<rparr>"
  have none: "store a ! ?i = None" using assms(3,4) by (simp add: asm_parts_def)
  show thesis
  proof (rule that [of ?a])
    show "assembly_add dbg f a = (Inr (isComplete ?a), ?a)"
      using assms(2,3) none by (simp add: assembly_add_def frag_defs Let_def)
    show "asm_inv ?a" by (rule asm_inv_store [OF assms(1,3) none])
    show "asm_parts ?a = (asm_parts a)(?i \<mapsto> f)" by (rule asm_parts_store [OF assms(3)])
  qed simp_all
qed

lemma assembly_add_twice:
  assumes "frag_index f < length (store a)" and "asm_parts a (frag_index f) \<noteq> None"
    and "dbg \<Longrightarrow> frag_total f = length (store a)"
  shows "assembly_add dbg f a = (Inl (ProtocolException (twice_text f)), a)"
  using assms by (auto simp: assembly_add_def asm_parts_def frag_defs Let_def)

lemma assembly_new_ok:
  assumes "frag_index f < frag_total f"
  obtains a where "assembly_new dbg now f = Inr a" and "asm_inv a"
    and "length (store a) = frag_total f" and "asm_parts a = [frag_index f \<mapsto> f]"
    and "birthTime a = now"
proof -
  let ?e = "\<lparr>receivedParts = 0, store = replicate (unat (fn_num_data_parts f)) None,
      birthTime = now\<rparr> :: 'a assembly"
  have empty: "asm_parts ?e = Map.empty" by (auto simp: asm_parts_def)
  have "frag_total f = length (store ?e)" by (simp add: frag_defs)
  moreover have "frag_index f < length (store ?e)" using assms by (simp add: frag_defs)
  moreover have "asm_parts ?e (frag_index f) = None" using empty by simp
  ultimately obtain a' where "assembly_add dbg f ?e = (Inr (isComplete a'), a')" "asm_inv a'"
      "length (store a') = length (store ?e)" "asm_parts a' = (asm_parts ?e)(frag_index f \<mapsto> f)"
      "birthTime a' = birthTime ?e"
    by (rule assembly_add_new [of ?e f dbg, OF asm_inv_empty])
  with empty show thesis by (intro that [of a']) (simp_all add: assembly_new_def frag_defs)
qed

interpretation asm: part_collector
  "assembly_new dbg now" "assembly_add dbg" asm_parts "\<lambda>a. length (store a)"
  frag_index frag_total asm_inv
  for dbg now
proof unfold_locales
  show "\<exists>a. assembly_new dbg now f = Inr a \<and> asm_inv a \<and> length (store a) = frag_total f
      \<and> asm_parts a = [frag_index f \<mapsto> f]"
    if "frag_index f < frag_total f" for f :: "'a fragmented"
    using assembly_new_ok [OF that] by metis
  show "\<exists>a'. assembly_add dbg f a = (Inr (dom (asm_parts a') = {..<length (store a')}), a')
      \<and> asm_inv a' \<and> length (store a') = length (store a)
      \<and> asm_parts a' = (asm_parts a)(frag_index f \<mapsto> f)"
    if p: "asm_inv a" "frag_total f = length (store a)" "frag_index f < length (store a)"
      "asm_parts a (frag_index f) = None" for a and f :: "'a fragmented"
  proof -
    obtain a' where "assembly_add dbg f a = (Inr (isComplete a'), a')" "asm_inv a'"
      "length (store a') = length (store a)" "asm_parts a' = (asm_parts a)(frag_index f \<mapsto> f)"
      by (rule assembly_add_new [OF p, of dbg])
    then show ?thesis by (intro exI [of _ a']) (simp add: isComplete_iff)
  qed
  show "\<exists>text. assembly_add dbg f a = (Inl (ProtocolException text), a)"
    if p: "asm_inv a" "frag_total f = length (store a)" "frag_index f < length (store a)"
      "asm_parts a (frag_index f) \<noteq> None" for a and f :: "'a fragmented"
    using assembly_add_twice [OF p(3,4)] p(2) by blast
qed

end
