(* ===== verification/AssemblyPool.thy ===== *)
theory AssemblyPool
  imports Assembly
begin

text \<open>
  \<open>AssemblyPool\<close> (\<open>Assembly.h\<close>, \<open>Assembly.cpp\<close> lines 102 to 206): the assemblies of all
  notifications that are not complete yet, by sender and sequence number, and the task that prunes
  old ones. The mutexes make \<open>add\<close> and one execution of the pruning task atomic. Every reading of
  the clock is an argument.
\<close>

section \<open>The key\<close>

text \<open>
  The sender's bytes and the low four bytes of the sequence number (held in an \<open>uint64_t\<close>); each
  \<open>push_back\<close> narrows to \<open>char\<close>.
\<close>

definition pool_key :: "'m fragmented \<Rightarrow> string" where
  "pool_key f =
     (let sn = ucast (sequence_number (nt_event_id (fn_notification f))) :: 64 word
      in sender_id (nt_event_id (fn_notification f)) @
         [char_of (unat (drop_bit 0 (and sn 0x000000ff))),
          char_of (unat (drop_bit 8 (and sn 0x0000ff00))),
          char_of (unat (drop_bit 16 (and sn 0x00ff0000))),
          char_of (unat (drop_bit 24 (and sn 0xff000000)))])"

section \<open>Pruning\<close>

text \<open>
  The loop of \<open>PruningTask::execute\<close>: the age of the \<open>i\<close>-th visited assembly is taken at
  \<open>clock i\<close>; erasing an entry does not move the other ones.
\<close>

type_synonym 'm pool = "(string \<times> 'm assembly) list"

fun prune_from :: "(nat \<Rightarrow> int) \<Rightarrow> nat \<Rightarrow> 32 word \<Rightarrow> 'm pool \<Rightarrow> 'm pool" where
  "prune_from clock i maxAge [] = []"
| "prune_from clock i maxAge ((k, a) # rest) =
     (if age (clock i) a > maxAge then prune_from clock (Suc i) maxAge rest
      else (k, a) # prune_from clock (Suc i) maxAge rest)"

text \<open>The task object: a \<open>PeriodicTask\<close> that runs until it is cancelled.\<close>

record pruning_task =
  maxAge :: "32 word"
  intervalMs :: "32 word"
  cancelled :: bool

record 'm assembly_pool =
  pool :: "'m pool"
  pruningAgeS :: "32 word"
  pruningIntervalMs :: "32 word"
  pruningTask :: "pruning_task option"

definition pool_new :: "32 word \<Rightarrow> 32 word \<Rightarrow> exn + 'm assembly_pool" where
  "pool_new ageS interval =
     (if ageS = 0 then Inl (DomainError ''Age must not be 0.'')
      else if interval = 0 then Inl (DomainError ''Pruning interval must not be 0'')
      else Inr \<lparr>pool = [], pruningAgeS = ageS, pruningIntervalMs = interval, pruningTask = None\<rparr>)"

text \<open>The default arguments of the constructor.\<close>

definition default_pool :: "exn + 'm assembly_pool" where
  "default_pool = pool_new 20 4000"

definition isPruning :: "'m assembly_pool \<Rightarrow> bool" where
  "isPruning p \<longleftrightarrow> pruningTask p \<noteq> None"

definition setPruning :: "bool \<Rightarrow> 'm assembly_pool \<Rightarrow> 'm assembly_pool" where
  "setPruning prune p =
     (if \<not> isPruning p \<and> prune then
        p\<lparr>pruningTask := Some \<lparr>maxAge = pruningAgeS p, intervalMs = pruningIntervalMs p,
                               cancelled = False\<rparr>\<rparr>
      else if isPruning p \<and> \<not> prune then
        p\<lparr>pruningTask := map_option (\<lambda>t. t\<lparr>cancelled := True\<rparr>) (pruningTask p)\<rparr>
      else p)"

definition pool_destroy :: "'m assembly_pool \<Rightarrow> 'm assembly_pool" where
  "pool_destroy p = setPruning False p"

text \<open>One period of the executor: a task that is scheduled and not cancelled executes.\<close>

definition prune_tick :: "(nat \<Rightarrow> int) \<Rightarrow> 'm assembly_pool \<Rightarrow> 'm assembly_pool" where
  "prune_tick clock p =
     (case pruningTask p of
        None \<Rightarrow> p
      | Some t \<Rightarrow> if cancelled t then p else p\<lparr>pool := prune_from clock 0 (maxAge t) (pool p)\<rparr>)"

section \<open>Adding a fragment\<close>

definition finish_assembly ::
  "bool \<Rightarrow> string \<Rightarrow> 'm assembly \<Rightarrow> 'm assembly_pool \<Rightarrow>
     ('m notification option, 'm assembly_pool) outcome" where
  "finish_assembly dbg key a p =
     (if isComplete a then
        (case getCompleteNotification dbg a of
           (Inl e, a') \<Rightarrow> (Inl e, p\<lparr>pool := AList.update key a' (pool p)\<rparr>)
         | (Inr n, a') \<Rightarrow> (Inr (Some n), p\<lparr>pool := AList.delete key (pool p)\<rparr>))
      else (Inr None, p\<lparr>pool := AList.update key a (pool p)\<rparr>))"

definition pool_add ::
  "bool \<Rightarrow> int \<Rightarrow> 'm fragmented \<Rightarrow> 'm assembly_pool \<Rightarrow>
     ('m notification option, 'm assembly_pool) outcome" where
  "pool_add dbg now f p =
     (let key = pool_key f in
      case map_of (pool p) key of
        Some a \<Rightarrow>
          (case assembly_add dbg f a of
             (Inl e, a') \<Rightarrow> (Inl e, p\<lparr>pool := AList.update key a' (pool p)\<rparr>)
           | (Inr _, a') \<Rightarrow> finish_assembly dbg key a' p)
      | None \<Rightarrow>
          (case assembly_new dbg now f of
             Inl e \<Rightarrow> (Inl e, p)
           | Inr a \<Rightarrow> finish_assembly dbg key a p))"

section \<open>The key identifies the event\<close>

lemma unat_byte: "unat (take_bit 8 (drop_bit k (ucast (w::32 word) :: 64 word))) = unat w div 2 ^ k mod 256"
proof -
  have "unat w < 2 ^ 64" using unat_less_2_32 [of w] by simp
  then show ?thesis
    unfolding unsigned_take_bit_eq unsigned_drop_bit_eq unsigned_ucast_eq
    by (simp add: take_bit_eq_mod drop_bit_eq_div)
qed
lemma char_of_eq: "(char_of (m::nat) :: char) = char_of n \<longleftrightarrow> m mod 256 = n mod 256"
  by (simp add: char_of_eq_iff take_bit_eq_mod)

lemma div_mod_eqI: "x div 256 = y div 256 \<Longrightarrow> x mod 256 = y mod 256 \<Longrightarrow> x = (y::nat)"
  by (metis div_mult_mod_eq)

lemma bytes_eq:
  fixes m n :: nat
  assumes "m < 2 ^ 32" and "n < 2 ^ 32" and "m mod 256 = n mod 256"
    and "m div 2 ^ 8 mod 256 = n div 2 ^ 8 mod 256"
    and "m div 2 ^ 16 mod 256 = n div 2 ^ 16 mod 256"
    and "m div 2 ^ 24 mod 256 = n div 2 ^ 24 mod 256"
  shows "m = n"
proof -
  have d16: "x div 2 ^ 16 div 256 = x div 2 ^ 24" and d8: "x div 2 ^ 8 div 256 = x div 2 ^ 16"
    and d0: "x div 256 = x div 2 ^ 8" for x :: nat
    by (simp_all add: div_mult2_eq [symmetric])
  have "m div 2 ^ 24 < 256" "n div 2 ^ 24 < 256"
    using assms(1,2) by (simp_all add: div_less_iff_less_mult)
  with assms(6) have e24: "m div 2 ^ 24 = n div 2 ^ 24" by simp
  have e16: "m div 2 ^ 16 = n div 2 ^ 16"
    by (rule div_mod_eqI) (simp_all only: d16 e24 assms(5))
  have e8: "m div 2 ^ 8 = n div 2 ^ 8"
    by (rule div_mod_eqI) (simp_all only: d8 e16 assms(4))
  show ?thesis by (rule div_mod_eqI) (simp_all only: d0 e8 assms(3))
qed

lemma key_byte:
  "drop_bit 0 (and x 0x000000ff) = take_bit 8 (drop_bit 0 (x :: 64 word))"
  "drop_bit 8 (and x 0x0000ff00) = take_bit 8 (drop_bit 8 x)"
  "drop_bit 16 (and x 0x00ff0000) = take_bit 8 (drop_bit 16 x)"
  "drop_bit 24 (and x 0xff000000) = take_bit 8 (drop_bit 24 x)"
  by (simp_all add: drop_bit_and take_bit_eq_mask mask_numeral)

text \<open>The key in terms of the number, byte by byte.\<close>

lemma pool_key_bytes:
  "pool_key f = sender_id (nt_event_id (fn_notification f)) @
     map (\<lambda>k. char_of (unat (sequence_number (nt_event_id (fn_notification f))) div 2 ^ k mod 256))
       [0, 8, 16, 24]"
  unfolding pool_key_def Let_def key_byte unat_byte by simp

lemma pool_key_eq:
  "pool_key f = pool_key g
    \<longleftrightarrow> nt_event_id (fn_notification f) = nt_event_id (fn_notification g)"
proof
  assume eq: "pool_key f = pool_key g"
  let ?e = "\<lambda>f. nt_event_id (fn_notification f)"
  let ?b = "\<lambda>f k. char_of (unat (sequence_number (?e f)) div 2 ^ k mod 256) :: char"
  from eq have "sender_id (?e f) @ map (?b f) [0, 8, 16, 24]
      = sender_id (?e g) @ map (?b g) [0, 8, 16, 24]"
    unfolding pool_key_bytes .
  then have "sender_id (?e f) = sender_id (?e g)
      \<and> map (?b f) [0, 8, 16, 24] = map (?b g) [0, 8, 16, 24]"
    by (subst (asm) append_eq_append_conv) (simp_all only: length_map simp_thms)
  then have s: "sender_id (?e f) = sender_id (?e g)"
    and b: "map (?b f) [0, 8, 16, 24] = map (?b g) [0, 8, 16, 24]" by simp_all
  have e: "unat (sequence_number (?e f)) div 2 ^ k mod 256
      = unat (sequence_number (?e g)) div 2 ^ k mod 256" if "k \<in> set [0, 8, 16, 24]" for k
  proof -
    from b that have "?b f k = ?b g k" by (simp only: map_eq_conv)
    then show ?thesis by (simp only: char_of_eq mod_mod_trivial)
  qed
  have "unat (sequence_number (?e f)) = unat (sequence_number (?e g))"
    by (rule bytes_eq [OF unat_less_2_32 unat_less_2_32 e [of 0, simplified]]) (rule e, simp)+
  then have "sequence_number (?e f) = sequence_number (?e g)" by (simp add: word_unat_eq_iff)
  with s show "?e f = ?e g" by simp
next
  assume "nt_event_id (fn_notification f) = nt_event_id (fn_notification g)"
  then show "pool_key f = pool_key g" by (simp add: pool_key_def)
qed

text \<open>The key of the pool is the event: two fragments have the same key exactly if sender and
  sequence number agree, so fragments of different events never meet in one assembly.\<close>

lemma pool_key_identifies_event:
  "pool_key f = pool_key g
    \<longleftrightarrow> nt_event_id (fn_notification f) = nt_event_id (fn_notification g)"
  by (rule pool_key_eq)

section \<open>The pool as independent slots\<close>

text \<open>What happens to the one entry of the pool a fragment belongs to.\<close>

definition slot_finish ::
  "bool \<Rightarrow> 'm assembly \<Rightarrow> (exn + 'm notification option) \<times> 'm assembly option" where
  "slot_finish dbg a =
     (if isComplete a then
        (case getCompleteNotification dbg a of
           (Inl e, a') \<Rightarrow> (Inl e, Some a')
         | (Inr n, a') \<Rightarrow> (Inr (Some n), None))
      else (Inr None, Some a))"

definition slot_add ::
  "bool \<Rightarrow> int \<Rightarrow> 'm fragmented \<Rightarrow> 'm assembly option \<Rightarrow>
     (exn + 'm notification option) \<times> 'm assembly option" where
  "slot_add dbg now f slot =
     (case slot of
        Some a \<Rightarrow>
          (case assembly_add dbg f a of
             (Inl e, a') \<Rightarrow> (Inl e, Some a')
           | (Inr _, a') \<Rightarrow> slot_finish dbg a')
      | None \<Rightarrow>
          (case assembly_new dbg now f of
             Inl e \<Rightarrow> (Inl e, None)
           | Inr a \<Rightarrow> slot_finish dbg a))"

lemma finish_assembly_slot:
  assumes "finish_assembly dbg key a p = (r, p')"
  shows "r = fst (slot_finish dbg a)"
    and "map_of (pool p') = (map_of (pool p))(key := snd (slot_finish dbg a))"
    and "pruningTask p' = pruningTask p" and "pruningAgeS p' = pruningAgeS p"
    and "pruningIntervalMs p' = pruningIntervalMs p"
    and "distinct_keys (pool p) \<Longrightarrow> distinct_keys (pool p')"
  using assms
  by (auto simp: finish_assembly_def slot_finish_def fun_eq_iff map_facts distinct_update
      distinct_delete split: outcome_splits)

lemma pool_add_slot:
  assumes "pool_add dbg now f p = (r, p')"
  shows "r = fst (slot_add dbg now f (map_of (pool p) (pool_key f)))
    \<and> map_of (pool p') = (map_of (pool p))
        (pool_key f := snd (slot_add dbg now f (map_of (pool p) (pool_key f))))
    \<and> pruningTask p' = pruningTask p"
proof (cases "map_of (pool p) (pool_key f)")
  case (Some a)
  obtain r1 a1 where add: "assembly_add dbg f a = (r1, a1)" by (metis surj_pair)
  show ?thesis
  proof (cases r1)
    case (Inl e)
    with Some add assms show ?thesis
      by (auto simp: pool_add_def slot_add_def Let_def fun_eq_iff map_facts)
  next
    case (Inr b)
    with Some add assms have "finish_assembly dbg (pool_key f) a1 p = (r, p')"
      by (simp add: pool_add_def Let_def)
    note fin = finish_assembly_slot [OF this]
    from Some add Inr have "slot_add dbg now f (map_of (pool p) (pool_key f)) = slot_finish dbg a1"
      by (simp add: slot_add_def)
    with fin(1,2,3) show ?thesis by (simp only: simp_thms)
  qed
next
  case None
  show ?thesis
  proof (cases "assembly_new dbg now f")
    case (Inl e)
    with None assms show ?thesis
      by (auto simp: pool_add_def slot_add_def Let_def fun_eq_iff)
  next
    case (Inr a)
    with None assms have "finish_assembly dbg (pool_key f) a p = (r, p')"
      by (simp add: pool_add_def Let_def)
    note fin = finish_assembly_slot [OF this]
    from None Inr have "slot_add dbg now f (map_of (pool p) (pool_key f)) = slot_finish dbg a"
      by (simp add: slot_add_def)
    with fin(1,2,3) show ?thesis by (simp only: simp_thms)
  qed
qed

text \<open>Refinement: the pool is a family of independent machines, one per event. Adding a fragment
  runs the machine of its key, returns what that machine returns, and leaves every other entry, and
  the pruning settings, as they were.\<close>

lemma pool_add_refines_slot:
  "fst (pool_add dbg now f p) = fst (slot_add dbg now f (map_of (pool p) (pool_key f)))
    \<and> map_of (pool (snd (pool_add dbg now f p))) = (map_of (pool p))
        (pool_key f := snd (slot_add dbg now f (map_of (pool p) (pool_key f))))
    \<and> pruningTask (snd (pool_add dbg now f p)) = pruningTask p"
  using pool_add_slot [of dbg now f p "fst (pool_add dbg now f p)" "snd (pool_add dbg now f p)"]
  by simp

end
