(* ===== verification/Reassembly.thy ===== *)
theory Reassembly
  imports AssemblyPool
begin

text \<open>
  Runs of the pool: fragments of many events arrive in any order and interleaving. The pool puts the
  parts of each event together again, well-formed fragments never bring it into an undefined state,
  and duplicates are refused without effect.
\<close>

section \<open>Runs\<close>

text \<open>Fragments with the time of their arrival; an exception of one \<open>add\<close> is caught by the caller.\<close>

fun pool_run ::
  "bool \<Rightarrow> (int \<times> 'm fragmented) list \<Rightarrow> 'm assembly_pool \<Rightarrow>
     (exn + 'm notification option) list \<times> 'm assembly_pool" where
  "pool_run dbg [] p = ([], p)"
| "pool_run dbg ((now, f) # xs) p =
     (case pool_add dbg now f p of (r, p1) \<Rightarrow>
        (case pool_run dbg xs p1 of (rs, p2) \<Rightarrow> (r # rs, p2)))"

fun slot_run ::
  "bool \<Rightarrow> (int \<times> 'm fragmented) list \<Rightarrow> 'm assembly option \<Rightarrow>
     (exn + 'm notification option) list \<times> 'm assembly option" where
  "slot_run dbg [] s = ([], s)"
| "slot_run dbg ((now, f) # xs) s =
     (case slot_add dbg now f s of (r, s1) \<Rightarrow>
        (case slot_run dbg xs s1 of (rs, s2) \<Rightarrow> (r # rs, s2)))"

text \<open>The results of the fragments of one key, in order.\<close>

definition results_for ::
  "string \<Rightarrow> (int \<times> 'm fragmented) list \<Rightarrow> 'r list \<Rightarrow> 'r list" where
  "results_for key xs rs = map snd (filter (\<lambda>(x, r). pool_key (snd x) = key) (zip xs rs))"

definition arrivals :: "string \<Rightarrow> (int \<times> 'm fragmented) list \<Rightarrow> (int \<times> 'm fragmented) list" where
  "arrivals key xs = filter (\<lambda>x. pool_key (snd x) = key) xs"

lemma results_for_simps [simp]:
  "results_for key [] rs = []"
  "results_for key (x # xs) (r # rs) =
     (if pool_key (snd x) = key then r # results_for key xs rs else results_for key xs rs)"
  by (simp_all add: results_for_def)

lemma arrivals_simps [simp]:
  "arrivals key [] = []"
  "arrivals key (x # xs) =
     (if pool_key (snd x) = key then x # arrivals key xs else arrivals key xs)"
  by (simp_all add: arrivals_def)

text \<open>A run of the pool projects to a run of each slot.\<close>

lemma pool_run_slot:
  assumes "pool_run dbg xs p = (rs, p')"
  shows "slot_run dbg (arrivals key xs) (map_of (pool p) key)
    = (results_for key xs rs, map_of (pool p') key)"
  using assms
proof (induction xs arbitrary: p rs)
  case Nil
  then show ?case by simp
next
  case (Cons x xs)
  obtain now f where x: "x = (now, f)" by (cases x)
  obtain r p1 where add: "pool_add dbg now f p = (r, p1)" by (metis surj_pair)
  obtain rs1 where run: "pool_run dbg xs p1 = (rs1, p')" and rs: "rs = r # rs1"
    using Cons.prems x add by (auto split: prod.splits)
  note slot = pool_add_slot [OF add]
  note IH = Cons.IH [OF run]
  show ?case
  proof (cases "pool_key f = key")
    case True
    then have "slot_add dbg now f (map_of (pool p) key) = (r, map_of (pool p1) key)"
      using slot by (simp add: prod_eq_iff)
    with IH x rs True show ?thesis by simp
  next
    case False
    then have "map_of (pool p1) key = map_of (pool p) key" using slot by simp
    with IH x rs False show ?thesis by simp
  qed
qed

section \<open>Reassembly in any order\<close>

text \<open>A notification split into its parts, and the notification the parts are joined to.\<close>

definition is_split :: "'m fragmented list \<Rightarrow> bool" where
  "is_split frs \<longleftrightarrow> frs \<noteq> [] \<and>
     (\<forall>i < length frs. frag_index (frs ! i) = i \<and> frag_total (frs ! i) = length frs
        \<and> pool_key (frs ! i) = pool_key (frs ! 0))"

definition join_parts :: "'m fragmented list \<Rightarrow> 'm notification" where
  "join_parts frs = (fn_notification (hd frs))
     \<lparr>nt_data := concat (map (\<lambda>f. nt_data (fn_notification f)) frs)\<rparr>"

lemma append_parts_Some:
  "append_parts (map Some frs) s = Inr (s @ concat (map (\<lambda>f. nt_data (fn_notification f)) frs))"
  by (induction frs arbitrary: s) auto

lemma complete_notification:
  assumes "isComplete a" and "store a = map Some frs" and "frs \<noteq> []"
  shows "\<exists>a'. getCompleteNotification dbg a = (Inr (join_parts frs), a')"
  using assms
  by (cases frs) (auto simp: getCompleteNotification_def join_parts_def append_parts_Some Let_def)

lemma store_eq_parts:
  assumes "length (store a) = length frs" and "\<And>i. i < length frs \<Longrightarrow> asm_parts a i = Some (frs ! i)"
  shows "store a = map Some frs"
proof (rule nth_equalityI)
  show "length (store a) = length (map Some frs)" using assms(1) by simp
next
  fix i
  assume "i < length (store a)"
  then show "store a ! i = map Some frs ! i"
    using assms(1) assms(2) [of i] by (simp add: asm_parts_def)
qed

lemma assembly_add_Inr: "assembly_add dbg f a = (Inr b, a') \<Longrightarrow> b = isComplete a'"
  by (auto simp: assembly_add_def Let_def split: if_splits)

text \<open>
  Feeding a slot that holds an assembly is feeding the assembly, up to the point where it is
  complete.
\<close>

lemma slot_run_feed:
  assumes "feed (assembly_add dbg) (map snd xs) a
      = (replicate (length xs - 1) (Inr False) @ [Inr True], a')" and "xs \<noteq> []"
    and "getCompleteNotification dbg a' = (Inr n, a'')"
  shows "slot_run dbg xs (Some a) = (replicate (length xs - 1) (Inr None) @ [Inr (Some n)], None)"
  using assms
proof (induction xs arbitrary: a)
  case Nil
  then show ?case by simp
next
  case (Cons x xs)
  obtain now f where x: "x = (now, f)" by (cases x)
  obtain r a1 where add: "assembly_add dbg f a = (r, a1)" by (metis surj_pair)
  show ?case
  proof (cases "xs = []")
    case True
    with Cons.prems(1) x add have "r = Inr True" "a1 = a'" by auto
    with assembly_add_Inr [of dbg f a True a1] add have "isComplete a'" by simp
    with True x add \<open>r = Inr True\<close> \<open>a1 = a'\<close> Cons.prems(3) show ?thesis
      by (simp add: slot_add_def slot_finish_def)
  next
    case False
    then obtain m where m: "length xs = Suc m" by (cases xs) auto
    with Cons.prems(1) x add have r: "r = Inr False"
      and rest: "feed (assembly_add dbg) (map snd xs) a1
        = (replicate (length xs - 1) (Inr False) @ [Inr True], a')"
      by (auto split: prod.splits)
    have "\<not> isComplete a1" using assembly_add_Inr [of dbg f a False a1] add r by simp
    moreover have "slot_run dbg xs (Some a1)
        = (replicate (length xs - 1) (Inr None) @ [Inr (Some n)], None)"
      by (rule Cons.IH [OF rest False Cons.prems(3)])
    ultimately show ?thesis using x add r m by (simp add: slot_add_def slot_finish_def)
  qed
qed

lemma is_split_index_distinct:
  assumes "is_split frs"
  shows "distinct (map frag_index frs)" and "distinct frs"
proof -
  have "map frag_index frs = [0..<length frs]"
    using assms by (intro nth_equalityI) (simp_all add: is_split_def)
  then show "distinct (map frag_index frs)" by simp
  then show "distinct frs" by (simp add: distinct_map)
qed

lemma is_split_mem:
  assumes "is_split frs" and "f \<in> set frs"
  shows "frag_index f < length frs" and "frag_total f = length frs" and "frs ! frag_index f = f"
    and "pool_key f = pool_key (frs ! 0)"
proof -
  obtain i where i: "i < length frs" "f = frs ! i" using assms(2) by (metis in_set_conv_nth)
  then have "frag_index (frs ! i) = i \<and> frag_total (frs ! i) = length frs
      \<and> pool_key (frs ! i) = pool_key (frs ! 0)"
    using assms(1) unfolding is_split_def by blast
  with i show "frag_index f < length frs" and "frag_total f = length frs"
    and "frs ! frag_index f = f" and "pool_key f = pool_key (frs ! 0)" by simp_all
qed

lemma perm_distinct_map: "mset xs = mset ys \<Longrightarrow> distinct (map g ys) \<Longrightarrow> distinct (map g xs)"
  by (metis mset_eq_imp_distinct_iff mset_map)

lemma slot_run_split:
  assumes "is_split frs" and "mset (map snd xs) = mset frs"
  shows "slot_run dbg xs None
    = (replicate (length frs - 1) (Inr None) @ [Inr (Some (join_parts frs))], None)"
proof -
  have set_eq: "set (map snd xs) = set frs" using assms(2) by (rule mset_eq_setD)
  have len: "length xs = length frs" using assms(2) by (metis length_map size_mset)
  have ne: "frs \<noteq> []" using assms(1) by (simp add: is_split_def)
  then obtain now f ys where xs: "xs = (now, f) # ys" using len by (cases xs) auto
  have idx: "distinct (map frag_index (map snd xs))"
    using perm_distinct_map [OF assms(2)] is_split_index_distinct [OF assms(1)] by blast
  have f: "f \<in> set frs" using set_eq xs by auto
  note fm = is_split_mem [OF assms(1) f]
  have "frag_index f < frag_total f" using fm(1,2) by simp
  then obtain a where "assembly_new dbg now f = Inr a" "asm_inv a"
      "length (store a) = frag_total f" "asm_parts a = [frag_index f \<mapsto> f]" "birthTime a = now"
    by (rule assembly_new_ok)
  then have a: "assembly_new dbg now f = Inr a" "asm_inv a" "length (store a) = length frs"
      "asm_parts a = [frag_index f \<mapsto> f]"
    using fm(2) by simp_all
  have finish: "\<exists>a''. getCompleteNotification dbg a' = (Inr (join_parts frs), a'')"
    if "asm_inv a'" "length (store a') = length frs"
      "\<And>i. i < length frs \<Longrightarrow> asm_parts a' i = Some (frs ! i)" for a'
  proof (rule complete_notification [OF _ store_eq_parts [OF that(2)] ne])
    have "dom (asm_parts a') = {..<length (store a')}"
      using that(2,3) by (auto simp: dom_def asm_parts_def split: if_splits)
    then show "isComplete a'" using isComplete_iff [OF that(1)] by simp
  qed (rule that(3))
  show ?thesis
  proof (cases "ys = []")
    case True
    then have one: "length frs = 1" using xs len by simp
    have "asm_parts a i = Some (frs ! i)" if "i < length frs" for i
      using that one fm a(4) by simp
    then obtain a'' where "getCompleteNotification dbg a = (Inr (join_parts frs), a'')"
      using finish [OF a(2,3)] by blast
    moreover have "isComplete a"
      using isComplete_iff [OF a(2)] a(3,4) one fm(1) by auto
    ultimately show ?thesis using True xs a one by (simp add: slot_add_def slot_finish_def)
  next
    case False
    have ys_mem: "frag_total h = length (store a) \<and> frag_index h < length (store a)"
      if "h \<in> set (map snd ys)" for h
      using is_split_mem [OF assms(1), of h] that set_eq xs a(3) by auto
    have ys_new: "asm_parts a (frag_index h) = None" if "h \<in> set (map snd ys)" for h
    proof -
      have "frag_index h \<noteq> frag_index f" using idx xs that by (auto simp: image_iff)
      then show ?thesis using a(4) by simp
    qed
    have all: "insert (frag_index f) (frag_index ` set (map snd ys)) = {..<length frs}"
    proof -
      have "frag_index ` set frs = {..<length frs}"
        using assms(1) by (force simp: is_split_def set_conv_nth image_iff)
      moreover have "frag_index ` set frs = insert (frag_index f) (frag_index ` set (map snd ys))"
        unfolding set_eq [symmetric] xs by simp
      ultimately show ?thesis by simp
    qed
    have pre: "dom (asm_parts a) \<union> frag_index ` set (map snd ys) = {..<length (store a)}"
      using all a(3,4) by auto
    obtain a' where fed: "feed (assembly_add dbg) (map snd ys) a
          = (replicate (length (map snd ys) - 1) (Inr False) @ [Inr True], a')"
        and a': "asm_inv a'" "length (store a') = length (store a)"
          "asm_parts a' = asm_parts a ++ map_of (map (\<lambda>f. (frag_index f, f)) (map snd ys))"
      using asm.feed_new [OF a(2), of "map snd ys" dbg] ys_mem ys_new pre idx xs False by auto
    have "asm_parts a' i = Some (frs ! i)" if i: "i < length frs" for i
    proof (cases "i = frag_index f")
      case True
      then have "map_of (map (\<lambda>f. (frag_index f, f)) (map snd ys)) i = None"
        using idx xs by (auto simp: map_of_eq_None_iff image_image)
      then show ?thesis using True a'(3) a(4) fm(3) by (simp add: map_add_def)
    next
      case False
      then obtain h where h: "h \<in> set (map snd ys)" "i = frag_index h" using all i by blast
      have "distinct (map fst (map (\<lambda>f. (frag_index f, f)) (map snd ys)))"
        using idx xs by (simp add: comp_def)
      then have "map_of (map (\<lambda>f. (frag_index f, f)) (map snd ys)) i = Some h"
        using h by (intro map_of_is_SomeI) auto
      moreover have "frs ! i = h" using is_split_mem(3) [OF assms(1), of h] h set_eq xs by auto
      ultimately show ?thesis using a'(3) by simp
    qed
    then obtain a'' where "getCompleteNotification dbg a' = (Inr (join_parts frs), a'')"
      using finish [OF a'(1)] a'(2) a(3) by auto
    then have "slot_run dbg ys (Some a)
        = (replicate (length ys - 1) (Inr None) @ [Inr (Some (join_parts frs))], None)"
      using slot_run_feed [OF _ False] fed by simp
    moreover have "\<not> isComplete a"
    proof -
      have "dom (asm_parts a) \<noteq> {..<length (store a)}"
      proof -
        obtain h where h: "h \<in> set (map snd ys)" using False by (cases ys) auto
        then have "frag_index h \<in> {..<length (store a)}" using ys_mem by simp
        moreover have "frag_index h \<notin> dom (asm_parts a)" using ys_new [OF h] by auto
        ultimately show ?thesis by blast
      qed
      then show ?thesis using isComplete_iff [OF a(2)] by simp
    qed
    moreover obtain m where m: "length ys = Suc m" using False by (cases ys) auto
    moreover have "length frs = Suc (Suc m)" using xs len m by simp
    ultimately show ?thesis using xs a(1) by (simp add: slot_add_def slot_finish_def)
  qed
qed

text \<open>Reassembly: however the parts of one event arrive (any order, any interleaving with the
  fragments of other events, any times), the pool answers "not complete" to all but the last of them
  and then returns the notification of part 0 with the data of all parts in order; the entry is gone
  afterwards. This holds for every number of parts, in debug and release builds.\<close>

lemma reassembly_in_any_order:
  assumes "is_split frs" and "mset (map snd (arrivals (pool_key (frs ! 0)) xs)) = mset frs"
    and "map_of (pool p) (pool_key (frs ! 0)) = None" and "pool_run dbg xs p = (rs, p')"
  shows "results_for (pool_key (frs ! 0)) xs rs
      = replicate (length frs - 1) (Inr None) @ [Inr (Some (join_parts frs))]
    \<and> map_of (pool p') (pool_key (frs ! 0)) = None"
  using pool_run_slot [OF assms(4), of "pool_key (frs ! 0)"] assms(3)
    slot_run_split [OF assms(1,2), of dbg] by simp

definition sample_event :: "nat \<Rightarrow> event_id" where
  "sample_event n = \<lparr>sender_id = ''s'', sequence_number = of_nat n\<rparr>"

definition sample_part :: "nat \<Rightarrow> nat \<Rightarrow> string \<Rightarrow> nat \<Rightarrow> unit fragmented" where
  "sample_part n i d k = \<lparr>fn_notification = \<lparr>nt_event_id = sample_event n, nt_scope = ''/'',
     nt_wire_schema = [], nt_data = d, nt_meta = ()\<rparr>,
     fn_data_part = of_nat i, fn_num_data_parts = of_nat k\<rparr>"

lemmas sample_defs = sample_event_def sample_part_def

lemma replicate_two: "replicate 2 x = [x, x]"
  by (simp add: numeral_2_eq_2)

definition sample_pool :: "unit assembly_pool" where
  "sample_pool = \<lparr>pool = [], pruningAgeS = 20, pruningIntervalMs = 4000, pruningTask = None\<rparr>"

theorem reassembly_in_any_order_witness:
  "results_for (pool_key (sample_part 1 0 ''ab'' 2))
     [(0, sample_part 1 1 ''cd'' 2), (5, sample_part 2 0 ''xx'' 3), (9, sample_part 1 0 ''ab'' 2)]
     (fst (pool_run True
       [(0, sample_part 1 1 ''cd'' 2), (5, sample_part 2 0 ''xx'' 3), (9, sample_part 1 0 ''ab'' 2)]
       sample_pool))
   = [Inr None, Inr (Some ((fn_notification (sample_part 1 0 ''ab'' 2))\<lparr>nt_data := ''abcd''\<rparr>))]"
proof -
  let ?frs = "[sample_part 1 0 ''ab'' 2, sample_part 1 1 ''cd'' 2]"
  let ?xs = "[(0, sample_part 1 1 ''cd'' 2), (5, sample_part 2 0 ''xx'' 3),
    (9, sample_part 1 0 ''ab'' 2)]"
  have k: "pool_key (sample_part 1 1 ''cd'' 2) = pool_key (sample_part 1 0 ''ab'' 2)"
    "pool_key (sample_part 2 0 ''xx'' 3) \<noteq> pool_key (sample_part 1 0 ''ab'' 2)"
    by (simp_all add: pool_key_def sample_defs)
  have split: "is_split ?frs"
    using k by (auto simp: is_split_def less_Suc_eq frag_defs sample_defs)
  have "results_for (pool_key (?frs ! 0)) ?xs (fst (pool_run True ?xs sample_pool))
      = replicate (length ?frs - 1) (Inr None) @ [Inr (Some (join_parts ?frs))]
    \<and> map_of (pool (snd (pool_run True ?xs sample_pool))) (pool_key (?frs ! 0)) = None"
  proof (rule reassembly_in_any_order [OF split])
    show "mset (map snd (arrivals (pool_key (?frs ! 0)) ?xs)) = mset ?frs"
      using k by simp
    show "map_of (pool sample_pool) (pool_key (?frs ! 0)) = None" by (simp add: sample_pool_def)
    show "pool_run True ?xs sample_pool
        = (fst (pool_run True ?xs sample_pool), snd (pool_run True ?xs sample_pool))" by simp
  qed
  then show ?thesis by (simp add: join_parts_def sample_defs del: pool_run.simps results_for_simps)
qed

end
