(* ===== verification/PoolSafety.thy ===== *)
theory PoolSafety
  imports Reassembly
begin

text \<open>
  Invariants of the pool over all its operations (adding fragments, executions of the pruning task,
  switching pruning on and off), what pruning removes, and the inputs for which the code leaves the
  defined behaviour of C++.
\<close>

section \<open>Reachable pools\<close>

datatype 'm pool_op = PAdd int "'m fragmented" | PTick "nat \<Rightarrow> int" | PSetPruning bool

fun pool_apply :: "bool \<Rightarrow> 'm pool_op \<Rightarrow> 'm assembly_pool \<Rightarrow> 'm assembly_pool" where
  "pool_apply dbg (PAdd now f) p = snd (pool_add dbg now f p)"
| "pool_apply dbg (PTick clock) p = prune_tick clock p"
| "pool_apply dbg (PSetPruning b) p = setPruning b p"

text \<open>
  A fragment is well formed if its number is below the number of parts and the number of parts is
  the one of its event (\<open>N\<close> gives it per key).
\<close>

definition frag_ok :: "(string \<Rightarrow> nat) \<Rightarrow> 'm fragmented \<Rightarrow> bool" where
  "frag_ok N f \<longleftrightarrow> frag_index f < frag_total f \<and> frag_total f = N (pool_key f)"

fun op_ok :: "(string \<Rightarrow> nat) \<Rightarrow> 'm pool_op \<Rightarrow> bool" where
  "op_ok N (PAdd now f) = frag_ok N f"
| "op_ok N (PTick clock) = True"
| "op_ok N (PSetPruning b) = True"

inductive pool_reachable :: "bool \<Rightarrow> (string \<Rightarrow> nat) \<Rightarrow> 'm assembly_pool \<Rightarrow> bool" for dbg N where
  created: "pool_new ageS interval = Inr p \<Longrightarrow> pool_reachable dbg N p"
| step: "pool_reachable dbg N p \<Longrightarrow> op_ok N op \<Longrightarrow> pool_reachable dbg N (pool_apply dbg op p)"

definition slot_inv :: "(string \<Rightarrow> nat) \<Rightarrow> string \<Rightarrow> 'm assembly \<Rightarrow> bool" where
  "slot_inv N key a \<longleftrightarrow> asm_inv a \<and> length (store a) = N key \<and> \<not> isComplete a
     \<and> (\<forall>i f. asm_parts a i = Some f \<longrightarrow> frag_index f = i \<and> pool_key f = key)"

definition pool_inv :: "(string \<Rightarrow> nat) \<Rightarrow> 'm assembly_pool \<Rightarrow> bool" where
  "pool_inv N p \<longleftrightarrow> distinct_keys (pool p)
     \<and> (\<forall>key a. map_of (pool p) key = Some a \<longrightarrow> slot_inv N key a)"

section \<open>One slot\<close>

lemma complete_store:
  assumes "asm_inv a" and "isComplete a"
  shows "store a = map Some (map the (store a))"
proof (rule store_eq_parts)
  show "length (store a) = length (map the (store a))" by simp
next
  fix i
  assume "i < length (map the (store a))"
  then have "i \<in> dom (asm_parts a)" using assms isComplete_iff [OF assms(1)] by simp
  then show "asm_parts a i = Some (map the (store a) ! i)"
    by (auto simp: asm_parts_def split: if_splits)
qed

lemma slot_finish_ok:
  assumes "asm_inv a" and "store a \<noteq> []"
  shows "(\<not> isComplete a \<and> slot_finish dbg a = (Inr None, Some a))
    \<or> (isComplete a \<and> slot_finish dbg a = (Inr (Some (join_parts (map the (store a)))), None))"
proof (cases "isComplete a")
  case True
  then obtain a' where "getCompleteNotification dbg a = (Inr (join_parts (map the (store a))), a')"
    using complete_notification [OF True complete_store [OF assms(1) True], of dbg] assms(2) by auto
  with True show ?thesis by (simp add: slot_finish_def)
qed (simp add: slot_finish_def)

text \<open>What a well-formed fragment does to its slot.\<close>

lemma slot_add_ok:
  assumes "frag_ok N f" and "\<And>a. slot = Some a \<Longrightarrow> slot_inv N (pool_key f) a"
    and "slot_add dbg now f slot = (r, slot')"
  shows "(\<exists>x. r = Inr x \<and> (\<forall>a. slot' = Some a \<longrightarrow> slot_inv N (pool_key f) a))
    \<or> r = Inl (ProtocolException (twice_text f)) \<and> slot' = slot
      \<and> (\<exists>a. slot = Some a \<and> asm_parts a (frag_index f) \<noteq> None)"
proof -
  have lt: "frag_index f < frag_total f" and N: "frag_total f = N (pool_key f)"
    using assms(1) by (simp_all add: frag_ok_def)
  have fin: "\<exists>x. r = Inr x \<and> (\<forall>a. slot' = Some a \<longrightarrow> slot_inv N (pool_key f) a)"
    if "slot_finish dbg a = (r, slot')" and "asm_inv a" and "length (store a) = frag_total f"
      and "\<forall>i g. asm_parts a i = Some g \<longrightarrow> frag_index g = i \<and> pool_key g = pool_key f" for a
  proof -
    have "store a \<noteq> []" using lt that(3) by auto
    then show ?thesis
      using slot_finish_ok [OF that(2), of dbg] that N by (auto simp: slot_inv_def)
  qed
  show ?thesis
  proof (cases slot)
    case None
    obtain a where a: "assembly_new dbg now f = Inr a" "asm_inv a"
        "length (store a) = frag_total f" "asm_parts a = [frag_index f \<mapsto> f]" "birthTime a = now"
      by (rule assembly_new_ok [OF lt])
    then have run: "slot_finish dbg a = (r, slot')" using None assms(3) by (simp add: slot_add_def)
    have "\<forall>i g. asm_parts a i = Some g \<longrightarrow> frag_index g = i \<and> pool_key g = pool_key f"
      unfolding a(4) by (auto split: if_splits)
    then show ?thesis using fin [OF run a(2,3)] by blast
  next
    case (Some a)
    then have inv: "slot_inv N (pool_key f) a" using assms(2) by simp
    then have len: "frag_total f = length (store a)" using N by (simp add: slot_inv_def)
    have idx: "frag_index f < length (store a)" using lt len by simp
    show ?thesis
    proof (cases "asm_parts a (frag_index f) = None")
      case True
      have "asm_inv a" using inv by (simp add: slot_inv_def)
      then obtain a' where a': "assembly_add dbg f a = (Inr (isComplete a'), a')" "asm_inv a'"
          "length (store a') = length (store a)" "asm_parts a' = (asm_parts a)(frag_index f \<mapsto> f)"
          "birthTime a' = birthTime a"
        by (rule assembly_add_new [OF _ len idx True])
      then have run: "slot_finish dbg a' = (r, slot')"
        using Some assms(3) by (simp add: slot_add_def)
      have old: "\<forall>i g. asm_parts a i = Some g \<longrightarrow> frag_index g = i \<and> pool_key g = pool_key f"
        using inv unfolding slot_inv_def by blast
      have "\<forall>i g. asm_parts a' i = Some g \<longrightarrow> frag_index g = i \<and> pool_key g = pool_key f"
        unfolding a'(4) using old by (auto split: if_splits)
      then show ?thesis using fin [OF run a'(2)] a'(3) len by simp
    next
      case False
      then have "assembly_add dbg f a = (Inl (ProtocolException (twice_text f)), a)"
        using idx len by (intro assembly_add_twice) simp_all
      then show ?thesis using Some assms(3) False by (auto simp: slot_add_def)
    qed
  qed
qed

section \<open>The pool\<close>

lemma pool_add_distinct:
  "distinct_keys (pool p) \<Longrightarrow> distinct_keys (pool (snd (pool_add dbg now f p)))"
  by (auto simp: pool_add_def finish_assembly_def Let_def distinct_update distinct_delete
      split: option.splits prod.splits sum.splits)

lemma pool_add_inv:
  assumes "pool_inv N p" and "frag_ok N f"
  shows "pool_inv N (snd (pool_add dbg now f p))"
proof -
  obtain r p' where add: "pool_add dbg now f p = (r, p')" by (metis surj_pair)
  note slot = pool_add_slot [OF add]
  let ?s = "map_of (pool p) (pool_key f)"
  obtain r1 s1 where s1: "slot_add dbg now f ?s = (r1, s1)" by (metis surj_pair)
  have old: "slot_inv N (pool_key f) a" if "?s = Some a" for a
    using assms(1) that by (simp add: pool_inv_def)
  have "slot_inv N (pool_key f) a" if "s1 = Some a" for a
    using slot_add_ok [OF assms(2) old s1] that old by auto
  moreover have "map_of (pool p') = (map_of (pool p))(pool_key f := s1)" using slot s1 by simp
  ultimately have "\<forall>key a. map_of (pool p') key = Some a \<longrightarrow> slot_inv N key a"
    using assms(1) by (auto simp: pool_inv_def)
  moreover have "distinct_keys (pool p')"
    using pool_add_distinct [of p dbg now f] assms(1) add by (simp add: pool_inv_def)
  ultimately show ?thesis using add by (simp add: pool_inv_def)
qed

lemma prune_from_subset: "set (prune_from clock i m pl) \<subseteq> set pl"
  by (induction clock i m pl rule: prune_from.induct) auto

lemma prune_from_distinct: "distinct_keys pl \<Longrightarrow> distinct_keys (prune_from clock i m pl)"
proof (induction clock i m pl rule: prune_from.induct)
  case (2 clock i m k a rest)
  then show ?case using prune_from_subset [of clock "Suc i" m rest] by auto
qed simp

lemma prune_tick_inv: "pool_inv N p \<Longrightarrow> pool_inv N (prune_tick clock p)"
proof (cases "pruningTask p")
  case (Some t)
  assume inv: "pool_inv N p"
  have "map_of (pool p) key = Some a"
    if "map_of (prune_from clock 0 (maxAge t) (pool p)) key = Some a" for key a
  proof -
    have "(key, a) \<in> set (pool p)"
      using map_of_SomeD [OF that] prune_from_subset [of clock 0 "maxAge t" "pool p"] by blast
    then show ?thesis using inv by (simp add: pool_inv_def map_of_eq_Some_iff)
  qed
  with inv Some show ?thesis
    by (auto simp: pool_inv_def prune_tick_def prune_from_distinct)
qed (simp add: prune_tick_def)

lemma setPruning_pool [simp]: "pool (setPruning b p) = pool p"
  by (simp add: setPruning_def)

lemma pool_apply_inv: "pool_inv N p \<Longrightarrow> op_ok N op \<Longrightarrow> pool_inv N (pool_apply dbg op p)"
  by (cases op) (simp_all add: pool_add_inv prune_tick_inv, simp add: pool_inv_def)

lemma pool_new_inv: "pool_new ageS interval = Inr p \<Longrightarrow> pool_inv N p"
  by (auto simp: pool_new_def pool_inv_def split: if_splits)

lemma pool_reachable_inv: "pool_reachable dbg N p \<Longrightarrow> pool_inv N p"
proof (induction rule: pool_reachable.induct)
  case (created ageS interval p)
  then show ?case by (rule pool_new_inv)
next
  case (step p op)
  then show ?case by (simp add: pool_apply_inv)
qed

lemma sample_pool_new: "pool_new 20 4000 = Inr sample_pool"
  by (simp add: pool_new_def sample_pool_def)

lemma sample_frag_ok: "frag_ok (\<lambda>key. 2) (sample_part 1 0 ''ab'' 2)"
  by (simp add: frag_ok_def frag_defs sample_defs)

text \<open>Well-formed fragments are safe: in every reachable pool, adding one either returns (nothing
  yet, or a joined notification), or it is a duplicate: then \<open>ProtocolException\<close> is thrown and the
  pool is exactly what it was. No \<open>assert\<close> fails and nothing undefined happens.\<close>

lemma well_formed_fragments_safe:
  assumes "pool_reachable dbg N p" and "frag_ok N f"
  shows "(\<exists>x. fst (pool_add dbg now f p) = Inr x)
    \<or> pool_add dbg now f p = (Inl (ProtocolException (twice_text f)), p)"
proof -
  obtain r p' where add: "pool_add dbg now f p = (r, p')" by (metis surj_pair)
  let ?s = "map_of (pool p) (pool_key f)"
  have inv: "pool_inv N p" by (rule pool_reachable_inv [OF assms(1)])
  obtain r1 s1 where s1: "slot_add dbg now f ?s = (r1, s1)" by (metis surj_pair)
  have r: "r = r1" using pool_add_slot [OF add] s1 by simp
  have old: "slot_inv N (pool_key f) a" if "?s = Some a" for a
    using inv that by (simp add: pool_inv_def)
  from slot_add_ok [OF assms(2) old s1] show ?thesis
  proof
    assume "\<exists>x. r1 = Inr x \<and> (\<forall>a. s1 = Some a \<longrightarrow> slot_inv N (pool_key f) a)"
    then show ?thesis using add r by auto
  next
    assume dup: "r1 = Inl (ProtocolException (twice_text f)) \<and> s1 = ?s
      \<and> (\<exists>a. ?s = Some a \<and> asm_parts a (frag_index f) \<noteq> None)"
    then obtain a where a: "?s = Some a" and "asm_parts a (frag_index f) \<noteq> None" by blast
    then have "frag_index f < length (store a)"
      by (auto simp: asm_parts_def split: if_splits)
    moreover have "frag_total f = length (store a)"
      using old [OF a] assms(2) by (simp add: slot_inv_def frag_ok_def)
    ultimately have "assembly_add dbg f a = (Inl (ProtocolException (twice_text f)), a)"
      using \<open>asm_parts a (frag_index f) \<noteq> None\<close> by (intro assembly_add_twice) simp_all
    then have "pool_add dbg now f p = (Inl (ProtocolException (twice_text f)), p)"
      using a by (simp add: pool_add_def Let_def update_triv)
    then show ?thesis by simp
  qed
qed

lemma well_formed_fragments_safe_witness:
  "(\<exists>x. fst (pool_add True 3 (sample_part 1 0 ''ab'' 2) sample_pool) = Inr x)
    \<or> pool_add True 3 (sample_part 1 0 ''ab'' 2) sample_pool
        = (Inl (ProtocolException (twice_text (sample_part 1 0 ''ab'' 2))), sample_pool)"
  by (rule well_formed_fragments_safe
      [OF pool_reachable.created [OF sample_pool_new] sample_frag_ok])

section \<open>Fragments that are not well formed\<close>

text \<open>A fragment that disagrees with its event about the number of parts aborts a debug build; a
  release build stores it if its number happens to be inside the vector and is free, and goes on as
  if it belonged there.\<close>

lemma part_count_mismatch:
  assumes "map_of (pool p) (pool_key f) = Some a" and "frag_total f \<noteq> length (store a)"
    and "frag_index f < length (store a)" and "asm_parts a (frag_index f) = None"
  shows "fst (pool_add True now f p) = Inl AssertionFailure
    \<and> fst (assembly_add False f a)
        = Inr (isComplete (a\<lparr>store := (store a)[frag_index f := Some f],
                             receivedParts := receivedParts a + 1\<rparr>))
    \<and> asm_parts (snd (assembly_add False f a)) = (asm_parts a)(frag_index f \<mapsto> f)"
proof -
  have "store a ! frag_index f = None" using assms(3,4) by (simp add: asm_parts_def)
  with assms show ?thesis
    by (simp add: pool_add_def assembly_add_def frag_defs Let_def asm_parts_store)
qed

theorem part_count_mismatch_witness:
  "fst (pool_add True 0 (sample_part 1 1 ''cd'' 3)
      (pool_apply True (PAdd 0 (sample_part 1 0 ''ab'' 2)) sample_pool)) = Inl AssertionFailure"
proof -
  let ?a = "\<lparr>receivedParts = 1, store = [Some (sample_part 1 0 ''ab'' 2), None], birthTime = 0\<rparr>"
  let ?p = "pool_apply True (PAdd 0 (sample_part 1 0 ''ab'' 2)) sample_pool"
  have k: "pool_key (sample_part 1 1 ''cd'' 3) = pool_key (sample_part 1 0 ''ab'' 2)"
    by (simp add: pool_key_def sample_defs)
  have "map_of (pool ?p) (pool_key (sample_part 1 1 ''cd'' 3)) = Some ?a"
    unfolding k
    by (simp add: pool_add_def finish_assembly_def assembly_new_def assembly_add_def
        isComplete_def sample_pool_def replicate_two sample_part_def Let_def)
  then have "fst (pool_add True 0 (sample_part 1 1 ''cd'' 3) ?p) = Inl AssertionFailure
    \<and> fst (assembly_add False (sample_part 1 1 ''cd'' 3) ?a)
        = Inr (isComplete (?a\<lparr>store := (store ?a)[frag_index (sample_part 1 1 ''cd'' 3)
                                 := Some (sample_part 1 1 ''cd'' 3)],
                             receivedParts := receivedParts ?a + 1\<rparr>))
    \<and> asm_parts (snd (assembly_add False (sample_part 1 1 ''cd'' 3) ?a))
        = (asm_parts ?a)(frag_index (sample_part 1 1 ''cd'' 3) \<mapsto> sample_part 1 1 ''cd'' 3)"
    by (rule part_count_mismatch) (simp_all add: frag_defs sample_part_def asm_parts_def)
  then show ?thesis by blast
qed

text \<open>\<open>getCompleteNotification\<close> is not the observer its \<open>const\<close> suggests: it appends the data of
  the other parts to the notification of part 0 inside the assembly, so asking a second time appends
  them again.\<close>

lemma complete_notification_appends_twice:
  assumes "isComplete a" and "store a = map Some frs" and "frs \<noteq> []"
    and "getCompleteNotification dbg a = (Inr n, a')"
  shows "nt_data n = concat (map (\<lambda>f. nt_data (fn_notification f)) frs)
    \<and> (\<exists>n' a''. getCompleteNotification dbg a' = (Inr n', a'')
        \<and> nt_data n' = nt_data n @ concat (map (\<lambda>f. nt_data (fn_notification f)) (tl frs)))"
proof -
  obtain f fs where frs: "frs = f # fs" using assms(3) by (cases frs) auto
  then have st: "store a = Some f # map Some fs" using assms(2) by simp
  let ?n = "(fn_notification f)
    \<lparr>nt_data := nt_data (fn_notification f) @ concat (map (\<lambda>f. nt_data (fn_notification f)) fs)\<rparr>"
  have eq: "n = ?n" "a' = a\<lparr>store := Some (f\<lparr>fn_notification := ?n\<rparr>) # map Some fs\<rparr>"
    using assms(1,4) st by (auto simp: getCompleteNotification_def append_parts_Some Let_def)
  have "isComplete a'" using assms(1) eq(2) st by (simp add: isComplete_def)
  with eq frs show ?thesis
    by (simp add: getCompleteNotification_def append_parts_Some Let_def)
qed

theorem complete_notification_appends_twice_witness:
  "\<exists>n' a''. getCompleteNotification True
      (snd (getCompleteNotification True
        \<lparr>receivedParts = 2, store = [Some (sample_part 1 0 ''ab'' 2), Some (sample_part 1 1 ''cd'' 2)],
         birthTime = 0\<rparr>)) = (Inr n', a'') \<and> nt_data n' = ''abcdcd''"
proof -
  let ?frs = "[sample_part 1 0 ''ab'' 2, sample_part 1 1 ''cd'' 2]"
  let ?a = "\<lparr>receivedParts = 2, store = map Some ?frs, birthTime = 0\<rparr>"
  have c: "isComplete ?a" by (simp add: isComplete_def)
  then obtain a' where a': "getCompleteNotification True ?a = (Inr (join_parts ?frs), a')"
    using complete_notification [OF c, of ?frs True] by auto
  have "nt_data (join_parts ?frs) = concat (map (\<lambda>f. nt_data (fn_notification f)) ?frs)
    \<and> (\<exists>n' a''. getCompleteNotification True a' = (Inr n', a'')
        \<and> nt_data n' = nt_data (join_parts ?frs)
            @ concat (map (\<lambda>f. nt_data (fn_notification f)) (tl ?frs)))"
    by (rule complete_notification_appends_twice [OF c _ _ a']) simp_all
  with a' show ?thesis by (simp add: join_parts_def sample_part_def)
qed

end
