(* ===== verification/SampleWorld.thy ===== *)
theory SampleWorld
  imports Notifications
begin

text \<open>
  A concrete codec, scope library and event library, on which the witnesses instantiate the
  parameters of the model. A message is a sequence of fields, each byte of a field preceded by a 1
  and each field ended by a 0.
\<close>

fun put_field :: "string \<Rightarrow> string \<Rightarrow> string" where
  "put_field [] rest = CHR 0x00 # rest"
| "put_field (c # s) rest = CHR 0x01 # c # put_field s rest"

fun get_field :: "string \<Rightarrow> (string \<times> string) option" where
  "get_field [] = None"
| "get_field (b # s) =
     (if b = CHR 0x00 then Some ([], s)
      else (case s of [] \<Rightarrow> None
            | c # s' \<Rightarrow> (case get_field s' of None \<Rightarrow> None | Some (f, rest) \<Rightarrow> Some (c # f, rest))))"

lemma get_put_field [simp]: "get_field (put_field s rest) = Some (s, rest)"
  by (induction s) auto

fun put_fields :: "string list \<Rightarrow> string" where
  "put_fields [] = []"
| "put_fields (f # fs) = put_field f (put_fields fs)"

fun get_fields :: "nat \<Rightarrow> string \<Rightarrow> string list option" where
  "get_fields 0 s = (if s = [] then Some [] else None)"
| "get_fields (Suc k) s = (case get_field s of None \<Rightarrow> None
     | Some (f, rest) \<Rightarrow> map_option ((#) f) (get_fields k rest))"

lemma get_put_fields [simp]: "get_fields (length fs) (put_fields fs) = Some fs"
  by (induction fs) auto

definition word_field :: "32 word \<Rightarrow> string" where
  "word_field w = show_nat (unat w)"

definition field_word :: "string \<Rightarrow> 32 word" where
  "field_word s = of_nat (read_nat s)"

lemma field_word_inverse [simp]: "field_word (word_field w) = w"
  by (simp add: field_word_def word_field_def)

definition put_fragment :: "unit fragmented \<Rightarrow> string" where
  "put_fragment f = (let n = fn_notification f in put_fields
     [sender_id (nt_event_id n), word_field (sequence_number (nt_event_id n)), nt_scope n,
      nt_wire_schema n, nt_data n, word_field (fn_data_part f), word_field (fn_num_data_parts f)])"

fun fragment_of_fields :: "string list \<Rightarrow> unit fragmented option" where
  "fragment_of_fields [i, q, sc, ws, d, p, k] =
     Some \<lparr>fn_notification = \<lparr>nt_event_id = \<lparr>sender_id = i, sequence_number = field_word q\<rparr>,
        nt_scope = sc, nt_wire_schema = ws, nt_data = d, nt_meta = ()\<rparr>,
        fn_data_part = field_word p, fn_num_data_parts = field_word k\<rparr>"
| "fragment_of_fields fs = None"

definition get_fragment :: "string \<Rightarrow> unit fragmented option" where
  "get_fragment s = (case get_fields 7 s of None \<Rightarrow> None | Some fs \<Rightarrow> fragment_of_fields fs)"

lemma get_put_fragment: "get_fragment (put_fragment f) = Some f"
proof -
  let ?n = "fn_notification f"
  let ?fs = "[sender_id (nt_event_id ?n), word_field (sequence_number (nt_event_id ?n)), nt_scope ?n,
      nt_wire_schema ?n, nt_data ?n, word_field (fn_data_part f), word_field (fn_num_data_parts f)]"
  have "get_fields (length ?fs) (put_fields ?fs) = Some ?fs" by (rule get_put_fields)
  then show ?thesis by (simp add: get_fragment_def put_fragment_def Let_def eval_nat_numeral)
qed

definition sample_codec :: "unit codec_api" where
  "sample_codec = \<lparr>headerByteSize = (\<lambda>n. of_nat (length (nt_scope n) + 4)),
     serialize = (\<lambda>f. Some (put_fragment f)), parse = get_fragment\<rparr>"

lemma sample_codec_roundtrips: "codec_roundtrips sample_codec"
  by (auto simp: codec_roundtrips_def sample_codec_def get_put_fragment)

text \<open>Scopes are their strings; the digest keeps printable strings unchanged.\<close>

definition sample_scopes :: "string scope_api" where
  "sample_scopes = \<lparr>scope_toString = (\<lambda>s. s), superScopes = (\<lambda>s. [s, ''/'']),
     scope_parse = (\<lambda>s. if s = [] then Inl (InvalidArgument s) else Inr s),
     md5_hex = filter (\<lambda>c. c \<noteq> CHR 0x00)\<rparr>"

lemma sample_scopes_printable: "digest_printable sample_scopes"
  by (simp add: digest_printable_def sample_scopes_def)

text \<open>An event is a sequence number with a payload; it is sent on the scope \<open>''/a''\<close>.\<close>

definition sample_events :: "(nat \<times> string, string, unit) event_api" where
  "sample_events = \<lparr>setSendTime = (\<lambda>t e. e), getScope = (\<lambda>e. ''/a''),
     getEventId = (\<lambda>e. \<lparr>sender_id = ''s'', sequence_number = of_nat (fst e)\<rparr>),
     to_wire = (\<lambda>e. Inr (''utf-8'', snd e)),
     blank = \<lparr>nt_event_id = \<lparr>sender_id = [], sequence_number = 0\<rparr>, nt_scope = [],
       nt_wire_schema = [], nt_data = [], nt_meta = ()\<rparr>,
     fillNotificationId = (\<lambda>e n. n\<lparr>nt_event_id :=
       \<lparr>sender_id = ''s'', sequence_number = of_nat (fst e)\<rparr>\<rparr>),
     fillNotificationHeader = (\<lambda>e schema n. n\<lparr>nt_scope := ''/a'', nt_wire_schema := schema\<rparr>)\<rparr>"

lemma sample_events_fill: "fills_notifications sample_scopes sample_events"
  by (simp add: fills_notifications_def sample_events_def sample_scopes_def)

lemmas sample_world_defs = sample_codec_def sample_scopes_def sample_events_def

end
