(* ===== verification/DeserializingHandler.thy ===== *)
theory DeserializingHandler
  imports PoolSafety SampleWorld
begin

text \<open>
  \<open>DeserializingHandler\<close> (\<open>DeserializingHandler.h\<close>, \<open>DeserializingHandler.cpp\<close>): from a received
  Spread message to a complete notification. Its state is the \<open>AssemblyPool\<close>. Parsing is a
  parameter (\<open>codec_api\<close>), so is the parsing constructor of \<open>Scope\<close>, which may throw.
\<close>

section \<open>The code\<close>

text \<open>The constructor makes a pool with the default arguments.\<close>

definition dh_new :: "exn + 'm assembly_pool" where
  "dh_new = default_pool"

definition dh_setPruning :: "bool \<Rightarrow> 'm assembly_pool \<Rightarrow> 'm assembly_pool" where
  "dh_setPruning pruning p = setPruning pruning p"

definition maybeJoinFragments ::
  "bool \<Rightarrow> int \<Rightarrow> 'm fragmented \<Rightarrow> 'm assembly_pool \<Rightarrow>
     ('m notification option, 'm assembly_pool) outcome" where
  "maybeJoinFragments dbg now f p =
     (if fn_num_data_parts f > 1 then pool_add dbg now f p
      else (Inr (Some (fn_notification f)), p))"

definition handleMessage ::
  "'m codec_api \<Rightarrow> 'sc scope_api \<Rightarrow> bool \<Rightarrow> int \<Rightarrow> spread_message \<Rightarrow> 'm assembly_pool \<Rightarrow>
     (('sc, 'm) transport_notification option, 'm assembly_pool) outcome" where
  "handleMessage ca sa dbg now m p =
     (if getType m \<noteq> REGULAR then (Inr None, p)
      else case parse ca (getData m) of
        None \<Rightarrow> (Inl (CommException ''Failed to parse notification in pbuf format''), p)
      | Some f \<Rightarrow>
          (case maybeJoinFragments dbg now f p of
             (Inl ex, p') \<Rightarrow> (Inl ex, p')
           | (Inr None, p') \<Rightarrow> (Inr None, p')
           | (Inr (Some n), p') \<Rightarrow>
               (case scope_parse sa (nt_scope n) of
                  Inl ex \<Rightarrow> (Inl ex, p')
                | Inr scope \<Rightarrow>
                    (Inr (Some \<lparr>nf_scope = scope, nf_wireSchema = nt_wire_schema n,
                       nf_serializedPayload = nt_data n, nf_notification = n\<rparr>), p'))))"

section \<open>Runs over many messages\<close>

text \<open>The messages of a connection, each with the time at which it is handled.\<close>

fun dh_run ::
  "'m codec_api \<Rightarrow> 'sc scope_api \<Rightarrow> bool \<Rightarrow> (int \<times> spread_message) list \<Rightarrow> 'm assembly_pool \<Rightarrow>
     (exn + ('sc, 'm) transport_notification option) list \<times> 'm assembly_pool" where
  "dh_run ca sa dbg [] p = ([], p)"
| "dh_run ca sa dbg ((now, m) # ms) p =
     (case handleMessage ca sa dbg now m p of (r, p1) \<Rightarrow>
        (case dh_run ca sa dbg ms p1 of (rs, p2) \<Rightarrow> (r # rs, p2)))"

text \<open>The fragment a message carries, if it is a regular message that can be parsed.\<close>

definition message_fragment :: "'m codec_api \<Rightarrow> spread_message \<Rightarrow> 'm fragmented option" where
  "message_fragment ca m = (if getType m = REGULAR then parse ca (getData m) else None)"

text \<open>The notification handed on for a complete notification.\<close>

definition incoming_notification ::
  "'sc scope_api \<Rightarrow> 'm notification \<Rightarrow> exn + ('sc, 'm) transport_notification option" where
  "incoming_notification sa n =
     (case scope_parse sa (nt_scope n) of
        Inl ex \<Rightarrow> Inl ex
      | Inr scope \<Rightarrow> Inr (Some \<lparr>nf_scope = scope, nf_wireSchema = nt_wire_schema n,
          nf_serializedPayload = nt_data n, nf_notification = n\<rparr>))"

fun incoming_result ::
  "'sc scope_api \<Rightarrow> exn + 'm notification option \<Rightarrow> exn + ('sc, 'm) transport_notification option" where
  "incoming_result sa (Inl ex) = Inl ex"
| "incoming_result sa (Inr None) = Inr None"
| "incoming_result sa (Inr (Some n)) = incoming_notification sa n"

lemma handleMessage_fragment:
  "message_fragment ca m = Some f \<Longrightarrow> handleMessage ca sa dbg now m p =
     (case maybeJoinFragments dbg now f p of (r, p') \<Rightarrow> (incoming_result sa r, p'))"
  by (auto simp: handleMessage_def message_fragment_def incoming_notification_def
      split: outcome_splits option.splits)

lemma handleMessage_no_fragment:
  "message_fragment ca m = None \<Longrightarrow> handleMessage ca sa dbg now m p =
     (if getType m = REGULAR then Inl (CommException ''Failed to parse notification in pbuf format'')
      else Inr None, p)"
  by (auto simp: handleMessage_def message_fragment_def split: if_splits)

text \<open>The messages that carry a part of the event of a key, and what is returned for them.\<close>

definition carries_key :: "'m codec_api \<Rightarrow> string \<Rightarrow> spread_message \<Rightarrow> bool" where
  "carries_key ca key m \<longleftrightarrow>
     (\<exists>f. message_fragment ca m = Some f \<and> pool_key f = key)"

definition messages_for ::
  "'m codec_api \<Rightarrow> string \<Rightarrow> (int \<times> spread_message) list \<Rightarrow> (int \<times> spread_message) list" where
  "messages_for ca key ms = filter (\<lambda>x. carries_key ca key (snd x)) ms"

definition answers_for ::
  "'m codec_api \<Rightarrow> string \<Rightarrow> (int \<times> spread_message) list \<Rightarrow> 'r list \<Rightarrow> 'r list" where
  "answers_for ca key ms rs =
     map snd (filter (\<lambda>(x, r). carries_key ca key (snd x)) (zip ms rs))"

lemma run_filters [simp]:
  "messages_for ca key [] = []"
  "messages_for ca key (x # ms) =
     (if carries_key ca key (snd x) then x # messages_for ca key ms else messages_for ca key ms)"
  "answers_for ca key [] rs = []"
  "answers_for ca key (x # ms) (r # rs) =
     (if carries_key ca key (snd x) then r # answers_for ca key ms rs else answers_for ca key ms rs)"
  by (simp_all add: messages_for_def answers_for_def)

section \<open>Projection to one event\<close>

text \<open>What a fragment does to the slot of its event: a part of several goes to the pool.\<close>

definition frag_step ::
  "bool \<Rightarrow> int \<Rightarrow> 'm fragmented \<Rightarrow> 'm assembly option \<Rightarrow>
     (exn + 'm notification option) \<times> 'm assembly option" where
  "frag_step dbg now f slot =
     (if fn_num_data_parts f > 1 then slot_add dbg now f slot
      else (Inr (Some (fn_notification f)), slot))"

fun frag_run ::
  "bool \<Rightarrow> (int \<times> 'm fragmented) list \<Rightarrow> 'm assembly option \<Rightarrow>
     (exn + 'm notification option) list \<times> 'm assembly option" where
  "frag_run dbg [] s = ([], s)"
| "frag_run dbg ((now, f) # xs) s =
     (case frag_step dbg now f s of (r, s1) \<Rightarrow>
        (case frag_run dbg xs s1 of (rs, s2) \<Rightarrow> (r # rs, s2)))"

definition fragments_of ::
  "'m codec_api \<Rightarrow> (int \<times> spread_message) list \<Rightarrow> (int \<times> 'm fragmented) list" where
  "fragments_of ca ms = map (\<lambda>(now, m). (now, the (message_fragment ca m))) ms"

lemma frag_run_pooled:
  "\<forall>x \<in> set xs. fn_num_data_parts (snd x) > 1 \<Longrightarrow> frag_run dbg xs s = slot_run dbg xs s"
  by (induction xs arbitrary: s) (auto simp: frag_step_def split: prod.splits)

lemma maybeJoin_slot:
  assumes "maybeJoinFragments dbg now f p = (r, p')"
  shows "frag_step dbg now f (map_of (pool p) (pool_key f)) = (r, map_of (pool p') (pool_key f))"
    and "key \<noteq> pool_key f \<Longrightarrow> map_of (pool p') key = map_of (pool p) key"
proof -
  have "r = fst (slot_add dbg now f (map_of (pool p) (pool_key f)))
      \<and> map_of (pool p') = (map_of (pool p))
          (pool_key f := snd (slot_add dbg now f (map_of (pool p) (pool_key f))))"
    if "fn_num_data_parts f > 1"
    using that assms pool_add_slot [of dbg now f p r p'] by (simp add: maybeJoinFragments_def)
  then show "frag_step dbg now f (map_of (pool p) (pool_key f)) = (r, map_of (pool p') (pool_key f))"
    and "key \<noteq> pool_key f \<Longrightarrow> map_of (pool p') key = map_of (pool p) key"
    using assms by (auto simp: frag_step_def maybeJoinFragments_def split: if_splits)
qed

lemma dh_run_slot:
  assumes "dh_run ca sa dbg ms p = (rs, p')"
  shows "answers_for ca key ms rs = map (incoming_result sa)
      (fst (frag_run dbg (fragments_of ca (messages_for ca key ms)) (map_of (pool p) key)))
    \<and> map_of (pool p') key
      = snd (frag_run dbg (fragments_of ca (messages_for ca key ms)) (map_of (pool p) key))"
  using assms
proof (induction ms arbitrary: p rs)
  case Nil
  then show ?case by (simp add: fragments_of_def)
next
  case (Cons x ms)
  obtain now m where x: "x = (now, m)" by (cases x)
  obtain r p1 where h: "handleMessage ca sa dbg now m p = (r, p1)" by (metis surj_pair)
  obtain rs1 where run: "dh_run ca sa dbg ms p1 = (rs1, p')" and rs: "rs = r # rs1"
    using Cons.prems x h by (auto split: prod.splits)
  note IH = Cons.IH [OF run]
  show ?case
  proof (cases "message_fragment ca m")
    case None
    then have "\<not> carries_key ca key m" "p1 = p"
      using h by (auto simp: carries_key_def handleMessage_no_fragment)
    with IH x rs show ?thesis by simp
  next
    case (Some f)
    obtain r1 where j: "maybeJoinFragments dbg now f p = (r1, p1)" and r: "r = incoming_result sa r1"
      using h handleMessage_fragment [OF Some, of sa dbg now p] by (auto split: prod.splits)
    note slot = maybeJoin_slot [OF j]
    show ?thesis
    proof (cases "pool_key f = key")
      case True
      then have "carries_key ca key m" using Some by (simp add: carries_key_def)
      moreover have "frag_step dbg now f (map_of (pool p) key) = (r1, map_of (pool p1) key)"
        using slot(1) True by simp
      ultimately show ?thesis using IH x rs r Some by (simp add: fragments_of_def split: prod.splits)
    next
      case False
      then have "\<not> carries_key ca key m" using Some by (simp add: carries_key_def)
      moreover have "map_of (pool p1) key = map_of (pool p) key" using slot(2) False by metis
      ultimately show ?thesis using IH x rs by simp
    qed
  qed
qed

section \<open>Messages in any order\<close>

lemma frag_run_split:
  assumes "is_split frs" and "mset (map snd xs) = mset frs" and "length frs < 2 ^ 32"
  shows "frag_run dbg xs None
    = (replicate (length frs - 1) (Inr None) @ [Inr (Some (join_parts frs))], None)"
proof (cases "length frs = 1")
  case True
  then obtain f where f: "frs = [f]" by (auto simp: length_Suc_conv)
  then obtain now where xs: "xs = [(now, f)]" using assms(2) by (cases xs) auto
  have "frag_total f = 1" using assms(1) f by (simp add: is_split_def)
  then have "\<not> fn_num_data_parts f > 1"
    by (simp add: frag_total_def word_less_nat_alt)
  then show ?thesis using f xs by (simp add: frag_step_def join_parts_def)
next
  case False
  have "fn_num_data_parts (snd x) > 1" if "x \<in> set xs" for x
  proof -
    have "snd x \<in> set frs" using that assms(2) by (metis image_eqI mset_eq_setD set_map)
    then have "frag_total (snd x) = length frs" by (rule is_split_mem(2) [OF assms(1)])
    moreover have "1 < length frs" using False assms(1) by (cases frs) (auto simp: is_split_def)
    ultimately show ?thesis by (simp add: frag_total_def word_less_nat_alt)
  qed
  then show ?thesis using frag_run_pooled slot_run_split [OF assms(1,2)] by metis
qed

lemma dh_run_split:
  assumes "is_split frs" and "length frs < 2 ^ 32"
    and "map_of (pool p) (pool_key (frs ! 0)) = None"
    and "mset (map (\<lambda>x. message_fragment ca (snd x)) (messages_for ca (pool_key (frs ! 0)) ms))
      = mset (map Some frs)"
    and "dh_run ca sa dbg ms p = (rs, p')"
  shows "answers_for ca (pool_key (frs ! 0)) ms rs
      = replicate (length frs - 1) (Inr None) @ [incoming_notification sa (join_parts frs)]
    \<and> map_of (pool p') (pool_key (frs ! 0)) = None"
proof -
  let ?xs = "fragments_of ca (messages_for ca (pool_key (frs ! 0)) ms)"
  have "map snd ?xs = map the (map (\<lambda>x. message_fragment ca (snd x))
      (messages_for ca (pool_key (frs ! 0)) ms))"
    by (simp add: fragments_of_def case_prod_beta)
  then have "mset (map snd ?xs) = image_mset the (mset (map Some frs))"
    using assms(4) by (simp only: mset_map)
  then have "mset (map snd ?xs) = mset frs" by (simp add: multiset.map_comp comp_def)
  from frag_run_split [OF assms(1) this assms(2), of dbg]
  show ?thesis using dh_run_slot [OF assms(5), of "pool_key (frs ! 0)"] assms(3) by simp
qed

text \<open>The handler reassembles events: when the messages that carry parts of one event are, in
  some order and interleaved with arbitrary other messages (other events, membership messages,
  garbage), exactly the parts of a split notification, the handler returns nothing for all of them
  but the last and then the notification of part 0 with the data of all parts in order, under the
  scope it names. Events of a single part never touch the pool.\<close>

lemma handler_reassembles:
  assumes "is_split frs" and "length frs < 2 ^ 32"
    and "map_of (pool p) (pool_key (frs ! 0)) = None"
    and "mset (map (\<lambda>x. message_fragment ca (snd x)) (messages_for ca (pool_key (frs ! 0)) ms))
      = mset (map Some frs)"
    and "dh_run ca sa dbg ms p = (rs, p')"
  shows "answers_for ca (pool_key (frs ! 0)) ms rs
      = replicate (length frs - 1) (Inr None) @ [incoming_notification sa (join_parts frs)]
    \<and> map_of (pool p') (pool_key (frs ! 0)) = None"
  by (rule dh_run_split [OF assms])

text \<open>A regular message that carries a fragment under the sample codec.\<close>

definition fragment_message :: "unit fragmented \<Rightarrow> spread_message" where
  "fragment_message f =
     \<lparr>mtype = REGULAR, mqos = FIFO, mdata = put_fragment f, mgroups = [''g'']\<rparr>"

lemma fragment_message_carries [simp]:
  "message_fragment sample_codec (fragment_message f) = Some f"
  "carries_key sample_codec key (fragment_message f) \<longleftrightarrow> pool_key f = key"
  by (simp_all add: message_fragment_def carries_key_def fragment_message_def getType_def
      getData_def sample_codec_def get_put_fragment)

lemma other_message_carries_nothing [simp]:
  "\<not> carries_key sample_codec key (message_of_type MEMBERSHIP)"
  by (simp add: carries_key_def message_fragment_def message_of_type_def getType_def)

lemma handler_reassembles_witness:
  "answers_for sample_codec (pool_key (sample_part 1 0 ''ab'' 2))
     [(0, fragment_message (sample_part 1 1 ''cd'' 2)), (1, message_of_type MEMBERSHIP),
      (2, fragment_message (sample_part 1 0 ''ab'' 2))]
     (fst (dh_run sample_codec sample_scopes True
       [(0, fragment_message (sample_part 1 1 ''cd'' 2)), (1, message_of_type MEMBERSHIP),
        (2, fragment_message (sample_part 1 0 ''ab'' 2))] sample_pool))
   = [Inr None, Inr (Some \<lparr>nf_scope = ''/'', nf_wireSchema = [], nf_serializedPayload = ''abcd'',
        nf_notification = (fn_notification (sample_part 1 0 ''ab'' 2))\<lparr>nt_data := ''abcd''\<rparr>\<rparr>)]"
proof -
  let ?frs = "[sample_part 1 0 ''ab'' 2, sample_part 1 1 ''cd'' 2]"
  let ?ms = "[(0, fragment_message (sample_part 1 1 ''cd'' 2)), (1, message_of_type MEMBERSHIP),
      (2, fragment_message (sample_part 1 0 ''ab'' 2))]"
  have k: "pool_key (sample_part 1 1 ''cd'' 2) = pool_key (sample_part 1 0 ''ab'' 2)"
    by (simp add: pool_key_def sample_defs)
  have split: "is_split ?frs"
    using k by (auto simp: is_split_def less_Suc_eq frag_defs sample_defs)
  obtain rs p' where run: "dh_run sample_codec sample_scopes True ?ms sample_pool = (rs, p')"
    by (metis surj_pair)
  have "answers_for sample_codec (pool_key (?frs ! 0)) ?ms rs
      = replicate (length ?frs - 1) (Inr None) @ [incoming_notification sample_scopes (join_parts ?frs)]
    \<and> map_of (pool p') (pool_key (?frs ! 0)) = None"
  proof (rule handler_reassembles [OF split _ _ _ run])
    show "mset (map (\<lambda>x. message_fragment sample_codec (snd x))
        (messages_for sample_codec (pool_key (?frs ! 0)) ?ms)) = mset (map Some ?frs)"
      using k by simp
  qed (simp_all add: sample_pool_def)
  with run show ?thesis
    by (simp add: join_parts_def sample_defs incoming_notification_def sample_scopes_def
        del: dh_run.simps run_filters)
qed

end
