(* ===== verification/ReceiverTask.thy ===== *)
theory ReceiverTask
  imports DeserializingHandler SpreadConnection
begin

text \<open>
  \<open>ReceiverTask\<close> (\<open>ReceiverTask.h\<close>, \<open>ReceiverTask.cpp\<close>): reads one message per execution, has it
  deserialised and hands complete notifications to its handler. The handler is an interface, so its
  two operations are a parameter (\<open>handler_ops\<close>) on a state \<open>'z\<close> of their own.

  The task is a \<open>RepetitiveTask\<close> of the RSC library: its thread executes it until it is cancelled;
  an exception that leaves \<open>execute\<close> leaves the thread. \<open>is_comm\<close> says which exceptions a
  \<open>catch (const rsb::CommException&)\<close> clause catches: whether \<open>ProtocolException\<close> derives from
  \<open>CommException\<close> is decided by the RSB core.
\<close>

section \<open>The code\<close>

record 'm receiver_task =
  messageHandler :: "'m assembly_pool"
  taskCancelled :: bool

record ('sc, 'm, 'z) handler_ops =
  h_handleIncomingNotification ::
    "('sc, 'm) transport_notification \<Rightarrow> 'z \<Rightarrow> (unit, 'z) outcome"
  h_handleError :: "exn \<Rightarrow> 'z \<Rightarrow> (unit, 'z) outcome"

type_synonym ('m, 'z) receiver_state = "'m receiver_task \<times> conn_state \<times> 'z"

definition rt_new :: "exn + 'm receiver_task" where
  "rt_new = (case dh_new of
     Inl ex \<Rightarrow> Inl ex
   | Inr p \<Rightarrow> Inr \<lparr>messageHandler = p, taskCancelled = False\<rparr>)"

definition rt_setPruning :: "bool \<Rightarrow> 'm receiver_task \<Rightarrow> 'm receiver_task" where
  "rt_setPruning pruning t = t\<lparr>messageHandler := dh_setPruning pruning (messageHandler t)\<rparr>"

definition rt_cancel :: "'m receiver_task \<Rightarrow> 'm receiver_task" where
  "rt_cancel t = t\<lparr>taskCancelled := True\<rparr>"

text \<open>What the \<open>catch\<close> clauses of the code catch.\<close>

definition comm_clause :: "(exn \<Rightarrow> bool) \<Rightarrow> bool" where
  "comm_clause is_comm \<longleftrightarrow> (\<forall>text. is_comm (CommException text)) \<and> \<not> is_comm ThreadInterrupted
     \<and> (\<forall>ex. is_comm ex \<longrightarrow> is_std_exception ex)"

definition rt_catch ::
  "(exn \<Rightarrow> bool) \<Rightarrow> ('sc, 'm, 'z) handler_ops \<Rightarrow> exn \<Rightarrow> ('m, 'z) receiver_state \<Rightarrow>
     (unit, ('m, 'z) receiver_state) outcome" where
  "rt_catch is_comm h ex st = (case st of (t, s, z) \<Rightarrow>
     if is_comm ex then
       (case h_handleError h ex z of
          (Inl ex', z') \<Rightarrow> (Inl ex', (t, s, z'))
        | (Inr _, z') \<Rightarrow> (Inr (), (rt_cancel t, s, z')))
     else if ex = ThreadInterrupted then (Inr (), (t, s, z))
     else (Inl ex, (t, s, z)))"

definition rt_execute ::
  "'m codec_api \<Rightarrow> 'sc scope_api \<Rightarrow> spread_api \<Rightarrow> bool \<Rightarrow> (exn \<Rightarrow> bool) \<Rightarrow>
     ('sc, 'm, 'z) handler_ops \<Rightarrow> int \<Rightarrow> ('m, 'z) receiver_state \<Rightarrow>
     (unit, ('m, 'z) receiver_state) outcome" where
  "rt_execute ca sa api dbg is_comm h now st = (case st of (t, s, z) \<Rightarrow>
     (case conn_receive api dbg message_new s of
        (Inl ex, (m, s')) \<Rightarrow> rt_catch is_comm h ex (t, s', z)
      | (Inr _, (m, s')) \<Rightarrow>
          (case handleMessage ca sa dbg now m (messageHandler t) of
             (Inl ex, p) \<Rightarrow> rt_catch is_comm h ex (t\<lparr>messageHandler := p\<rparr>, s', z)
           | (Inr None, p) \<Rightarrow> (Inr (), (t\<lparr>messageHandler := p\<rparr>, s', z))
           | (Inr (Some n), p) \<Rightarrow>
               (case h_handleIncomingNotification h n z of
                  (Inl ex, z') \<Rightarrow> rt_catch is_comm h ex (t\<lparr>messageHandler := p\<rparr>, s', z')
                | (Inr _, z') \<Rightarrow> (Inr (), (t\<lparr>messageHandler := p\<rparr>, s', z'))))))"

text \<open>
  The thread of the task for as many rounds as there are ticks: each round tests the cancellation
  flag and executes the task.
\<close>

fun receiver_run ::
  "'m codec_api \<Rightarrow> 'sc scope_api \<Rightarrow> spread_api \<Rightarrow> bool \<Rightarrow> (exn \<Rightarrow> bool) \<Rightarrow>
     ('sc, 'm, 'z) handler_ops \<Rightarrow> int list \<Rightarrow> ('m, 'z) receiver_state \<Rightarrow>
     (unit, ('m, 'z) receiver_state) outcome" where
  "receiver_run ca sa api dbg is_comm h [] st = (Inr (), st)"
| "receiver_run ca sa api dbg is_comm h (now # ticks) st =
     (if taskCancelled (fst st) then (Inr (), st)
      else andThen (rt_execute ca sa api dbg is_comm h now st)
             (\<lambda>_. receiver_run ca sa api dbg is_comm h ticks))"

lemma receiver_run_cancelled:
  "taskCancelled (fst st) \<Longrightarrow> receiver_run ca sa api dbg is_comm h ticks st = (Inr (), st)"
  by (cases ticks) auto

section \<open>The receiver hands on what the handler reassembles\<close>

text \<open>The messages of as many successful calls of \<open>receive\<close> as there are ticks.\<close>

fun reads ::
  "spread_api \<Rightarrow> bool \<Rightarrow> int list \<Rightarrow> conn_state \<Rightarrow> ((int \<times> spread_message) list \<times> conn_state) option" where
  "reads api dbg [] s = Some ([], s)"
| "reads api dbg (now # ticks) s =
     (case conn_receive api dbg message_new s of
        (Inl ex, _) \<Rightarrow> None
      | (Inr _, (m, s1)) \<Rightarrow>
          map_option (\<lambda>(ms, s2). ((now, m) # ms, s2)) (reads api dbg ticks s1))"

definition delivered :: "(exn + 'n option) list \<Rightarrow> 'n list" where
  "delivered rs = List.map_filter (\<lambda>r. case r of Inr (Some n) \<Rightarrow> Some n | _ \<Rightarrow> None) rs"

lemma delivered_simps [simp]:
  "delivered [] = []"
  "delivered (Inl ex # rs) = delivered rs"
  "delivered (Inr None # rs) = delivered rs"
  "delivered (Inr (Some n) # rs) = n # delivered rs"
  by (simp_all add: delivered_def map_filter_def)

lemma delivered_append [simp]: "delivered (rs @ rs') = delivered rs @ delivered rs'"
  by (simp add: delivered_def map_filter_def)

lemma delivered_nothing [simp]: "delivered (replicate k (Inr None)) = []"
  by (induction k) simp_all

text \<open>A handler whose \<open>handleIncomingNotification\<close> does not throw from states that satisfy \<open>P\<close> and keeps
  \<open>P\<close>; what it then does, as a function.\<close>

definition handler_keeps :: "('z \<Rightarrow> bool) \<Rightarrow> ('sc, 'm, 'z) handler_ops \<Rightarrow> bool" where
  "handler_keeps P h \<longleftrightarrow>
     (\<forall>n z. P z \<longrightarrow> (\<exists>z'. h_handleIncomingNotification h n z = (Inr (), z') \<and> P z'))"

definition hand_over ::
  "('sc, 'm, 'z) handler_ops \<Rightarrow> ('sc, 'm) transport_notification list \<Rightarrow> 'z \<Rightarrow> 'z" where
  "hand_over h ns z = fold (\<lambda>n z. snd (h_handleIncomingNotification h n z)) ns z"

text \<open>
  While \<open>receive\<close> succeeds and the handler neither rejects a message nor throws, the receiver's thread
  hands exactly the notifications the deserialising handler makes of the messages to its handler.
\<close>

lemma receiver_run_delivers:
  assumes "reads api dbg ticks s = Some (ms, s')"
    and "dh_run ca sa dbg ms (messageHandler t) = (rs, p')" and "\<forall>r \<in> set rs. \<exists>x. r = Inr x"
    and "handler_keeps P h" and "P z" and "\<not> taskCancelled t"
  shows "receiver_run ca sa api dbg is_comm h ticks (t, s, z)
    = (Inr (), (t\<lparr>messageHandler := p'\<rparr>, s', hand_over h (delivered rs) z))"
  using assms(1-3,5,6)
proof (induction ticks arbitrary: s ms t rs z)
  case Nil
  then show ?case by (simp add: hand_over_def)
next
  case (Cons now ticks)
  obtain m s1 where recv: "conn_receive api dbg message_new s = (Inr (), (m, s1))"
    using Cons.prems(1) by (auto split: prod.splits sum.splits)
  then obtain ms1 where reads: "reads api dbg ticks s1 = Some (ms1, s')" and ms: "ms = (now, m) # ms1"
    using Cons.prems(1) by auto
  obtain r p1 where h: "handleMessage ca sa dbg now m (messageHandler t) = (r, p1)"
    by (metis surj_pair)
  obtain rs1 where run: "dh_run ca sa dbg ms1 p1 = (rs1, p')" and rs: "rs = r # rs1"
    using Cons.prems(2) ms h by (auto split: prod.splits)
  have ok: "\<forall>r \<in> set rs1. \<exists>x. r = Inr x" using Cons.prems(3) rs by simp
  let ?t = "t\<lparr>messageHandler := p1\<rparr>"
  have IH: "receiver_run ca sa api dbg is_comm h ticks (?t, s1, z1)
      = (Inr (), (t\<lparr>messageHandler := p'\<rparr>, s', hand_over h (delivered rs1) z1))" if "P z1" for z1
    using Cons.IH [OF reads _ ok that, of ?t] run Cons.prems(5) by simp
  obtain x where r: "r = Inr x" using Cons.prems(3) rs by auto
  show ?case
  proof (cases x)
    case None
    then show ?thesis using Cons.prems(4,5) recv h r IH [of z] rs by (simp add: rt_execute_def)
  next
    case (Some n)
    obtain z1 where z1: "h_handleIncomingNotification h n z = (Inr (), z1)" "P z1"
      using assms(4) Cons.prems(4) unfolding handler_keeps_def by blast
    show ?thesis using Some Cons.prems(5) recv h r IH [of z1] rs z1
      by (simp add: rt_execute_def hand_over_def)
  qed
qed

text \<open>A library that delivers part 1 and then part 0 of an event, and a handler that keeps a list.\<close>

definition part_message :: "nat \<Rightarrow> sp_received" where
  "part_message i = sample_message\<lparr>rc_ret := 1000,
     rc_buf := put_fragment (sample_part 1 i (if i = 0 then ''ab'' else ''cd'') 2)\<rparr>"

definition parts_api :: spread_api where
  "parts_api = sample_api\<lparr>SP_receive := (\<lambda>w m. part_message (if w = [] then 1 else 0))\<rparr>"

definition list_handler :: "(string, unit, (string, unit) transport_notification list) handler_ops" where
  "list_handler = \<lparr>h_handleIncomingNotification = (\<lambda>n z. (Inr (), z @ [n])),
     h_handleError = (\<lambda>ex z. (Inr (), z))\<rparr>"

definition open_conn :: spread_connection where
  "open_conn = (conn_new False 7 ''localhost'' 4803)\<lparr>connected := True\<rparr>"

lemma length_put_field: "length (put_field s rest) = 2 * length s + 1 + length rest"
  by (induction s) auto

lemma word_field_digit: "unat w < 10 \<Longrightarrow> length (word_field w) = 1"
  by (simp add: word_field_def show_nat.simps [of "unat w"])

lemma part_message_data: "i < 2 \<Longrightarrow> take (nat (rc_ret (part_message i))) (rc_buf (part_message i))
    = put_fragment (sample_part 1 i (if i = 0 then ''ab'' else ''cd'') 2)"
  by (auto simp: part_message_def put_fragment_def sample_defs length_put_field word_field_digit
      less_2_cases_iff)

definition received_part :: "nat \<Rightarrow> spread_message" where
  "received_part i = \<lparr>mtype = REGULAR, mqos = UNRELIABLE,
     mdata = put_fragment (sample_part 1 i (if i = 0 then ''ab'' else ''cd'') 2), mgroups = [''g'']\<rparr>"

lemma conn_receive_part:
  assumes "i < 2" and "(w = []) = (i = 1)"
  shows "conn_receive parts_api True message_new (open_conn, w)
    = (Inr (), (received_part i, (open_conn, SpReceive 7 (part_message i) # w)))"
proof -
  have "SP_receive parts_api w 7 = part_message i"
    using assms by (auto simp: parts_api_def less_2_cases_iff)
  moreover have "rc_service (part_message i) = 2" "rc_numGroups (part_message i) = 1"
    "rc_groups (part_message i) 0 = ''g''" "0 \<le> rc_ret (part_message i)"
    by (simp_all add: part_message_def sample_message_def)
  moreover have "connected open_conn" "mailbox open_conn = 7" "privateGroup open_conn = []"
    by (simp_all add: open_conn_def conn_new_def)
  ultimately show ?thesis
    using part_message_data [OF assms(1)]
    by (simp add: conn_receive_def parts_api_def sample_api_def received_part_def addGroup_def
        message_accessors message_constructors c_str_def SPREAD_MAX_GROUPS_def
        insort_insert_key_def)
qed

lemma reads_parts: "reads parts_api True [0, 1] (open_conn, []) =
    Some ([(0, received_part 1), (1, received_part 0)],
      (open_conn, [SpReceive 7 (part_message 0), SpReceive 7 (part_message 1)]))"
  using conn_receive_part [of 1 "[]"] conn_receive_part [of 0 "[SpReceive 7 (part_message 1)]"]
  by simp

text \<open>What the handler makes of the two messages.\<close>

lemma dh_run_parts:
  "\<exists>n p'. dh_run sample_codec sample_scopes True [(0, received_part 1), (1, received_part 0)]
      sample_pool = ([Inr None, Inr (Some n)], p')
    \<and> nf_scope n = ''/'' \<and> nf_serializedPayload n = ''abcd''"
proof -
  let ?ms = "[(0, received_part 1), (1, received_part 0)]"
  let ?frs = "[sample_part 1 0 ''ab'' 2, sample_part 1 1 ''cd'' 2]"
  have k: "pool_key (sample_part 1 1 ''cd'' 2) = pool_key (sample_part 1 0 ''ab'' 2)"
    by (simp add: pool_key_def sample_defs)
  have split: "is_split ?frs"
    using k by (auto simp: is_split_def less_Suc_eq frag_defs sample_defs)
  have frag: "message_fragment sample_codec (received_part i)
      = Some (sample_part 1 i (if i = 0 then ''ab'' else ''cd'') 2)" for i
    by (simp add: message_fragment_def received_part_def getType_def getData_def sample_codec_def
        get_put_fragment)
  obtain rs p' where run: "dh_run sample_codec sample_scopes True ?ms sample_pool = (rs, p')"
    by (metis surj_pair)
  have carries: "carries_key sample_codec (pool_key (sample_part 1 0 ''ab'' 2)) (received_part i)"
    if "i < 2" for i
    using frag that k by (auto simp: carries_key_def less_2_cases_iff)
  have "length rs = 2" using run by (auto split: prod.splits)
  then have "answers_for sample_codec (pool_key (sample_part 1 0 ''ab'' 2)) ?ms rs = rs"
    using carries by (auto simp: numeral_2_eq_2 length_Suc_conv)
  moreover have "mset (map snd (fragments_of sample_codec ?ms)) = mset ?frs"
    by (simp add: fragments_of_def frag)
  then have "frag_run True (fragments_of sample_codec ?ms) None
      = (replicate (length ?frs - 1) (Inr None) @ [Inr (Some (join_parts ?frs))], None)"
    by (rule frag_run_split [OF split]) simp
  moreover have "messages_for sample_codec (pool_key (sample_part 1 0 ''ab'' 2)) ?ms = ?ms"
    using carries by simp
  moreover have "map_of (pool sample_pool) (pool_key (sample_part 1 0 ''ab'' 2)) = None"
    by (simp add: sample_pool_def)
  ultimately have rs: "rs = [Inr None, incoming_notification sample_scopes (join_parts ?frs)]"
    using dh_run_slot [OF run, of "pool_key (sample_part 1 0 ''ab'' 2)"] by simp
  moreover have "\<exists>n. incoming_notification sample_scopes (join_parts ?frs) = Inr (Some n)
      \<and> nf_scope n = ''/'' \<and> nf_serializedPayload n = ''abcd''"
    by (simp add: incoming_notification_def sample_scopes_def join_parts_def sample_defs)
  ultimately show ?thesis using run by auto
qed

section \<open>What ends the receiver\<close>

lemma rt_execute_handler_error:
  assumes "conn_receive api dbg message_new s = (Inr (), (m, s'))"
    and "handleMessage ca sa dbg now m (messageHandler t) = (Inl ex, p)"
  shows "rt_execute ca sa api dbg is_comm h now (t, s, z)
    = rt_catch is_comm h ex (t\<lparr>messageHandler := p\<rparr>, s', z)"
  using assms by (simp add: rt_execute_def)

text \<open>An exception of the \<open>CommException\<close> clause ends the loop after this message, any other but an
  interruption leaves the thread.\<close>

lemma receiver_run_error:
  assumes "conn_receive api dbg message_new s = (Inr (), (m, s'))"
    and "handleMessage ca sa dbg now m (messageHandler t) = (Inl ex, p)"
    and "\<not> taskCancelled t" and "ex \<noteq> ThreadInterrupted" and "h_handleError h ex z = (Inr (), z')"
  shows "receiver_run ca sa api dbg is_comm h (now # ticks) (t, s, z) =
    (if is_comm ex then (Inr (), (rt_cancel (t\<lparr>messageHandler := p\<rparr>), s', z'))
     else (Inl ex, (t\<lparr>messageHandler := p\<rparr>, s', z)))"
  using assms(3,4,5)
  by (simp add: rt_execute_handler_error [OF assms(1,2)] rt_catch_def receiver_run_cancelled
      rt_cancel_def)

text \<open>C33 One unparsable message ends reception: a regular message on a joined group whose payload
  is not a notification (any client of the daemon can send one) makes the receiver report the error
  and cancel itself. However long the thread could go on, it reads no further message.\<close>

theorem garbage_stops_receiver:
  assumes "conn_receive api dbg message_new s = (Inr (), (m, s'))" and "getType m = REGULAR"
    and "parse ca (getData m) = None" and "\<not> taskCancelled t" and "comm_clause is_comm"
    and "h_handleError h (CommException ''Failed to parse notification in pbuf format'') z = (Inr (), z')"
  shows "receiver_run ca sa api dbg is_comm h (now # ticks) (t, s, z)
    = (Inr (), (t\<lparr>taskCancelled := True\<rparr>, s', z'))"
proof -
  have "handleMessage ca sa dbg now m (messageHandler t)
      = (Inl (CommException ''Failed to parse notification in pbuf format''), messageHandler t)"
    using assms(2,3) by (simp add: handleMessage_def)
  from receiver_run_error [OF assms(1) this assms(4) _ assms(6)] assms(5)
  show ?thesis by (simp add: comm_clause_def rt_cancel_def)
qed

text \<open>A library whose messages no fragment can be parsed from.\<close>

lemma sample_receive_garbage:
  "conn_receive sample_api True message_new (open_conn, w)
    = (Inr (), (\<lparr>mtype = REGULAR, mqos = UNRELIABLE, mdata = ''abc'', mgroups = [''g'']\<rparr>,
        (open_conn, SpReceive 7 sample_message # w)))"
proof -
  have "connected open_conn" "mailbox open_conn = 7" "privateGroup open_conn = []"
    by (simp_all add: open_conn_def conn_new_def)
  then show ?thesis
    by (simp add: conn_receive_def sample_api_def sample_message_def addGroup_def message_accessors
        message_constructors c_str_def SPREAD_MAX_GROUPS_def insort_insert_key_def)
qed

theorem garbage_stops_receiver_witness:
  "receiver_run sample_codec sample_scopes sample_api True (\<lambda>ex. \<exists>text. ex = CommException text)
      list_handler [0, 1, 2, 3]
      (\<lparr>messageHandler = sample_pool, taskCancelled = False\<rparr>, (open_conn, []), [])
    = (Inr (), (\<lparr>messageHandler = sample_pool, taskCancelled = True\<rparr>,
        (open_conn, [SpReceive 7 sample_message]), []))"
proof -
  have "comm_clause (\<lambda>ex. \<exists>text. ex = CommException text)" by (auto simp: comm_clause_def)
  from garbage_stops_receiver [OF sample_receive_garbage _ _ _ this, of sample_codec
      "\<lparr>messageHandler = sample_pool, taskCancelled = False\<rparr>" list_handler "[]" "[]"
      sample_scopes 0 "[1, 2, 3]" "[]"]
  show ?thesis
    by (simp add: getType_def getData_def sample_codec_def get_fragment_def eval_nat_numeral
        list_handler_def del: receiver_run.simps)
qed

text \<open>C34 A duplicated fragment ends reception as well: the pool refuses the second copy with a
  \<open>ProtocolException\<close>, and either that is a \<open>CommException\<close>, then the receiver cancels itself, or
  it is not, then the exception leaves the receiver's thread. In both cases no further message is
  read.\<close>

theorem duplicate_fragment_stops_receiver:
  assumes "conn_receive api dbg message_new s = (Inr (), (m, s'))"
    and "message_fragment ca m = Some f" and "1 < frag_total f"
    and "map_of (pool (messageHandler t)) (pool_key f) = Some a"
    and "asm_parts a (frag_index f) \<noteq> None" and "frag_total f = length (store a)"
    and "\<not> taskCancelled t" and "h_handleError h (ProtocolException (twice_text f)) z = (Inr (), z')"
  shows "\<exists>r t' z1. receiver_run ca sa api dbg is_comm h (now # ticks) (t, s, z) = (r, (t', s', z1))
    \<and> (if is_comm (ProtocolException (twice_text f)) then r = Inr () \<and> taskCancelled t'
        else r = Inl (ProtocolException (twice_text f)))"
proof -
  have "frag_index f < length (store a)" using assms(5) by (auto simp: asm_parts_def split: if_splits)
  then have "assembly_add dbg f a = (Inl (ProtocolException (twice_text f)), a)"
    using assms(5,6) by (intro assembly_add_twice) simp_all
  moreover have "fn_num_data_parts f > 1"
    using assms(3) by (simp add: frag_total_def word_less_nat_alt)
  ultimately obtain p where "maybeJoinFragments dbg now f (messageHandler t)
      = (Inl (ProtocolException (twice_text f)), p)"
    using assms(4) by (simp add: maybeJoinFragments_def pool_add_def)
  then have "handleMessage ca sa dbg now m (messageHandler t)
      = (Inl (ProtocolException (twice_text f)), p)"
    by (simp add: handleMessage_fragment [OF assms(2)])
  from receiver_run_error [OF assms(1) this assms(7) _ assms(8)]
  show ?thesis by (simp add: rt_cancel_def)
qed

text \<open>A pool that already holds part 0.\<close>

definition half_pool :: "unit assembly_pool" where
  "half_pool = sample_pool\<lparr>pool := [(pool_key (sample_part 1 0 ''ab'' 2),
     \<lparr>receivedParts = 1, store = [Some (sample_part 1 0 ''ab'' 2), None], birthTime = 0\<rparr>)]\<rparr>"

theorem duplicate_fragment_stops_receiver_witness:
  "\<exists>t' z1. receiver_run sample_codec sample_scopes parts_api True (\<lambda>ex. True) list_handler [0, 1, 2]
      (\<lparr>messageHandler = half_pool, taskCancelled = False\<rparr>, (open_conn, [SpReceive 7 sample_message]), [])
    = (Inr (), (t', (open_conn, [SpReceive 7 (part_message 0), SpReceive 7 sample_message]), z1))
    \<and> taskCancelled t'"
proof -
  let ?f = "sample_part 1 0 ''ab'' 2"
  let ?a = "\<lparr>receivedParts = 1, store = [Some ?f, None], birthTime = 0\<rparr> :: unit assembly"
  let ?t = "\<lparr>messageHandler = half_pool, taskCancelled = False\<rparr>"
  have recv: "conn_receive parts_api True message_new (open_conn, [SpReceive 7 sample_message])
      = (Inr (), (received_part 0,
          (open_conn, [SpReceive 7 (part_message 0), SpReceive 7 sample_message])))"
    by (rule conn_receive_part) simp_all
  have frag: "message_fragment sample_codec (received_part 0) = Some ?f"
    by (simp add: message_fragment_def received_part_def getType_def getData_def sample_codec_def
        get_put_fragment)
  have tot: "1 < frag_total ?f" "frag_total ?f = length (store ?a)" "frag_index ?f = 0"
    by (simp_all add: frag_defs sample_defs)
  have slot: "map_of (pool (messageHandler ?t)) (pool_key ?f) = Some ?a"
    by (simp add: half_pool_def)
  have parts: "asm_parts ?a (frag_index ?f) \<noteq> None" unfolding tot(3) by (simp add: asm_parts_def)
  have err: "h_handleError list_handler (ProtocolException (twice_text ?f)) [] = (Inr (), [])"
    by (simp add: list_handler_def)
  from duplicate_fragment_stops_receiver [OF recv frag tot(1) slot parts tot(2) _ err,
      of sample_scopes "\<lambda>ex. True" 0 "[1, 2]"]
  show ?thesis by (simp del: receiver_run.simps)
qed

end
