(* ===== verification/BusImpl.thy ===== *)
theory BusImpl
  imports MembershipManager OutConnector ReceiverTask
begin

text \<open>
  \<open>BusImpl\<close> (\<open>Bus.h\<close>, \<open>Bus.cpp\<close>, \<open>BusImpl.h\<close>, \<open>BusImpl.cpp\<close>): one connection, its group
  memberships, the receiver task and the local sinks. \<open>WeakScopeDispatcher\<close> of the RSB core is a
  parameter (\<open>dispatcher_api\<close>) with a state of its own, a sink is a number, and the operations of
  \<open>Bus::Sink\<close> are a parameter (\<open>sink_ops\<close>) on the state \<open>'z\<close> of all sinks. Each block under
  \<open>sinkMutex\<close> is one step.
\<close>

section \<open>Sinks and the dispatcher\<close>

record ('sc, 'm, 'z) sink_ops =
  sink_alive :: "'z \<Rightarrow> nat \<Rightarrow> bool"
  sink_handleNotification ::
    "nat \<Rightarrow> ('sc, 'm) transport_notification \<Rightarrow> 'z \<Rightarrow> (unit, 'z) outcome"
  sink_handleError :: "nat \<Rightarrow> exn \<Rightarrow> 'z \<Rightarrow> (unit, 'z) outcome"

text \<open>
  The dispatcher holds weak pointers, so what it maps over depends on which sinks are alive.
\<close>

record ('d, 'sc) dispatcher_api =
  disp_new :: "'d"
  disp_addSink :: "'sc \<Rightarrow> nat \<Rightarrow> 'd \<Rightarrow> 'd"
  disp_removeSink :: "'sc \<Rightarrow> nat \<Rightarrow> 'd \<Rightarrow> 'd"
  disp_size :: "'d \<Rightarrow> nat"
  disp_sinks :: "(nat \<Rightarrow> bool) \<Rightarrow> 'sc \<Rightarrow> 'd \<Rightarrow> nat list"
  disp_allSinks :: "(nat \<Rightarrow> bool) \<Rightarrow> 'd \<Rightarrow> nat list"

text \<open>\<open>mapSinks\<close> applies the functor to one sink after the other; an exception ends the loop.\<close>

fun map_sinks :: "(nat \<Rightarrow> 'z \<Rightarrow> (unit, 'z) outcome) \<Rightarrow> nat list \<Rightarrow> 'z \<Rightarrow> (unit, 'z) outcome" where
  "map_sinks f [] z = (Inr (), z)"
| "map_sinks f (k # ks) z = andThen (f k z) (\<lambda>_. map_sinks f ks)"

section \<open>State\<close>

record ('m, 'd) bus =
  bus_active :: bool
  connection :: spread_connection
  memberships :: group_map
  receiver :: "'m receiver_task option"
  scopeDispatcher :: "'d"

type_synonym ('m, 'd, 'z) bus_state = "('m, 'd) bus \<times> history \<times> 'z"

definition bus_new ::
  "('d, 'sc) dispatcher_api \<Rightarrow> spread_connection \<Rightarrow> ('m, 'd) bus" where
  "bus_new da c = \<lparr>bus_active = False, connection = c, memberships = mm_new, receiver = None,
     scopeDispatcher = disp_new da\<rparr>"

definition bus_create :: "('d, 'sc) dispatcher_api \<Rightarrow> spread_connection \<Rightarrow> ('m, 'd) bus" where
  "bus_create da c = bus_new da c"

definition bus_printContents :: "('d, 'sc) dispatcher_api \<Rightarrow> ('m, 'd) bus \<Rightarrow> string" where
  "bus_printContents da b = ''connection = '' @ conn_printContents (connection b)
     @ '', state = '' @ (if bus_active b then [] else ''not '') @ ''active''
     @ '', sinks = '' @ show_nat (disp_size da (scopeDispatcher b))"

definition bus_getTransportURL :: "('m, 'd) bus \<Rightarrow> string" where
  "bus_getTransportURL b = conn_getTransportURL (connection b)"

section \<open>Activation\<close>

text \<open>
  \<open>activate\<close> creates the receiver task and schedules it. If the connection refuses, the exception
  leaves the bus inactive.
\<close>

definition bus_activate ::
  "spread_api \<Rightarrow> ('m, 'd, 'z) bus_state \<Rightarrow> (unit, ('m, 'd, 'z) bus_state) outcome" where
  "bus_activate api st = (case st of (b, w, z) \<Rightarrow>
     if bus_active b then (Inl (IllegalStateException ''Bus is already active''), (b, w, z))
     else
       (case conn_activate api (connection b, w) of
          (Inl ex, (c, w')) \<Rightarrow> (Inl ex, (b\<lparr>connection := c\<rparr>, w', z))
        | (Inr _, (c, w')) \<Rightarrow>
            (case rt_new of
               Inl ex \<Rightarrow> (Inl ex, (b\<lparr>connection := c\<rparr>, w', z))
             | Inr t \<Rightarrow>
                 (Inr (), (b\<lparr>connection := c, receiver := Some t, bus_active := True\<rparr>, w', z)))))"

text \<open>
  \<open>deactivate\<close> up to the call of \<open>waitDone\<close>, and what it does after the receiver's thread has
  ended. Between the two the thread runs on, see the transition system.
\<close>

definition bus_deactivate_begin ::
  "spread_api \<Rightarrow> ('m, 'd, 'z) bus_state \<Rightarrow> (unit, ('m, 'd, 'z) bus_state) outcome" where
  "bus_deactivate_begin api st = (case st of (b, w, z) \<Rightarrow>
     if \<not> bus_active b then (Inl (IllegalStateException ''Bus is not active''), (b, w, z))
     else
       let b1 = b\<lparr>receiver := map_option rt_cancel (receiver b)\<rparr>
       in case conn_interruptReceive api (connection b1, w) of
            (r, (c, w')) \<Rightarrow> (r, (b1\<lparr>connection := c\<rparr>, w', z)))"

definition bus_deactivate_end ::
  "('m, 'd, 'z) bus_state \<Rightarrow> (unit, ('m, 'd, 'z) bus_state) outcome" where
  "bus_deactivate_end st = (case st of (b, w, z) \<Rightarrow>
     (case conn_deactivate (connection b, w) of
        (Inl ex, (c, w')) \<Rightarrow> (Inl ex, (b\<lparr>connection := c\<rparr>, w', z))
      | (Inr _, (c, w')) \<Rightarrow> (Inr (), (b\<lparr>connection := c, bus_active := False\<rparr>, w', z))))"

text \<open>
  The whole call: \<open>wait\<close> is what the receiver's thread still does while \<open>waitDone\<close> blocks. The
  destructor deactivates an active bus.
\<close>

definition bus_deactivate ::
  "spread_api \<Rightarrow> (('m, 'd, 'z) bus_state \<Rightarrow> ('m, 'd, 'z) bus_state) \<Rightarrow> ('m, 'd, 'z) bus_state
     \<Rightarrow> (unit, ('m, 'd, 'z) bus_state) outcome" where
  "bus_deactivate api wait st =
     andThen (bus_deactivate_begin api st) (\<lambda>_ st1. bus_deactivate_end (wait st1))"

definition bus_destroy ::
  "spread_api \<Rightarrow> (('m, 'd, 'z) bus_state \<Rightarrow> ('m, 'd, 'z) bus_state) \<Rightarrow> ('m, 'd, 'z) bus_state
     \<Rightarrow> (unit, ('m, 'd, 'z) bus_state) outcome" where
  "bus_destroy api wait st =
     (if bus_active (fst st) then bus_deactivate api wait st else (Inr (), st))"

section \<open>Adding and removing sinks\<close>

definition bus_addSink ::
  "'sc scope_api \<Rightarrow> spread_api \<Rightarrow> ('d, 'sc) dispatcher_api \<Rightarrow> 'sc \<Rightarrow> nat
     \<Rightarrow> ('m, 'd, 'z) bus_state \<Rightarrow> (unit, ('m, 'd, 'z) bus_state) outcome" where
  "bus_addSink sa api da scope sink st = (case st of (b, w, z) \<Rightarrow>
     (case mm_join (conn_join api) (scopeToGroup sa (MAX_GROUP_NAME api) scope)
             (memberships b, (connection b, w)) of
        (Inl ex, (gm, (c, w'))) \<Rightarrow> (Inl ex, (b\<lparr>memberships := gm, connection := c\<rparr>, w', z))
      | (Inr _, (gm, (c, w'))) \<Rightarrow>
          (Inr (), (b\<lparr>memberships := gm, connection := c,
             scopeDispatcher := disp_addSink da scope sink (scopeDispatcher b)\<rparr>, w', z))))"

definition bus_removeSink ::
  "'sc scope_api \<Rightarrow> spread_api \<Rightarrow> bool \<Rightarrow> ('d, 'sc) dispatcher_api \<Rightarrow> 'sc \<Rightarrow> nat
     \<Rightarrow> ('m, 'd, 'z) bus_state \<Rightarrow> (unit, ('m, 'd, 'z) bus_state) outcome" where
  "bus_removeSink sa api dbg da scope sink st = (case st of (b, w, z) \<Rightarrow>
     let b1 = b\<lparr>scopeDispatcher := disp_removeSink da scope sink (scopeDispatcher b)\<rparr>
     in case mm_leave dbg (conn_leave api) (scopeToGroup sa (MAX_GROUP_NAME api) scope)
               (memberships b1, (connection b1, w)) of
          (r, (gm, (c, w'))) \<Rightarrow> (r, (b1\<lparr>memberships := gm, connection := c\<rparr>, w', z)))"

section \<open>Sending\<close>

text \<open>
  The loop over the fragments. \<open>n\<close> is the number of fragments; \<open>set_num_data_parts\<close> takes a
  \<open>uint32\<close>. The message object keeps its groups and is refilled with each fragment's bytes.
\<close>

fun send_fragments ::
  "'m codec_api \<Rightarrow> spread_api \<Rightarrow> bool \<Rightarrow> nat \<Rightarrow> 'm fragmented list \<Rightarrow> spread_message
     \<Rightarrow> conn_state \<Rightarrow> (unit, conn_state) outcome" where
  "send_fragments ca api dbg n [] m s = (Inr (), s)"
| "send_fragments ca api dbg n (f # fs) m s =
     (case serialize ca (f\<lparr>fn_num_data_parts := of_nat n\<rparr>) of
        None \<Rightarrow> (Inl (ProtocolException ''Failed to write notification to stream''), s)
      | Some bytes \<Rightarrow>
          andThen (conn_send api dbg (setData bytes m) s)
            (\<lambda>_. send_fragments ca api dbg n fs (setData bytes m)))"

definition sendNotification ::
  "'m codec_api \<Rightarrow> spread_api \<Rightarrow> bool \<Rightarrow> ('sc, 'm) outgoing_notification
     \<Rightarrow> ('m, 'd) bus \<times> history \<Rightarrow> (unit, ('m, 'd) bus \<times> history) outcome" where
  "sendNotification ca api dbg n s = (case s of (b, w) \<Rightarrow>
     (case addGroups (MAX_GROUP_NAME api) (on_groups n) (setQOS (on_qos n) message_new) of
        (Inl ex, m) \<Rightarrow> (Inl ex, (b, w))
      | (Inr _, m) \<Rightarrow>
          (case send_fragments ca api dbg (length (on_fragments n)) (on_fragments n) m
                  (connection b, w) of
             (r, (c, w')) \<Rightarrow> (r, (b\<lparr>connection := c\<rparr>, w')))))"

definition bus_handleOutgoing ::
  "'m codec_api \<Rightarrow> spread_api \<Rightarrow> bool \<Rightarrow> ('d, 'sc) dispatcher_api \<Rightarrow> ('sc, 'm, 'z) sink_ops
     \<Rightarrow> ('sc, 'm) outgoing_notification \<Rightarrow> ('m, 'd, 'z) bus_state
     \<Rightarrow> (unit, ('m, 'd, 'z) bus_state) outcome" where
  "bus_handleOutgoing ca api dbg da so n st = (case st of (b, w, z) \<Rightarrow>
     (case sendNotification ca api dbg n (b, w) of
        (Inl ex, (b', w')) \<Rightarrow> (Inl ex, (b', w', z))
      | (Inr _, (b', w')) \<Rightarrow>
          (case map_sinks (\<lambda>k. sink_handleNotification so k (as_notification n))
                  (disp_sinks da (sink_alive so z) (nf_scope n) (scopeDispatcher b')) z of
             (r, z') \<Rightarrow> (r, (b', w', z')))))"

section \<open>Receiving\<close>

definition bus_handleIncoming ::
  "('d, 'sc) dispatcher_api \<Rightarrow> ('sc, 'm, 'z) sink_ops \<Rightarrow> 'd
     \<Rightarrow> ('sc, 'm) transport_notification \<Rightarrow> 'z \<Rightarrow> (unit, 'z) outcome" where
  "bus_handleIncoming da so d n z =
     map_sinks (\<lambda>k. sink_handleNotification so k n) (disp_sinks da (sink_alive so z) (nf_scope n) d) z"

definition bus_handleError ::
  "('d, 'sc) dispatcher_api \<Rightarrow> ('sc, 'm, 'z) sink_ops \<Rightarrow> 'd \<Rightarrow> exn \<Rightarrow> 'z \<Rightarrow> (unit, 'z) outcome" where
  "bus_handleError da so d ex z =
     map_sinks (\<lambda>k. sink_handleError so k ex) (disp_allSinks da (sink_alive so z) d) z"

text \<open>
  \<open>WeakHandlerAdapter\<close>: the receiver's handler. \<open>locked\<close> says whether the bus is still alive; a
  dead bus is not called. The receiver holds no lock of the bus, so what the bus looks like is read
  when a message is handled.
\<close>

definition weak_handler ::
  "('d, 'sc) dispatcher_api \<Rightarrow> ('sc, 'm, 'z) sink_ops \<Rightarrow> 'd option \<Rightarrow> ('sc, 'm, 'z) handler_ops" where
  "weak_handler da so locked =
     \<lparr>h_handleIncomingNotification = (\<lambda>n z. case locked of
          None \<Rightarrow> (Inr (), z) | Some d \<Rightarrow> bus_handleIncoming da so d n z),
      h_handleError = (\<lambda>ex z. case locked of
          None \<Rightarrow> (Inr (), z) | Some d \<Rightarrow> bus_handleError da so d ex z)\<rparr>"

section \<open>What a sent notification leaves in the network\<close>

lemma fill_groupNames_Inr:
  "fill_groupNames maxg dbg i gs = Inr rows \<Longrightarrow> rows = map c_str gs"
  by (induction gs arbitrary: i rows) (auto split: if_splits sum.splits)

lemma conn_send_Inr:
  assumes "conn_send api dbg m (c, w) = (Inr x, (c', w'))"
  shows "c' = c" and "sent w' =
    (map c_str (mgroups m), or (qos_code (mqos m)) (SELF_DISCARD api), mdata m) # sent w"
proof -
  show "c' = c" by (rule conn_send_frame [OF assms])
  show "sent w' =
    (map c_str (mgroups m), or (qos_code (mqos m)) (SELF_DISCARD api), mdata m) # sent w"
  proof (cases "length (mgroups m) = 1")
    case True
    then obtain g where "mgroups m = [g]" by (auto simp: length_Suc_conv)
    with assms show ?thesis
      by (auto simp: conn_send_def send_result_def message_accessors Let_def split: if_splits)
  next
    case False
    with assms show ?thesis
      by (auto simp: conn_send_def send_result_def message_accessors Let_def
          dest!: fill_groupNames_Inr split: if_splits sum.splits)
  qed
qed

text \<open>The packets of a notification: its groups and service, and one serialised fragment each.\<close>

definition posts ::
  "'m codec_api \<Rightarrow> spread_api \<Rightarrow> ('sc, 'm) outgoing_notification
     \<Rightarrow> (string list \<times> 32 word \<times> string) list \<Rightarrow> bool" where
  "posts ca api n ps \<longleftrightarrow> (\<exists>gs. set gs = c_str ` set (on_groups n)
     \<and> (\<forall>p \<in> set ps. fst p = gs \<and> fst (snd p) = or (qos_code (on_qos n)) (SELF_DISCARD api)))
     \<and> map (\<lambda>p. Some (snd (snd p))) ps
       = map (\<lambda>f. serialize ca (f\<lparr>fn_num_data_parts := of_nat (length (on_fragments n))\<rparr>))
           (on_fragments n)"

lemma send_fragments_sent:
  assumes "send_fragments ca api dbg k fs m (c, w) = (Inr x, (c', w'))"
  shows "c' = c \<and> (\<exists>ps. sent w' = rev ps @ sent w
    \<and> (\<forall>p \<in> set ps. fst p = map c_str (mgroups m)
        \<and> fst (snd p) = or (qos_code (mqos m)) (SELF_DISCARD api))
    \<and> map (\<lambda>p. Some (snd (snd p))) ps = map (\<lambda>f. serialize ca (f\<lparr>fn_num_data_parts := of_nat k\<rparr>)) fs)"
  using assms
proof (induction fs arbitrary: m c w)
  case Nil
  then show ?case by auto
next
  case (Cons f fs)
  obtain bytes where b: "serialize ca (f\<lparr>fn_num_data_parts := of_nat k\<rparr>) = Some bytes"
    using Cons.prems by (auto split: option.splits)
  obtain y c1 w1 where send: "conn_send api dbg (setData bytes m) (c, w) = (Inr y, (c1, w1))"
    and rest: "send_fragments ca api dbg k fs (setData bytes m) (c1, w1) = (Inr x, (c', w'))"
    using Cons.prems b by (auto simp: andThen_Inr_iff)
  obtain ps where ps: "c' = c1" "sent w' = rev ps @ sent w1"
    "\<forall>p \<in> set ps. fst p = map c_str (mgroups m)
        \<and> fst (snd p) = or (qos_code (mqos m)) (SELF_DISCARD api)"
    "map (\<lambda>p. Some (snd (snd p))) ps = map (\<lambda>f. serialize ca (f\<lparr>fn_num_data_parts := of_nat k\<rparr>)) fs"
    using Cons.IH [OF rest] by (auto simp: setData_def)
  let ?p = "(map c_str (mgroups m), or (qos_code (mqos m)) (SELF_DISCARD api), bytes)"
  have "sent w' = rev (?p # ps) @ sent w"
    using conn_send_Inr(2) [OF send] ps(2) by (simp add: setData_def)
  then show ?case
    using ps b conn_send_Inr(1) [OF send] by (intro conjI exI [of _ "?p # ps"]) simp_all
qed

lemma addGroups_Inr:
  "addGroups maxg gs m = (Inr x, m') \<Longrightarrow> set (mgroups m') = set (mgroups m) \<union> set gs
     \<and> mqos m' = mqos m"
  by (induction gs arbitrary: m)
    (auto simp: andThen_Inr_iff addGroup_def set_insort_insert split: if_splits)

lemma bus_handleOutgoing_posts:
  assumes "bus_handleOutgoing ca api dbg da so n (b, w, z) = (Inr x, (b', w', z'))"
  shows "\<exists>ps. posts ca api n ps \<and> sent w' = rev ps @ sent w"
proof -
  obtain b1 w1 where send: "sendNotification ca api dbg n (b, w) = (Inr (), (b1, w1))"
    and w: "w' = w1"
    using assms by (auto simp: bus_handleOutgoing_def split: prod.splits sum.splits)
  obtain m where m: "addGroups (MAX_GROUP_NAME api) (on_groups n) (setQOS (on_qos n) message_new)
      = (Inr (), m)"
    using send by (auto simp: sendNotification_def split: prod.splits sum.splits)
  then obtain c1 where "send_fragments ca api dbg (length (on_fragments n)) (on_fragments n) m
      (connection b, w) = (Inr (), (c1, w1))"
    using send by (auto simp: sendNotification_def split: prod.splits)
  from send_fragments_sent [OF this] obtain ps where ps: "sent w1 = rev ps @ sent w"
    "\<forall>p \<in> set ps. fst p = map c_str (mgroups m)
        \<and> fst (snd p) = or (qos_code (mqos m)) (SELF_DISCARD api)"
    "map (\<lambda>p. Some (snd (snd p))) ps
      = map (\<lambda>f. serialize ca (f\<lparr>fn_num_data_parts := of_nat (length (on_fragments n))\<rparr>))
          (on_fragments n)"
    by blast
  have "set (mgroups m) = set (on_groups n)" "mqos m = on_qos n"
    using addGroups_Inr [OF m] by (simp_all add: message_accessors message_constructors)
  with ps(2,3) have "posts ca api n ps"
    unfolding posts_def by (intro conjI exI [of _ "map c_str (mgroups m)"]) simp_all
  with ps(1) w show ?thesis by blast
qed

interpretation bus: message_bus "bus_handleOutgoing ca api dbg da so" "\<lambda>st. sent (fst (snd st))"
  "posts ca api" for ca api dbg da so
  by unfold_locales (use bus_handleOutgoing_posts in \<open>fastforce\<close>)

section \<open>What a sink holds\<close>

text \<open>Adding and removing a sink are a join and a leave of the scope's group.\<close>

lemma bus_addSink_cases:
  assumes "bus_addSink sa api da scope sink (b, w, z) = (r, (b', w', z'))"
  obtains gm c where "mm_join (conn_join api) (scopeToGroup sa (MAX_GROUP_NAME api) scope)
      (memberships b, (connection b, w)) = (r, (gm, (c, w')))"
    and "memberships b' = gm" and "connection b' = c" and "bus_active b' = bus_active b"
    and "receiver b' = receiver b"
  using assms by (auto simp: bus_addSink_def split: prod.splits sum.splits)

lemma bus_removeSink_cases:
  assumes "bus_removeSink sa api dbg da scope sink (b, w, z) = (r, (b', w', z'))"
  obtains gm c where "mm_leave dbg (conn_leave api) (scopeToGroup sa (MAX_GROUP_NAME api) scope)
      (memberships b, (connection b, w)) = (r, (gm, (c, w')))"
    and "memberships b' = gm" and "connection b' = c" and "bus_active b' = bus_active b"
    and "receiver b' = receiver b"
  using assms by (auto simp: bus_removeSink_def Let_def split: prod.splits)

lemma bus_addSink_references:
  assumes "bus_addSink sa api da scope sink (b, w, z) = (r, (b', w', z'))"
    and "mm_inv (memberships b)" and "size (mm_abs (memberships b)) < max_refs"
  shows "mm_inv (memberships b') \<and> mm_abs (memberships b') = (case r of Inl _ \<Rightarrow> mm_abs (memberships b)
    | Inr _ \<Rightarrow> add_mset (scopeToGroup sa (MAX_GROUP_NAME api) scope) (mm_abs (memberships b)))"
proof -
  obtain gm c where join: "mm_join (conn_join api) (scopeToGroup sa (MAX_GROUP_NAME api) scope)
      (memberships b, (connection b, w)) = (r, (gm, (c, w')))" and b': "memberships b' = gm"
    by (rule bus_addSink_cases [OF assms(1)])
  have "count (mm_abs (memberships b)) (scopeToGroup sa (MAX_GROUP_NAME api) scope) < max_refs"
    by (rule le_less_trans [OF count_le_size assms(3)])
  from mm_join_abs [OF join assms(2) this] show ?thesis by (simp add: b')
qed

lemma bus_removeSink_references:
  assumes "bus_removeSink sa api dbg da scope sink (b, w, z) = (r, (b', w', z'))"
    and "mm_inv (memberships b)"
  shows "mm_inv (memberships b') \<and> mm_abs (memberships b')
    = mm_abs (memberships b) - {#scopeToGroup sa (MAX_GROUP_NAME api) scope#}"
proof -
  obtain gm c where leave: "mm_leave dbg (conn_leave api) (scopeToGroup sa (MAX_GROUP_NAME api) scope)
      (memberships b, (connection b, w)) = (r, (gm, (c, w')))" and b': "memberships b' = gm"
    by (rule bus_removeSink_cases [OF assms(1)])
  from mm_leave_abs [OF leave assms(2)] show ?thesis by (simp add: b')
qed

interpretation registry: sink_registry
  "bus_addSink sa api da" "bus_removeSink sa api dbg da" "\<lambda>st. mm_abs (memberships (fst st))"
  "scopeToGroup sa (MAX_GROUP_NAME api)" "\<lambda>st. mm_inv (memberships (fst st))"
  "\<lambda>st. size (mm_abs (memberships (fst st))) < max_refs"
  for sa api dbg da
proof unfold_locales
  show "mm_inv (memberships (fst st')) \<and> mm_abs (memberships (fst st'))
      = add_mset (scopeToGroup sa (MAX_GROUP_NAME api) s) (mm_abs (memberships (fst st)))"
    if "mm_inv (memberships (fst st))" "size (mm_abs (memberships (fst st))) < max_refs"
      "bus_addSink sa api da s k st = (Inr x, st')" for st s k x st'
    using bus_addSink_references [of sa api da s k "fst st" "fst (snd st)" "snd (snd st)" "Inr x"
        "fst st'" "fst (snd st')" "snd (snd st')"] that by simp
  show "mm_inv (memberships (fst st')) \<and> mm_abs (memberships (fst st')) = mm_abs (memberships (fst st))"
    if "mm_inv (memberships (fst st))" "size (mm_abs (memberships (fst st))) < max_refs"
      "bus_addSink sa api da s k st = (Inl e, st')" for st s k e st'
    using bus_addSink_references [of sa api da s k "fst st" "fst (snd st)" "snd (snd st)" "Inl e"
        "fst st'" "fst (snd st')" "snd (snd st')"] that by simp
  show "mm_inv (memberships (fst st')) \<and> mm_abs (memberships (fst st'))
      = mm_abs (memberships (fst st)) - {#scopeToGroup sa (MAX_GROUP_NAME api) s#}"
    if "mm_inv (memberships (fst st))" "bus_removeSink sa api dbg da s k st = (r, st')" for st s k r st'
    using bus_removeSink_references [of sa api dbg da s k "fst st" "fst (snd st)" "snd (snd st)" r
        "fst st'" "fst (snd st')" "snd (snd st')"] that by simp
qed

end
