(* ===== verification/Fragmentation.thy ===== *)
theory Fragmentation
  imports OutConnector SampleWorld
begin

text \<open>
  What the fragments of \<open>OutConnector\<close> carry: their data is the payload in order, they are numbered
  from 0, and each fits into the configured size together with its header. The limits of the 32 bit
  arithmetic are stated: a payload that is too long, and a maximal size below the reserved space.
\<close>

section \<open>The loop after the first fragment\<close>

definition fragment_fits :: "'m codec_api \<Rightarrow> 'm notification \<Rightarrow> 32 word \<Rightarrow> 'm fragmented \<Rightarrow> bool" where
  "fragment_fits ca n maxSize f \<longleftrightarrow>
     fn_notification f = n\<lparr>nt_data := nt_data (fn_notification f)\<rparr>
     \<and> length (nt_data (fn_notification f)) + unat (headerByteSize ca n) \<le> unat maxSize"

abbreviation payload :: "'m fragmented list \<Rightarrow> string" where
  "payload frs \<equiv> concat (map (\<lambda>f. nt_data (fn_notification f)) frs)"

text \<open>The payload cut into pieces of \<open>d\<close> bytes, the last one possibly shorter.\<close>

fun chunks :: "nat \<Rightarrow> 'a list \<Rightarrow> 'a list list" where
  "chunks d xs = (if xs = [] \<or> d = 0 then [] else take d xs # chunks d (drop d xs))"

declare chunks.simps [simp del]

lemma chunks_Nil [simp]: "chunks d [] = []"
  by (simp add: chunks.simps)

lemma concat_chunks: "0 < d \<Longrightarrow> concat (chunks d xs) = xs"
  by (induction d xs rule: chunks.induct) (simp add: chunks.simps)

lemma length_chunks: "0 < d \<Longrightarrow> length (chunks d xs) = (length xs + d - 1) div d"
proof (induction d xs rule: chunks.induct)
  case (1 d xs)
  show ?case
  proof (cases "xs = []")
    case False
    with 1 have IH: "length (chunks d (drop d xs)) = (length xs - d + d - 1) div d" by simp
    have len: "length (chunks d xs) = Suc (length (chunks d (drop d xs)))"
      using False 1(2) by (simp add: chunks.simps [of d xs])
    show ?thesis
    proof (cases "d \<le> length xs")
      case True
      then have "length xs + d - 1 = length xs - d + d - 1 + d" by simp
      then have "(length xs + d - 1) div d = Suc ((length xs - d + d - 1) div d)"
        using 1(2) by (metis Suc_eq_plus1 div_add_self2 less_numeral_extra(3))
      with IH len show ?thesis by simp
    next
      case short: False
      then have "(length xs + d - 1) div d = 1"
        using False 1(2) by (intro div_nat_eqI) (cases xs; simp)+
      moreover have "(length xs - d + d - 1) div d = 0" using short 1(2) by simp
      ultimately show ?thesis using IH len by simp
    qed
  qed (use 1 in simp)
qed

abbreviation data_parts :: "'m fragmented list \<Rightarrow> string list" where
  "data_parts frs \<equiv> map (\<lambda>f. nt_data (fn_notification f)) frs"

definition numbered_from :: "nat \<Rightarrow> 'm fragmented list \<Rightarrow> bool" where
  "numbered_from k frs \<longleftrightarrow> (\<forall>i < length frs. fn_data_part (frs ! i) = of_nat (k + i))"

lemma numbered_from_Cons:
  "fn_data_part f = of_nat k \<Longrightarrow> numbered_from (Suc k) frs \<Longrightarrow> numbered_from k (f # frs)"
  by (auto simp: numbered_from_def less_Suc_eq_0_disj)

lemma numbered_from_map:
  "numbered_from 0 frs \<Longrightarrow> map fn_data_part frs = map of_nat [0..<length frs]"
  by (intro nth_equalityI) (simp_all add: numbered_from_def)

text \<open>Room for a header: the comparisons of the code without wrap-around.\<close>

definition header_fits :: "32 word \<Rightarrow> 32 word \<Rightarrow> 32 word \<Rightarrow> bool" where
  "header_fits maxSize minSpace h \<longleftrightarrow> unat h + unat minSpace < unat maxSize"

lemma header_fits_code:
  assumes "header_fits maxSize minSpace h"
  shows "h < maxSize - minSpace" and "unat (maxSize - h) = unat maxSize - unat h"
    and "unat minSpace < unat (maxSize - h)"
proof -
  have le: "minSpace \<le> maxSize" "h \<le> maxSize"
    using assms by (simp_all add: header_fits_def word_le_nat_alt)
  then have "unat (maxSize - minSpace) = unat maxSize - unat minSpace"
    by (simp add: unat_sub)
  with assms show "h < maxSize - minSpace" by (simp add: header_fits_def word_less_nat_alt)
  show eq: "unat (maxSize - h) = unat maxSize - unat h" using le by (simp add: unat_sub)
  show "unat minSpace < unat (maxSize - h)" unfolding eq using assms by (simp add: header_fits_def)
qed

text \<open>One round of the loop for a header that fits.\<close>

lemma make_fragments_round:
  assumes "fragment = 0 \<or> unat offset < length wire" and "fragment + 1 \<noteq> 0"
    and "n = fragment_header ea e schema (fragment = 0)"
    and "header_fits maxSize minSpace (headerByteSize ca n)" and "unat offset \<le> length wire"
  shows "make_fragments ca ea dbg maxSize minSpace e schema wire fragment offset frags =
    make_fragments ca ea dbg maxSize minSpace e schema wire (fragment + 1)
      (offset + (maxSize - headerByteSize ca n))
      (frags @ [\<lparr>fn_notification = n\<lparr>nt_data :=
            take (unat (maxSize - headerByteSize ca n)) (drop (unat offset) wire)\<rparr>,
         fn_data_part = fragment, fn_num_data_parts = 1\<rparr>])"
proof -
  have h: "headerByteSize ca n < maxSize - minSpace" by (rule header_fits_code(1) [OF assms(4)])
  then have "\<not> headerByteSize ca n \<ge> maxSize - minSpace" "headerByteSize ca n \<le> maxSize - minSpace"
    by auto
  with assms(1,2,5) show ?thesis
    by (subst make_fragments.simps) (simp add: Let_def substr_def assms(3) [symmetric] del: not_le)
qed

lemma make_fragments_done:
  "fragment \<noteq> 0 \<Longrightarrow> length wire \<le> unat offset \<Longrightarrow>
     make_fragments ca ea dbg maxSize minSpace e schema wire fragment offset frags = Inr frags"
  by (subst make_fragments.simps) simp

text \<open>
  From the second fragment on, every fragment takes at least one byte, so the counter stays at most
  the offset and neither wraps while payload and maximal size together stay below \<open>2 ^ 32\<close>.
\<close>

lemma make_fragments_rest:
  assumes "header_fits maxSize minSpace (headerByteSize ca (fragment_header ea e schema False))"
    and "length wire + unat maxSize < 2 ^ 32" and "fragment \<noteq> 0" and "unat fragment \<le> unat offset"
    and "unat offset < length wire + unat maxSize"
  shows "\<exists>frs. make_fragments ca ea dbg maxSize minSpace e schema wire fragment offset frags
        = Inr (frags @ frs)
      \<and> payload frs = drop (unat offset) wire \<and> numbered_from (unat fragment) frs
      \<and> data_parts frs = chunks (unat (maxSize
          - headerByteSize ca (fragment_header ea e schema False))) (drop (unat offset) wire)
      \<and> length frs \<le> length wire - unat offset
      \<and> (\<forall>f \<in> set frs. fragment_fits ca (fragment_header ea e schema False) maxSize f)"
  using assms(3-5)
proof (induction "length wire - unat offset" arbitrary: fragment offset frags rule: less_induct)
  case less
  let ?n = "fragment_header ea e schema False"
  let ?d = "maxSize - headerByteSize ca ?n"
  note hf = header_fits_code [OF assms(1)]
  show ?case
  proof (cases "unat offset < length wire")
    case False
    with less.prems show ?thesis
      by (intro exI [of _ "[]"]) (simp add: make_fragments_done numbered_from_def)
  next
    case True
    have d: "0 < unat ?d" "unat ?d \<le> unat maxSize" using hf(2,3) by auto
    have sum: "unat (offset + ?d) = unat offset + unat ?d"
      using True d assms(2) by (intro unat_add_lem [THEN iffD1]) simp
    have small: "unat fragment + 1 < 2 ^ 32" using less.prems True assms(2) by linarith
    then have suc: "unat (fragment + 1) = Suc (unat fragment)" by (simp add: unat_word_ariths)
    then have suc0: "fragment + 1 \<noteq> 0" by auto
    let ?f = "\<lparr>fn_notification = ?n\<lparr>nt_data := take (unat ?d) (drop (unat offset) wire)\<rparr>,
        fn_data_part = fragment, fn_num_data_parts = 1\<rparr> :: 'a fragmented"
    have step: "make_fragments ca ea dbg maxSize minSpace e schema wire fragment offset frags =
        make_fragments ca ea dbg maxSize minSpace e schema wire (fragment + 1) (offset + ?d)
          (frags @ [?f])"
      using less.prems(1) True suc0 assms(1) by (intro make_fragments_round) auto
    have "length wire - unat (offset + ?d) < length wire - unat offset" using sum d True by simp
    moreover have "unat (fragment + 1) \<le> unat (offset + ?d)" using suc sum d less.prems(2) by simp
    moreover have "unat (offset + ?d) < length wire + unat maxSize" using sum d True by simp
    ultimately obtain frs where rest: "make_fragments ca ea dbg maxSize minSpace e schema wire
          (fragment + 1) (offset + ?d) (frags @ [?f]) = Inr ((frags @ [?f]) @ frs)"
        "payload frs = drop (unat (offset + ?d)) wire" "numbered_from (unat (fragment + 1)) frs"
        "data_parts frs = chunks (unat ?d) (drop (unat (offset + ?d)) wire)"
        "length frs \<le> length wire - unat (offset + ?d)"
        "\<forall>f \<in> set frs. fragment_fits ca ?n maxSize f"
      using less.hyps [of "offset + ?d" "fragment + 1" "frags @ [?f]"] suc0 by blast
    have "payload (?f # frs) = drop (unat offset) wire"
      using rest(2) sum append_take_drop_id [of "unat ?d" "drop (unat offset) wire"]
      by (simp add: add.commute)
    moreover have "numbered_from (unat fragment) (?f # frs)"
      using rest(3) suc by (intro numbered_from_Cons) simp_all
    moreover have "fragment_fits ca ?n maxSize ?f"
      using hf(2) assms(1) by (simp add: fragment_fits_def header_fits_def)
    moreover have "length (?f # frs) \<le> length wire - unat offset" using rest(5) sum d True by simp
    moreover have "data_parts (?f # frs) = chunks (unat ?d) (drop (unat offset) wire)"
      using rest(4) sum d True by (subst chunks.simps) (simp add: add.commute)
    ultimately show ?thesis using step rest(1,6)
      by (intro exI [of _ "?f # frs"]) (auto simp: concat_chunks [OF d(1)])
  qed
qed

section \<open>All fragments of an event\<close>

text \<open>
  The size of the first fragment's header includes the meta data, later fragments only carry the
  identity of the event.
\<close>

definition headers_fit ::
  "'m codec_api \<Rightarrow> ('e, 'sc, 'm) event_api \<Rightarrow> 32 word \<Rightarrow> 32 word \<Rightarrow> 'e \<Rightarrow> string \<Rightarrow> bool" where
  "headers_fit ca ea maxSize minSpace e schema \<longleftrightarrow>
     (\<forall>first. header_fits maxSize minSpace (headerByteSize ca (fragment_header ea e schema first)))"

text \<open>What the loop returns: the first fragment and the rest.\<close>

lemma make_fragments_result:
  assumes "headers_fit ca ea maxSize minSpace e schema"
    and "length wire + unat maxSize < 2 ^ 32"
  obtains f frs where
    "make_fragments ca ea dbg maxSize minSpace e schema wire 0 0 [] = Inr (f # frs)"
    and "payload (f # frs) = wire" and "numbered_from 0 (f # frs)"
    and "length frs \<le> length wire - unat (maxSize - headerByteSize ca (fragment_header ea e schema True))"
    and "fragment_fits ca (fragment_header ea e schema True) maxSize f"
    and "\<forall>g \<in> set frs. fragment_fits ca (fragment_header ea e schema False) maxSize g"
    and "data_parts (f # frs)
      = take (unat (maxSize - headerByteSize ca (fragment_header ea e schema True))) wire
        # chunks (unat (maxSize - headerByteSize ca (fragment_header ea e schema False)))
            (drop (unat (maxSize - headerByteSize ca (fragment_header ea e schema True))) wire)"
proof -
  let ?n = "fragment_header ea e schema True"
  let ?d = "maxSize - headerByteSize ca ?n"
  have fit: "header_fits maxSize minSpace (headerByteSize ca ?n)"
    and fit': "header_fits maxSize minSpace (headerByteSize ca (fragment_header ea e schema False))"
    using assms(1) unfolding headers_fit_def by blast+
  note hf = header_fits_code [OF fit]
  let ?f = "\<lparr>fn_notification = ?n\<lparr>nt_data := take (unat ?d) wire\<rparr>,
      fn_data_part = 0, fn_num_data_parts = 1\<rparr> :: 'a fragmented"
  have step: "make_fragments ca ea dbg maxSize minSpace e schema wire 0 0 [] =
      make_fragments ca ea dbg maxSize minSpace e schema wire 1 ?d [?f]"
    using make_fragments_round [of 0 0 wire ?n ea e schema maxSize minSpace ca dbg "[]"] fit by simp
  have d: "0 < unat ?d" "unat ?d \<le> unat maxSize" using hf(2,3) by auto
  have "unat (1 :: 32 word) \<le> unat ?d" using d by simp
  moreover have "unat ?d < length wire + unat maxSize \<or> wire = []"
    using d by (cases wire) auto
  ultimately obtain frs where rest:
      "make_fragments ca ea dbg maxSize minSpace e schema wire 1 ?d [?f] = Inr ([?f] @ frs)"
      "payload frs = drop (unat ?d) wire" "numbered_from 1 frs"
      "length frs \<le> length wire - unat ?d"
      "\<forall>g \<in> set frs. fragment_fits ca (fragment_header ea e schema False) maxSize g"
      "data_parts frs = chunks (unat (maxSize
          - headerByteSize ca (fragment_header ea e schema False))) (drop (unat ?d) wire)"
  proof (elim disjE)
    assume "unat (1 :: 32 word) \<le> unat ?d" and "unat ?d < length wire + unat maxSize"
    from make_fragments_rest [OF fit' assms(2) _ this, of dbg "[?f]"] that show thesis by auto
  next
    assume "wire = []"
    with that [of "[]"] show thesis by (simp add: make_fragments_done numbered_from_def)
  qed
  show thesis
  proof (rule that [of ?f frs])
    show "make_fragments ca ea dbg maxSize minSpace e schema wire 0 0 [] = Inr (?f # frs)"
      using step rest(1) by simp
    show "payload (?f # frs) = wire" using rest(2) by simp
    show "numbered_from 0 (?f # frs)" using rest(3) by (intro numbered_from_Cons) simp_all
    show "fragment_fits ca ?n maxSize ?f"
      using hf(2) fit by (simp add: fragment_fits_def header_fits_def)
  qed (use rest(4,5,6) in simp_all)
qed

text \<open>C6 Fragmentation: for an event whose headers leave room for data and a payload whose length
  and the maximal fragment size together stay below \<open>2 ^ 32\<close>, the loop of \<open>handle\<close> ends with a
  non-empty list of fragments; their data in order is the payload, they are numbered from 0, each
  of them fits into the maximal size together with its header, and only the first carries the full
  header. A payload that fits beside the first header takes exactly one fragment.\<close>

theorem fragments_carry_payload:
  assumes "headers_fit ca ea maxSize minSpace e schema"
    and "length wire + unat maxSize < 2 ^ 32"
  shows "\<exists>f frs. make_fragments ca ea dbg maxSize minSpace e schema wire 0 0 [] = Inr (f # frs)
    \<and> concat (map (\<lambda>g. nt_data (fn_notification g)) (f # frs)) = wire
    \<and> map fn_data_part (f # frs) = map of_nat [0..<length (f # frs)]
    \<and> fragment_fits ca (fragment_header ea e schema True) maxSize f
    \<and> (\<forall>g \<in> set frs. fragment_fits ca (fragment_header ea e schema False) maxSize g)
    \<and> (length wire + unat (headerByteSize ca (fragment_header ea e schema True)) \<le> unat maxSize
        \<longrightarrow> frs = [])"
proof (rule make_fragments_result [OF assms, of dbg])
  fix f frs
  assume mk: "make_fragments ca ea dbg maxSize minSpace e schema wire 0 0 [] = Inr (f # frs)"
    and pay: "payload (f # frs) = wire" and num: "numbered_from 0 (f # frs)"
    and len: "length frs
      \<le> length wire - unat (maxSize - headerByteSize ca (fragment_header ea e schema True))"
    and fits: "fragment_fits ca (fragment_header ea e schema True) maxSize f"
      "\<forall>g \<in> set frs. fragment_fits ca (fragment_header ea e schema False) maxSize g"
  have "header_fits maxSize minSpace (headerByteSize ca (fragment_header ea e schema True))"
    using assms(1) unfolding headers_fit_def by blast
  then have "frs = []"
    if "length wire + unat (headerByteSize ca (fragment_header ea e schema True)) \<le> unat maxSize"
    using len header_fits_code(2) that by fastforce
  moreover have "map fn_data_part (f # frs) = map of_nat [0..<length (f # frs)]"
    by (rule numbered_from_map [OF num])
  ultimately show ?thesis
    using mk pay fits by (intro exI [of _ f] exI [of _ frs]) simp
qed

lemma sample_header_sizes:
  "headerByteSize sample_codec (fragment_header sample_events e ''utf-8'' True) = 6"
  "headerByteSize sample_codec (fragment_header sample_events e ''utf-8'' False) = 4"
  by (simp_all add: sample_world_defs fragment_header_def)

lemma sample_headers_fit: "headers_fit sample_codec sample_events 13 5 e ''utf-8''"
  by (simp add: headers_fit_def header_fits_def sample_header_sizes all_bool_eq)

theorem fragments_carry_payload_witness:
  "\<exists>f frs. make_fragments sample_codec sample_events True 13 5 (3, ''payload of some size'')
      ''utf-8'' ''payload of some size'' 0 0 [] = Inr (f # frs)
    \<and> concat (map (\<lambda>g. nt_data (fn_notification g)) (f # frs)) = ''payload of some size''"
proof -
  have "length ''payload of some size'' + unat (13 :: 32 word) < 2 ^ 32" by simp
  from fragments_carry_payload [OF sample_headers_fit [of "(3, ''payload of some size'')"] this,
      of True]
  show ?thesis by blast
qed

text \<open>C22 The loop over the fragments ends, after exactly as many rounds as the payload needs: the data
  of the fragments is what cutting the payload into pieces gives (a first piece beside the full
  header, then pieces beside the short header), so their number is one plus the rest of the payload
  divided by the space beside a short header, rounded up.\<close>

theorem fragment_loop_terminates:
  assumes "headers_fit ca ea maxSize minSpace e schema" and "length wire + unat maxSize < 2 ^ 32"
    and "d0 = unat maxSize - unat (headerByteSize ca (fragment_header ea e schema True))"
    and "d1 = unat maxSize - unat (headerByteSize ca (fragment_header ea e schema False))"
  shows "\<exists>frs. make_fragments ca ea dbg maxSize minSpace e schema wire 0 0 [] = Inr frs
    \<and> map (\<lambda>f. nt_data (fn_notification f)) frs = take d0 wire # chunks d1 (drop d0 wire)
    \<and> length frs = 1 + (length wire - d0 + d1 - 1) div d1"
proof (rule make_fragments_result [OF assms(1,2), of dbg])
  fix f frs
  assume mk: "make_fragments ca ea dbg maxSize minSpace e schema wire 0 0 [] = Inr (f # frs)"
    and parts: "data_parts (f # frs)
      = take (unat (maxSize - headerByteSize ca (fragment_header ea e schema True))) wire
        # chunks (unat (maxSize - headerByteSize ca (fragment_header ea e schema False)))
            (drop (unat (maxSize - headerByteSize ca (fragment_header ea e schema True))) wire)"
  have fit: "header_fits maxSize minSpace (headerByteSize ca (fragment_header ea e schema b))" for b
    using assms(1) by (simp add: headers_fit_def)
  have d0: "unat (maxSize - headerByteSize ca (fragment_header ea e schema True)) = d0"
    unfolding assms(3) by (rule header_fits_code(2) [OF fit])
  have d1: "unat (maxSize - headerByteSize ca (fragment_header ea e schema False)) = d1"
    unfolding assms(4) by (rule header_fits_code(2) [OF fit])
  have pos: "0 < d1" using fit [of False] unfolding assms(4) header_fits_def by linarith
  have eq: "data_parts (f # frs) = take d0 wire # chunks d1 (drop d0 wire)"
    using parts unfolding d0 d1 .
  then have "length (data_parts (f # frs)) = 1 + length (chunks d1 (drop d0 wire))" by simp
  then have "length (f # frs) = 1 + (length wire - d0 + d1 - 1) div d1"
    unfolding length_map length_chunks [OF pos] length_drop .
  with mk eq show ?thesis by (intro exI [of _ "f # frs"] conjI)
qed

theorem fragment_loop_terminates_witness:
  "\<exists>frs. make_fragments sample_codec sample_events True 13 5 (3, ''payload of some size'')
      ''utf-8'' ''payload of some size'' 0 0 [] = Inr frs
    \<and> map (\<lambda>f. nt_data (fn_notification f)) frs = ''payload'' # chunks 9 '' of some size''
    \<and> length frs = 3"
proof -
  have "length ''payload of some size'' + unat (13 :: 32 word) < 2 ^ 32" by simp
  from fragment_loop_terminates [OF sample_headers_fit [of "(3, ''payload of some size'')"] this refl refl,
      of True]
  show ?thesis by (simp add: sample_header_sizes numeral_3_eq_3)
qed

section \<open>Headers that are too big\<close>

text \<open>Headers: when the header of the first fragment leaves no more than \<open>minDataSpace\<close> bytes,
  no fragment is made, whatever the payload: the call ends with the \<open>ProtocolException\<close> about the
  size of the meta data, except that a debug build aborts in the assertion before it when the header
  exceeds the limit by at least one byte.\<close>

lemma header_too_big_fails:
  assumes "unat minSpace \<le> unat maxSize"
    and "unat maxSize \<le> unat (headerByteSize ca (fragment_header ea e schema True)) + unat minSpace"
  shows "make_fragments ca ea dbg maxSize minSpace e schema wire 0 0 [] =
    Inl (if dbg \<and> unat maxSize
              < unat (headerByteSize ca (fragment_header ea e schema True)) + unat minSpace
         then AssertionFailure
         else ProtocolException ''The meta data of this event are too big for Spread!'')"
proof -
  have "unat (maxSize - minSpace) = unat maxSize - unat minSpace"
    using assms(1) by (simp add: unat_sub word_le_nat_alt)
  then show ?thesis
    using assms by (subst make_fragments.simps)
      (auto simp: Let_def word_le_nat_alt too_big_text_def)
qed

theorem header_too_big_fails_witness:
  "make_fragments sample_codec sample_events True 11 5 (3, ''x'') ''utf-8'' ''x'' 0 0 []
      = Inl (ProtocolException ''The meta data of this event are too big for Spread!'')
   \<and> make_fragments sample_codec sample_events True 10 5 (3, ''x'') ''utf-8'' ''x'' 0 0 []
      = Inl AssertionFailure"
  using header_too_big_fails [of 5 11 sample_codec sample_events "(3, ''x'')" "''utf-8''" True]
    header_too_big_fails [of 5 10 sample_codec sample_events "(3, ''x'')" "''utf-8''" True]
  by (simp add: sample_header_sizes)

text \<open>Wrap-around of the limit: with a \<open>maxfragmentsize\<close> below \<open>minDataSpace\<close> the difference of
  the two wraps, the check of the header size passes, and the space for data wraps as well. A header
  that is larger than the maximal size and a payload of up to nearly \<open>2 ^ 32\<close> bytes then go into one
  fragment, without any error.\<close>

lemma tiny_limit_is_no_limit:
  assumes "unat maxSize < unat minSpace" and "h = headerByteSize ca (fragment_header ea e schema True)"
    and "unat maxSize < unat h" and "h < maxSize - minSpace"
    and "length wire \<le> unat (maxSize - h)"
  shows "make_fragments ca ea dbg maxSize minSpace e schema wire 0 0 [] =
      Inr [\<lparr>fn_notification = (fragment_header ea e schema True)\<lparr>nt_data := wire\<rparr>,
            fn_data_part = 0, fn_num_data_parts = 1\<rparr>]
    \<and> unat (maxSize - h) = 2 ^ 32 + unat maxSize - unat h"
proof -
  have "unat h < 2 ^ 32" by (rule unat_less_2_32)
  then have "unat (maxSize - h) = 2 ^ 32 + unat maxSize - unat h"
    using assms(3) by (simp add: unat_sub_if' word_le_nat_alt)
  moreover have "\<not> maxSize - minSpace \<le> h" "h \<le> maxSize - minSpace" using assms(4) by auto
  then have "make_fragments ca ea dbg maxSize minSpace e schema wire 0 0 [] =
      make_fragments ca ea dbg maxSize minSpace e schema wire 1 (maxSize - h)
        [\<lparr>fn_notification = (fragment_header ea e schema True)\<lparr>nt_data := wire\<rparr>,
          fn_data_part = 0, fn_num_data_parts = 1\<rparr>]"
    using assms(5) by (subst make_fragments.simps) (simp add: Let_def substr_def assms(2) [symmetric])
  then have "make_fragments ca ea dbg maxSize minSpace e schema wire 0 0 [] =
      Inr [\<lparr>fn_notification = (fragment_header ea e schema True)\<lparr>nt_data := wire\<rparr>,
            fn_data_part = 0, fn_num_data_parts = 1\<rparr>]"
    using assms(5) by (simp add: make_fragments_done)
  ultimately show ?thesis by simp
qed

lemma tiny_limit_is_no_limit_witness:
  "make_fragments sample_codec sample_events True 4 5 (3, replicate 1000 CHR ''x'') ''utf-8''
      (replicate 1000 CHR ''x'') 0 0 []
    = Inr [\<lparr>fn_notification = (fragment_header sample_events (3, replicate 1000 CHR ''x'') ''utf-8''
              True)\<lparr>nt_data := replicate 1000 CHR ''x''\<rparr>,
            fn_data_part = 0, fn_num_data_parts = 1\<rparr>]"
proof -
  have "unat (4 - 6 :: 32 word) = 4294967294" by simp
  then show ?thesis
    using tiny_limit_is_no_limit [of 4 5 6 sample_codec sample_events
      "(3, replicate 1000 CHR ''x'')" "''utf-8''" "replicate 1000 CHR ''x''" True]
    by (simp add: sample_header_sizes)
qed

section \<open>Quality of service\<close>

text \<open>Quality of service: after \<open>setQualityOfServiceSpecs\<close> the Spread service that messages are
  sent with is at least \<open>RELIABLE\<close> when reliability is asked for and at least \<open>FIFO\<close> exactly when
  ordering is; only an unordered, unreliable specification gives \<open>UNRELIABLE\<close>; a new connector
  behaves as if ordered and reliable had been set.\<close>

lemma qos_meets_specification:
  "(RELIABLE \<le> messageQOS (oc_setQualityOfServiceSpecs specs oc)
      \<longleftrightarrow> specs \<noteq> (UNORDERED, UNRELIABLE_SPEC))
   \<and> (FIFO \<le> messageQOS (oc_setQualityOfServiceSpecs specs oc) \<longleftrightarrow> fst specs = ORDERED)
   \<and> oc_setQualityOfServiceSpecs (ORDERED, RELIABLE_SPEC) (oc_new k) = oc_new k"
proof -
  obtain ord rel where "specs = (ord, rel)" by (cases specs)
  then show ?thesis
    by (cases ord; cases rel)
      (simp_all add: oc_setQualityOfServiceSpecs_def oc_new_def less_eq_qos_def word_le_nat_alt)
qed

end
