(* ===== verification/EndToEnd.thy ===== *)
theory EndToEnd
  imports BusImpl Fragmentation
begin

text \<open>
  From an event handed to an \<open>OutConnector\<close> to the notification a receiving process makes of it:
  fragmentation, numbering, serialisation and posting on one side, parsing and reassembly on the
  other, with the network in between delivering the messages in any order among other traffic.
\<close>

section \<open>The fragments of one event\<close>

text \<open>The fragments as they are serialised, with the final number of parts.\<close>

definition numbered_fragments :: "'m fragmented list \<Rightarrow> 'm fragmented list" where
  "numbered_fragments frs = map (\<lambda>f. f\<lparr>fn_num_data_parts := of_nat (length frs)\<rparr>) frs"

lemma fragment_header_id:
  "fills_notifications sa ea \<Longrightarrow> nt_event_id (fragment_header ea e schema first) = getEventId ea e"
  by (simp add: fragment_header_def fills_notifications_def Let_def)

lemma fragment_header_first:
  assumes "fills_notifications sa ea"
  shows "nt_scope (fragment_header ea e schema True) = scope_toString sa (getScope ea e)"
    and "nt_wire_schema (fragment_header ea e schema True) = schema"
  using assms by (simp_all add: fragment_header_def fills_notifications_def Let_def)

lemma fragment_fits_id:
  "fragment_fits ca n maxSize f \<Longrightarrow> nt_event_id (fn_notification f) = nt_event_id n"
  by (simp add: fragment_fits_def) (metis notification.ext_inject notification.surjective
      notification.update_convs(4))

lemma fits_event_id:
  "fills_notifications sa ea \<Longrightarrow> fragment_fits ca (fragment_header ea e schema first) maxSize f \<Longrightarrow>
     nt_event_id (fn_notification f) = getEventId ea e"
  by (simp add: fragment_fits_id fragment_header_id)

lemma make_fragments_split:
  assumes "make_fragments ca ea dbg maxSize minSpace e schema wire 0 0 [] = Inr fragments"
    and "headers_fit ca ea maxSize minSpace e schema" and "length wire + unat maxSize < 2 ^ 32"
    and "fills_notifications sa ea"
  shows "is_split (numbered_fragments fragments)" and "length fragments < 2 ^ 32"
    and "\<forall>f \<in> set (numbered_fragments fragments).
      nt_event_id (fn_notification f) = getEventId ea e"
    and "join_parts (numbered_fragments fragments) = (fragment_header ea e schema True)\<lparr>nt_data := wire\<rparr>"
    and "\<exists>d. fn_notification (fragments ! 0) = (fragment_header ea e schema True)\<lparr>nt_data := d\<rparr>"
proof -
  obtain f frs where mk: "make_fragments ca ea dbg maxSize minSpace e schema wire 0 0 [] = Inr (f # frs)"
    and pay: "payload (f # frs) = wire" and num: "numbered_from 0 (f # frs)"
    and len: "length frs
      \<le> length wire - unat (maxSize - headerByteSize ca (fragment_header ea e schema True))"
    and f: "fragment_fits ca (fragment_header ea e schema True) maxSize f"
    and frs: "\<forall>g \<in> set frs. fragment_fits ca (fragment_header ea e schema False) maxSize g"
    by (rule make_fragments_result [OF assms(2,3), of dbg])
  have fragments: "fragments = f # frs" using assms(1) mk by simp
  have fit: "header_fits maxSize minSpace (headerByteSize ca (fragment_header ea e schema True))"
    using assms(2) unfolding headers_fit_def by blast
  have small: "length fragments < 2 ^ 32"
    using len assms(3) header_fits_code(3) [OF fit] fit by (simp add: fragments header_fits_def)
  then show "length fragments < 2 ^ 32" .
  have ids: "nt_event_id (fn_notification g) = getEventId ea e" if "g \<in> set fragments" for g
    using that f frs by (auto simp: fragments dest: fits_event_id [OF assms(4)])
  then show "\<forall>f \<in> set (numbered_fragments fragments).
      nt_event_id (fn_notification f) = getEventId ea e"
    by (auto simp: numbered_fragments_def)
  have key: "pool_key (numbered_fragments fragments ! i) = pool_key (numbered_fragments fragments ! 0)"
    if "i < length fragments" for i
  proof -
    have "nt_event_id (fn_notification (numbered_fragments fragments ! j)) = getEventId ea e"
      if "j < length fragments" for j
      using that ids [of "fragments ! j"] by (simp add: numbered_fragments_def)
    then show ?thesis unfolding pool_key_eq using that fragments by simp
  qed
  have idx: "frag_index (numbered_fragments fragments ! i) = i
      \<and> frag_total (numbered_fragments fragments ! i) = length fragments"
    if "i < length fragments" for i
    using that small num by (simp add: numbered_fragments_def frag_defs numbered_from_def
        fragments [symmetric] unat_of_nat_32)
  show "is_split (numbered_fragments fragments)"
    unfolding is_split_def using key idx by (auto simp: numbered_fragments_def fragments)
  have first: "fn_notification f = (fragment_header ea e schema True)\<lparr>nt_data := nt_data (fn_notification f)\<rparr>"
    using f by (simp add: fragment_fits_def)
  then show "\<exists>d. fn_notification (fragments ! 0) = (fragment_header ea e schema True)\<lparr>nt_data := d\<rparr>"
    by (auto simp: fragments)
  have "join_parts (numbered_fragments fragments) = (fn_notification f)\<lparr>nt_data := wire\<rparr>"
    using pay by (simp add: join_parts_def numbered_fragments_def fragments comp_def)
  then show "join_parts (numbered_fragments fragments) = (fragment_header ea e schema True)\<lparr>nt_data := wire\<rparr>"
    by (subst (asm) first) simp
qed

text \<open>What a receiver makes of an event: the header of its first fragment with the whole payload.\<close>

definition event_notification ::
  "('e, 'sc, 'm) event_api \<Rightarrow> 'e \<Rightarrow> string \<Rightarrow> string \<Rightarrow> ('sc, 'm) transport_notification" where
  "event_notification ea e schema wire = \<lparr>nf_scope = getScope ea e, nf_wireSchema = schema,
     nf_serializedPayload = wire,
     nf_notification = (fragment_header ea e schema True)\<lparr>nt_data := wire\<rparr>\<rparr>"

lemma event_notification_id:
  "fills_notifications sa ea \<Longrightarrow>
     nt_event_id (nf_notification (event_notification ea e schema wire)) = getEventId ea e"
  by (simp add: event_notification_def fragment_header_id)

lemma incoming_event:
  assumes "fills_notifications sa ea"
    and "scope_parse sa (scope_toString sa (getScope ea e)) = Inr (getScope ea e)"
  shows "incoming_notification sa ((fragment_header ea e schema True)\<lparr>nt_data := wire\<rparr>)
    = Inr (Some (event_notification ea e schema wire))"
  using fragment_header_first [OF assms(1), of e schema] assms(2)
  by (simp add: incoming_notification_def event_notification_def)

section \<open>Posting and receiving\<close>

text \<open>The messages that carry a part of an event, and the answers of the receiver to them.\<close>

definition carries_event :: "'m codec_api \<Rightarrow> event_id \<Rightarrow> spread_message \<Rightarrow> bool" where
  "carries_event ca eid m \<longleftrightarrow>
     (\<exists>f. message_fragment ca m = Some f \<and> nt_event_id (fn_notification f) = eid)"

definition event_messages ::
  "'m codec_api \<Rightarrow> event_id \<Rightarrow> (int \<times> spread_message) list \<Rightarrow> spread_message list" where
  "event_messages ca eid ms = filter (carries_event ca eid) (map snd ms)"

definition event_answers ::
  "'m codec_api \<Rightarrow> event_id \<Rightarrow> (int \<times> spread_message) list \<Rightarrow> 'r list \<Rightarrow> 'r list" where
  "event_answers ca eid ms rs =
     map snd (filter (\<lambda>(x, r). carries_event ca eid (snd x)) (zip ms rs))"

lemma carries_event_key:
  fixes f :: "'m fragmented"
  assumes "nt_event_id (fn_notification f) = eid"
  shows "carries_key ca (pool_key f) m = carries_event ca eid m"
  using assms by (auto simp: carries_key_def carries_event_def pool_key_eq)

lemma event_messages_key:
  assumes "nt_event_id (fn_notification f) = eid"
  shows "event_messages ca eid ms = map snd (messages_for ca (pool_key f) ms)"
    and "event_answers ca eid ms rs = answers_for ca (pool_key f) ms rs"
  by (simp_all add: event_messages_def messages_for_def event_answers_def answers_for_def
      carries_event_key [OF assms] filter_map comp_def)

text \<open>What the packets of a notification parse to.\<close>

lemma posts_parse:
  assumes "codec_roundtrips ca" and "posts ca api n ps"
  shows "map (\<lambda>p. parse ca (snd (snd p))) ps = map Some (numbered_fragments (on_fragments n))"
proof (rule nth_equalityI)
  have eq: "map (\<lambda>p. Some (snd (snd p))) ps
      = map (\<lambda>f. serialize ca (f\<lparr>fn_num_data_parts := of_nat (length (on_fragments n))\<rparr>))
          (on_fragments n)"
    using assms(2) by (auto simp: posts_def)
  then have len: "length ps = length (on_fragments n)" by (metis length_map)
  then show "length (map (\<lambda>p. parse ca (snd (snd p))) ps)
      = length (map Some (numbered_fragments (on_fragments n)))"
    by (simp add: numbered_fragments_def)
  fix i
  assume "i < length (map (\<lambda>p. parse ca (snd (snd p))) ps)"
  then have i: "i < length ps" by simp
  have "map (\<lambda>p. Some (snd (snd p))) ps ! i
      = map (\<lambda>f. serialize ca (f\<lparr>fn_num_data_parts := of_nat (length (on_fragments n))\<rparr>))
          (on_fragments n) ! i"
    using eq by simp
  then have "serialize ca ((on_fragments n ! i)\<lparr>fn_num_data_parts := of_nat (length (on_fragments n))\<rparr>)
      = Some (snd (snd (ps ! i)))"
    using i len by simp
  then show "map (\<lambda>p. parse ca (snd (snd p))) ps ! i = map Some (numbered_fragments (on_fragments n)) ! i"
    using assms(1) i len by (simp add: codec_roundtrips_def numbered_fragments_def)
qed

lemma event_messages_parse:
  assumes "m \<in> set (event_messages ca eid ms)"
  shows "message_fragment ca m = parse ca (getData m)"
  using assms by (auto simp: event_messages_def carries_event_def message_fragment_def
      split: if_splits)

lemma event_reassembled:
  fixes ca :: "'m codec_api"
  assumes "codec_roundtrips ca" and "fills_notifications sa ea"
    and "oc_handle sa maxg ca ea dbg (bus_handleOutgoing ca api dbg da so) now event (oc, (b, w, z))
      = (Inr (), (e, oc', (b', w', z')))"
    and "to_wire ea e = Inr (schema, wire)"
    and "headers_fit ca ea (maxFragmentSize oc) (minDataSpace oc) e schema"
    and "length wire + unat (maxFragmentSize oc) < 2 ^ 32"
    and "scope_parse sa (scope_toString sa (getScope ea e)) = Inr (getScope ea e)"
    and "sent w' = new @ sent w"
    and "mset (map getData (event_messages ca (getEventId ea e) ms)) = mset (map (\<lambda>p. snd (snd p)) new)"
    and "\<forall>f :: 'm fragmented. nt_event_id (fn_notification f) = getEventId ea e
      \<longrightarrow> map_of (pool p) (pool_key f) = None"
    and "dh_run ca sa dbg' ms p = (rs, p')"
  shows "event_answers ca (getEventId ea e) ms rs
    = replicate (length new - 1) (Inr None) @ [Inr (Some (event_notification ea e schema wire))]"
proof -
  obtain fragments ps where
    mk: "make_fragments ca ea dbg (maxFragmentSize oc) (minDataSpace oc) e schema wire 0 0 []
      = Inr fragments"
    and posted: "posts ca api \<lparr>nf_scope = getScope ea e, nf_wireSchema = schema,
        nf_serializedPayload = wire, nf_notification = fn_notification (fragments ! 0),
        on_qos = messageQOS oc,
        on_groups = fst (scopeToGroups sa maxg (getScope ea e) (oc_cache oc)),
        on_fragments = fragments\<rparr> ps"
    and traffic: "sent (fst (snd (b', w', z'))) = rev ps @ sent (fst (snd (b, w, z)))"
    using assms(4) by (rule_tac bus.oc_handle_posts [OF assms(3)]) auto
  note split = make_fragments_split [OF mk assms(5,6,2)]
  let ?frs = "numbered_fragments fragments"
  have new: "new = rev ps" using traffic assms(8) by simp
  have parsed: "map (\<lambda>p. parse ca (snd (snd p))) ps = map Some ?frs"
    using posts_parse [OF assms(1) posted] by simp
  then have len: "length new = length ?frs" using new by (metis length_map length_rev)
  have ne: "?frs \<noteq> []" using split(1) by (simp add: is_split_def)
  then have id0: "nt_event_id (fn_notification (?frs ! 0)) = getEventId ea e"
    using split(3) by simp
  note key = event_messages_key [OF id0]
  have "mset (map (\<lambda>x. message_fragment ca (snd x)) (messages_for ca (pool_key (?frs ! 0)) ms))
      = mset (map (\<lambda>m. message_fragment ca m) (event_messages ca (getEventId ea e) ms))"
    unfolding key(1) by (simp add: comp_def)
  also have "map (\<lambda>m. message_fragment ca m) (event_messages ca (getEventId ea e) ms)
      = map (parse ca) (map getData (event_messages ca (getEventId ea e) ms))"
    by (simp add: event_messages_parse)
  also have "mset (map (parse ca) (map getData (event_messages ca (getEventId ea e) ms)))
      = image_mset (parse ca) (mset (map (\<lambda>p. snd (snd p)) new))"
    using assms(9) by (metis mset_map)
  also have "\<dots> = mset (map (\<lambda>p. parse ca (snd (snd p))) ps)"
    by (simp add: new multiset.map_comp comp_def)
  finally have parts: "mset (map (\<lambda>x. message_fragment ca (snd x))
      (messages_for ca (pool_key (?frs ! 0)) ms)) = mset (map Some ?frs)"
    unfolding parsed .
  have small: "length ?frs < 2 ^ 32" using split(2) by (simp add: numbered_fragments_def)
  have "map_of (pool p) (pool_key (?frs ! 0)) = None" using assms(10) id0 by blast
  from dh_run_split [OF split(1) small this parts assms(11)]
  have "event_answers ca (getEventId ea e) ms rs
      = replicate (length new - 1) (Inr None) @ [incoming_notification sa (join_parts ?frs)]"
    unfolding key(2) len by blast
  then show ?thesis by (simp add: split(4) incoming_event [OF assms(2,7)])
qed

text \<open>C3 End to end: an event that an \<open>OutConnector\<close> handles on a bus without an exception leaves
  packets \<open>new\<close> in the network. When a receiver that holds nothing of the event gets exactly these
  packets, in any order, once each, at any times, among arbitrary other messages (other events,
  membership messages, garbage), its \<open>DeserializingHandler\<close> answers all of them but the last with
  nothing and the last with one notification: it has the scope, the wire schema and the serialised
  payload of the event, and the header (id and meta data) the sender gave its first fragment. This holds for any number of fragments, any codec that round
  trips, debug and release builds on both sides.\<close>

theorem event_arrives_intact:
  fixes ca :: "'m codec_api"
  assumes "codec_roundtrips ca" and "fills_notifications sa ea"
    and "oc_handle sa maxg ca ea dbg (bus_handleOutgoing ca api dbg da so) now event (oc, (b, w, z))
      = (Inr (), (e, oc', (b', w', z')))"
    and "to_wire ea e = Inr (schema, wire)"
    and "headers_fit ca ea (maxFragmentSize oc) (minDataSpace oc) e schema"
    and "length wire + unat (maxFragmentSize oc) < 2 ^ 32"
    and "scope_parse sa (scope_toString sa (getScope ea e)) = Inr (getScope ea e)"
    and "sent w' = new @ sent w"
    and "mset (map getData (event_messages ca (getEventId ea e) ms)) = mset (map (\<lambda>p. snd (snd p)) new)"
    and "\<forall>f :: 'm fragmented. nt_event_id (fn_notification f) = getEventId ea e
      \<longrightarrow> map_of (pool p) (pool_key f) = None"
    and "dh_run ca sa dbg' ms p = (rs, p')"
  shows "event_answers ca (getEventId ea e) ms rs
    = replicate (length new - 1) (Inr None) @ [Inr (Some (event_notification ea e schema wire))]"
  by (rule event_reassembled [OF assms])

section \<open>A concrete run\<close>

definition quiet_dispatcher :: "(unit, string) dispatcher_api" where
  "quiet_dispatcher = \<lparr>disp_new = (), disp_addSink = (\<lambda>s k d. ()), disp_removeSink = (\<lambda>s k d. ()),
     disp_size = (\<lambda>d. 0), disp_sinks = (\<lambda>al s d. []), disp_allSinks = (\<lambda>al d. [])\<rparr>"

definition quiet_sinks :: "(string, unit, unit) sink_ops" where
  "quiet_sinks = \<lparr>sink_alive = (\<lambda>z k. False), sink_handleNotification = (\<lambda>k n z. (Inr (), z)),
     sink_handleError = (\<lambda>k ex z. (Inr (), z))\<rparr>"

definition quiet_bus :: "(unit, unit) bus" where
  "quiet_bus = \<lparr>bus_active = True, connection = open_conn, memberships = [], receiver = None,
     scopeDispatcher = ()\<rparr>"

definition sent_part :: "nat \<Rightarrow> nat \<Rightarrow> unit fragmented" where
  "sent_part i k = \<lparr>fn_notification = \<lparr>nt_event_id = \<lparr>sender_id = ''s'', sequence_number = 3\<rparr>,
       nt_scope = (if i = 0 then ''/a'' else []), nt_wire_schema = (if i = 0 then ''utf-8'' else []),
       nt_data = (if i = 0 then ''payload'' else '' of''), nt_meta = ()\<rparr>,
     fn_data_part = of_nat i, fn_num_data_parts = of_nat k\<rparr>"

lemma sample_fragments:
  "make_fragments sample_codec sample_events dbg 13 5 (3, ''payload of'') ''utf-8'' ''payload of'' 0 0 []
    = Inr [sent_part 0 1, sent_part 1 1]"
  by (simp add: make_fragments.simps fragment_header_def sample_world_defs substr_def sent_part_def)

lemma sample_groups:
  "scopeToGroups sample_scopes 32 ''/a'' [] = ([''/a'', ''/''], [(''/a'', [''/a'', ''/''])])"
  by (simp add: scopeToGroups_def sample_scopes_def scopeToGroup_def Let_def)

lemma sample_send:
  "conn_send sample_api True \<lparr>mtype = OTHER, mqos = FIFO, mdata = d, mgroups = [''/'', ''/a'']\<rparr> (open_conn, w)
    = (Inr (), (open_conn, SpMultigroupMulticast 7 0x44 [''/'', ''/a''] d (int (length d)) # w))"
  by (simp add: conn_send_def open_conn_def conn_new_def sample_api_def message_accessors
      SPREAD_MAX_GROUPS_def c_str_def send_result_def)

lemma sample_handle:
  "\<exists>oc'. oc_handle sample_scopes 32 sample_codec sample_events True
     (bus_handleOutgoing sample_codec sample_api True quiet_dispatcher quiet_sinks) 0 (3, ''payload of'')
     (oc_new 13, (quiet_bus, [], ()))
   = (Inr (), ((3, ''payload of''), oc', (quiet_bus,
       [SpMultigroupMulticast 7 0x44 [''/'', ''/a''] (put_fragment (sent_part 1 2))
          (int (length (put_fragment (sent_part 1 2)))),
        SpMultigroupMulticast 7 0x44 [''/'', ''/a''] (put_fragment (sent_part 0 2))
          (int (length (put_fragment (sent_part 0 2))))], ())))"
proof -
  have groups: "addGroups (MAX_GROUP_NAME sample_api) [''/a'', ''/''] (setQOS FIFO message_new)
      = (Inr (), \<lparr>mtype = OTHER, mqos = FIFO, mdata = [], mgroups = [''/'', ''/a'']\<rparr>)"
    by (simp add: addGroup_def sample_api_def message_accessors message_constructors
        insort_insert_key_def)
  have parts: "(sent_part i (Suc 0))\<lparr>fn_num_data_parts := 2\<rparr> = sent_part i 2" for i
    by (simp add: sent_part_def)
  have codec: "serialize sample_codec f = Some (put_fragment f)" for f
    by (simp add: sample_codec_def)
  have events: "setSendTime sample_events 0 (3, ''payload of'') = (3, ''payload of'')"
    "getScope sample_events (3, ''payload of'') = ''/a''"
    "to_wire sample_events (3, ''payload of'') = Inr (''utf-8'', ''payload of'')"
    by (simp_all add: sample_events_def)
  show ?thesis
    by (simp add: oc_handle_def events sample_groups sample_fragments oc_new_def bus_handleOutgoing_def
        sendNotification_def groups parts codec quiet_bus_def sample_send setData_def
        quiet_dispatcher_def Let_def del: addGroups.simps)
qed

definition sample_packets :: "(string list \<times> 32 word \<times> string) list" where
  "sample_packets = [([''/'', ''/a''], 0x44, put_fragment (sent_part 1 2)),
     ([''/'', ''/a''], 0x44, put_fragment (sent_part 0 2))]"

abbreviation sample_event_sent :: "nat \<times> string" where
  "sample_event_sent \<equiv> (3, ''payload of'')"

lemma sample_event_facts:
  "to_wire sample_events sample_event_sent = Inr (''utf-8'', ''payload of'')"
  "getScope sample_events sample_event_sent = ''/a''"
  "getEventId sample_events sample_event_sent = \<lparr>sender_id = ''s'', sequence_number = 3\<rparr>"
  by (simp_all add: sample_events_def)

text \<open>What the theorems below assume of the sender.\<close>

lemma sample_sender:
  "headers_fit sample_codec sample_events (maxFragmentSize (oc_new 13 :: string out_connector))
      (minDataSpace (oc_new 13 :: string out_connector)) sample_event_sent ''utf-8''"
  "length ''payload of'' + unat (maxFragmentSize (oc_new 13 :: string out_connector)) < 2 ^ 32"
  "scope_parse sample_scopes (scope_toString sample_scopes (getScope sample_events sample_event_sent))
      = Inr (getScope sample_events sample_event_sent)"
  using sample_headers_fit by (simp_all add: oc_new_def sample_event_facts sample_scopes_def)

lemma sample_sent:
  "\<exists>oc' w'. oc_handle sample_scopes 32 sample_codec sample_events True
     (bus_handleOutgoing sample_codec sample_api True quiet_dispatcher quiet_sinks) 0 sample_event_sent
     (oc_new 13, (quiet_bus, [], ())) = (Inr (), (sample_event_sent, oc', (quiet_bus, w', ())))
   \<and> sent w' = sample_packets @ sent []"
  using sample_handle by (fastforce simp: sample_packets_def)

lemma carries_sample_part:
  "message_fragment sample_codec m = Some (sent_part i 2) \<Longrightarrow>
     carries_event sample_codec (getEventId sample_events sample_event_sent) m"
  by (simp add: carries_event_def sample_event_facts) (simp add: sent_part_def)

theorem event_arrives_intact_witness:
  "\<exists>n. event_answers sample_codec \<lparr>sender_id = ''s'', sequence_number = 3\<rparr>
      [(0, fragment_message (sent_part 1 2)), (1, message_of_type MEMBERSHIP),
       (2, fragment_message (sent_part 0 2))]
      (fst (dh_run sample_codec sample_scopes False
        [(0, fragment_message (sent_part 1 2)), (1, message_of_type MEMBERSHIP),
         (2, fragment_message (sent_part 0 2))] sample_pool))
      = [Inr None, Inr (Some n)]
    \<and> nf_scope n = ''/a'' \<and> nf_serializedPayload n = ''payload of''"
proof -
  let ?ms = "[(0, fragment_message (sent_part 1 2)), (1, message_of_type MEMBERSHIP),
      (2, fragment_message (sent_part 0 2))]"
  obtain oc' w' where handle: "oc_handle sample_scopes 32 sample_codec sample_events True
     (bus_handleOutgoing sample_codec sample_api True quiet_dispatcher quiet_sinks) 0 sample_event_sent
     (oc_new 13, (quiet_bus, [], ())) = (Inr (), (sample_event_sent, oc', (quiet_bus, w', ())))"
    and sent: "sent w' = sample_packets @ sent []"
    using sample_sent by blast
  have carries: "carries_event sample_codec (getEventId sample_events sample_event_sent)
      (fragment_message (sent_part i 2))" for i
    by (rule carries_sample_part) simp
  have other: "\<not> carries_event sample_codec eid (message_of_type MEMBERSHIP)" for eid
    by (simp add: carries_event_def message_fragment_def message_of_type_def getType_def)
  have data: "getData (fragment_message f) = put_fragment f" for f
    by (simp add: fragment_message_def getData_def)
  have msgs: "mset (map getData (event_messages sample_codec
      (getEventId sample_events sample_event_sent) ?ms)) = mset (map (\<lambda>p. snd (snd p)) sample_packets)"
    by (simp add: event_messages_def carries other data sample_packets_def)
  have empty: "\<forall>f :: unit fragmented. nt_event_id (fn_notification f)
      = getEventId sample_events sample_event_sent \<longrightarrow> map_of (pool sample_pool) (pool_key f) = None"
    by (simp add: sample_pool_def)
  obtain rs p' where run: "dh_run sample_codec sample_scopes False ?ms sample_pool = (rs, p')"
    by (metis surj_pair)
  from event_arrives_intact [OF sample_codec_roundtrips sample_events_fill handle sample_event_facts(1)
      sample_sender sent msgs empty run]
  have "event_answers sample_codec (getEventId sample_events sample_event_sent) ?ms rs
      = [Inr None, Inr (Some (event_notification sample_events sample_event_sent ''utf-8'' ''payload of''))]"
    by (simp add: sample_packets_def)
  then show ?thesis unfolding run fst_conv
    by (intro exI conjI) (simp add: sample_event_facts, simp_all add: event_notification_def sample_event_facts)
qed

end
