(* ===== verification/BusSession.thy ===== *)
theory BusSession
  imports BusImpl
begin

text \<open>
  One session of a bus: sinks come and go, notifications are sent, the receiver reads messages, in
  any order. Every scope with a registered sink is a group the connection has joined. A second
  session of the same bus starts without that guarantee.
\<close>

section \<open>The transition system\<close>

text \<open>
  A state with the multiset of scopes sinks are registered for. The receiver's thread only reads
  from the connection; what its handler does to the sinks is arbitrary here. A sink is only removed
  for a scope it was added for.
\<close>

inductive session_step ::
  "'sc scope_api \<Rightarrow> spread_api \<Rightarrow> bool \<Rightarrow> ('d, 'sc) dispatcher_api \<Rightarrow> 'm codec_api \<Rightarrow> ('sc, 'm, 'z) sink_ops
     \<Rightarrow> 'sc multiset \<times> ('m, 'd, 'z) bus_state \<Rightarrow> 'sc multiset \<times> ('m, 'd, 'z) bus_state \<Rightarrow> bool"
  for sa api dbg da ca so where
  add: "bus_addSink sa api da scope sink st = (r, st') \<Longrightarrow> Suc (size regs) < max_refs \<Longrightarrow>
     session_step sa api dbg da ca so (regs, st)
       (case r of Inl _ \<Rightarrow> regs | Inr _ \<Rightarrow> add_mset scope regs, st')"
| remove: "scope \<in># regs \<Longrightarrow> bus_removeSink sa api dbg da scope sink st = (r, st') \<Longrightarrow>
     session_step sa api dbg da ca so (regs, st) (regs - {#scope#}, st')"
| send: "bus_handleOutgoing ca api dbg da so n st = (r, st') \<Longrightarrow>
     session_step sa api dbg da ca so (regs, st) (regs, st')"
| receive: "conn_receive api dbg m (connection b, w) = (r, (m', c', w')) \<Longrightarrow>
     session_step sa api dbg da ca so (regs, (b, w, z)) (regs, (b\<lparr>connection := c'\<rparr>, w', z'))"

inductive session_reachable ::
  "'sc scope_api \<Rightarrow> spread_api \<Rightarrow> bool \<Rightarrow> ('d, 'sc) dispatcher_api \<Rightarrow> 'm codec_api \<Rightarrow> ('sc, 'm, 'z) sink_ops
     \<Rightarrow> 'sc multiset \<times> ('m, 'd, 'z) bus_state \<Rightarrow> bool"
  for sa api dbg da ca so where
  start: "bus_activate api (bus_new da (conn_new win32 junk h p), w, z) = (Inr (), st) \<Longrightarrow>
     session_reachable sa api dbg da ca so ({#}, st)"
| next_step: "session_reachable sa api dbg da ca so s \<Longrightarrow> session_step sa api dbg da ca so s s' \<Longrightarrow>
     session_reachable sa api dbg da ca so s'"


section \<open>The invariant\<close>

definition session_inv ::
  "'sc scope_api \<Rightarrow> spread_api \<Rightarrow> 'sc multiset \<times> ('m, 'd, 'z) bus_state \<Rightarrow> bool" where
  "session_inv sa api s = (case s of (regs, (b, w, z)) \<Rightarrow>
     size regs < max_refs
     \<and> bus_active b \<and> connected (connection b) \<and> receiver b \<noteq> None \<and> mm_inv (memberships b)
     \<and> mm_abs (memberships b) = image_mset (scopeToGroup sa (MAX_GROUP_NAME api)) regs
     \<and> set_mset (mm_abs (memberships b)) \<subseteq> conn_members (connection b, w))"

lemma session_invD:
  assumes "session_inv sa api (regs, (b, w, z))"
  shows "size regs < max_refs" and "bus_active b" and "connected (connection b)"
    and "receiver b \<noteq> None" and "mm_inv (memberships b)"
    and "mm_abs (memberships b) = image_mset (scopeToGroup sa (MAX_GROUP_NAME api)) regs"
    and "set_mset (mm_abs (memberships b)) \<subseteq> conn_members (connection b, w)"
  using assms unfolding session_inv_def by auto

lemma session_inv_frame:
  assumes "session_inv sa api (regs, (b, w, z))"
    and "conn_members (connection b, w') = conn_members (connection b, w)"
  shows "session_inv sa api (regs, (b, w', z'))"
  using session_invD [OF assms(1)] unfolding session_inv_def prod.case assms(2) by blast

lemma joined_multicast [simp]:
  "joined mb (SpMulticast a b c d e # w) = joined mb w"
  "joined mb (SpMultigroupMulticast a b g d e # w) = joined mb w"
  "joined mb (SpReceive a rc # w) = joined mb w"
  by simp_all

lemma conn_send_members:
  "conn_send api dbg m (c, w) = (r, s') \<Longrightarrow> fst s' = c \<and> conn_members s' = conn_members (c, w)"
  by (auto simp: conn_send_def send_result_def conn_members_def Let_def
      split: if_splits sum.splits)

lemma conn_receive_members:
  "conn_receive api dbg m (c, w) = (r, (m', s')) \<Longrightarrow> fst s' = c \<and> conn_members s' = conn_members (c, w)"
  by (auto simp: conn_receive_def conn_members_def Let_def split: if_splits prod.splits)

lemma send_fragments_members:
  "send_fragments ca api dbg k fs m (c, w) = (r, s') \<Longrightarrow>
     fst s' = c \<and> conn_members s' = conn_members (c, w)"
proof (induction fs arbitrary: m c w)
  case Nil
  then show ?case by auto
next
  case (Cons f fs)
  show ?case
  proof (cases "serialize ca (f\<lparr>fn_num_data_parts := of_nat k\<rparr>)")
    case None
    with Cons.prems show ?thesis by auto
  next
    case (Some bytes)
    obtain r1 c1 w1 where send: "conn_send api dbg (setData bytes m) (c, w) = (r1, (c1, w1))"
      by (metis prod.exhaust)
    show ?thesis
    proof (cases r1)
      case (Inl e)
      with Cons.prems Some send conn_send_members [OF send] show ?thesis by auto
    next
      case (Inr x)
      with Cons.prems Some send
      have "send_fragments ca api dbg k fs (setData bytes m) (c1, w1) = (r, s')" by simp
      from Cons.IH [OF this] conn_send_members [OF send] show ?thesis by simp
    qed
  qed
qed

lemma bus_handleOutgoing_frame:
  assumes "bus_handleOutgoing ca api dbg da so n (b, w, z) = (r, (b', w', z'))"
  shows "\<exists>c'. b' = b\<lparr>connection := c'\<rparr> \<and> c' = connection b
    \<and> conn_members (c', w') = conn_members (connection b, w)"
proof -
  obtain r1 b1 w1 where send: "sendNotification ca api dbg n (b, w) = (r1, (b1, w1))"
    by (metis prod.exhaust)
  have "b' = b1" "w' = w1"
    using assms send by (auto simp: bus_handleOutgoing_def split: sum.splits prod.splits)
  moreover have "\<exists>c'. b1 = b\<lparr>connection := c'\<rparr> \<and> c' = connection b
      \<and> conn_members (c', w1) = conn_members (connection b, w)"
  proof (cases "addGroups (MAX_GROUP_NAME api) (on_groups n) (setQOS (on_qos n) message_new)")
    case (Pair q m)
    show ?thesis
    proof (cases q)
      case (Inl e)
      with Pair send show ?thesis
        by (intro exI [of _ "connection b"]) (auto simp: sendNotification_def)
    next
      case (Inr x)
      obtain r2 c2 w2 where fr: "send_fragments ca api dbg (length (on_fragments n))
          (on_fragments n) m (connection b, w) = (r2, (c2, w2))"
        by (metis prod.exhaust)
      with Pair Inr send have "b1 = b\<lparr>connection := c2\<rparr>" "w1 = w2"
        by (auto simp: sendNotification_def)
      with send_fragments_members [OF fr] show ?thesis by auto
    qed
  qed
  ultimately show ?thesis by simp
qed

lemma mm_join_conn [frame_rules]: "mm_join (conn_join api) g (gm, (c, w)) = (r, (gm', (c', w'))) \<Longrightarrow> c' = c"
  by (auto simp: mm_join_def split: option.splits prod.splits sum.splits dest: frame_rules)

lemma mm_leave_conn [frame_rules]: "mm_leave dbg (conn_leave api) g (gm, (c, w)) = (r, (gm', (c', w'))) \<Longrightarrow> c' = c"
  by (auto simp: mm_leave_def split: option.splits prod.splits if_splits dest: frame_rules)

lemma session_start_inv:
  assumes "bus_activate api (bus_new da (conn_new win32 junk h p), w, z) = (Inr (), st)"
  shows "session_inv sa api ({#}, st)"
proof -
  obtain b' w' z' where st: "st = (b', w', z')" by (metis prod.exhaust)
  obtain c t where act: "conn_activate api (conn_new win32 junk h p, w) = (Inr (), (c, w'))"
    and b': "b' = (bus_new da (conn_new win32 junk h p))\<lparr>connection := c, receiver := Some t,
      bus_active := True\<rparr>"
    using assms st by (auto simp: bus_activate_def bus_new_def split: prod.splits sum.splits)
  have "connected c" using act
    by (auto simp: conn_activate_def Let_def split: if_splits prod.splits)
  then show ?thesis using b' by (simp add: st session_inv_def bus_new_def mm_new_def max_refs_def)
qed

lemma session_step_inv:
  assumes "session_step sa api dbg da ca so s s'" and "session_inv sa api s"
    and "digest_printable sa"
  shows "session_inv sa api s'"
  using assms(1,2)
proof (cases rule: session_step.cases)
  case (add scope sink st r st' regs)
  let ?g = "scopeToGroup sa (MAX_GROUP_NAME api) scope"
  obtain b w z where st: "st = (b, w, z)" by (metis prod.exhaust)
  obtain b' w' z' where st': "st' = (b', w', z')" by (metis prod.exhaust)
  have "session_inv sa api (regs, (b, w, z))" using assms(2) add(1) st by simp
  note inv = session_invD [OF this]
  have size: "size (mm_abs (memberships b)) < max_refs" using inv(1,6) by simp
  obtain gm c where join: "mm_join (conn_join api) ?g (memberships b, (connection b, w)) = (r, (gm, (c, w')))"
    and b': "memberships b' = gm" "connection b' = c" "bus_active b' = bus_active b"
      "receiver b' = receiver b"
    using add(3) st st' by (auto elim: bus_addSink_cases)
  have step: "mm_step dbg (conn_join api) (conn_leave api) (MJoin ?g)
      (memberships b, (connection b, w)) = (r, (gm, (c, w')))"
    using join by simp
  have g: "nul_free (op_group (MJoin ?g))" using scopeToGroup_nul_free [OF assms(3)] by simp
  have "count (mm_abs (memberships b)) ?g < max_refs"
    using count_le_size [of "mm_abs (memberships b)" ?g] size by simp
  from mm_join_abs [OF join inv(5) this]
  have "mm_inv gm" "mm_abs gm = image_mset (scopeToGroup sa (MAX_GROUP_NAME api))
      (case r of Inl _ \<Rightarrow> regs | Inr _ \<Rightarrow> add_mset scope regs)"
    using inv(6) by (simp_all split: sum.splits)
  moreover have "set_mset (mm_abs gm) \<subseteq> conn_members (c, w')"
    by (rule conn.mm_step_covers [OF step inv(5) size g inv(7)])
  moreover have "c = connection b" by (rule mm_join_conn [OF join])
  ultimately show ?thesis using add(2,4) st' inv(1-4) b'
    by (auto simp: session_inv_def split: sum.splits)
next
  case (remove scope regs sink st r st')
  let ?g = "scopeToGroup sa (MAX_GROUP_NAME api) scope"
  obtain b w z where st: "st = (b, w, z)" by (metis prod.exhaust)
  obtain b' w' z' where st': "st' = (b', w', z')" by (metis prod.exhaust)
  have "session_inv sa api (regs, (b, w, z))" using assms(2) remove(1) st by simp
  note inv = session_invD [OF this]
  have size: "size (mm_abs (memberships b)) < max_refs" using inv(1,6) by simp
  obtain gm c where leave: "mm_leave dbg (conn_leave api) ?g (memberships b, (connection b, w))
      = (r, (gm, (c, w')))"
    and b': "memberships b' = gm" "connection b' = c" "bus_active b' = bus_active b"
      "receiver b' = receiver b"
    using remove(4) st st' by (auto elim: bus_removeSink_cases)
  note abs = mm_leave_abs [OF leave inv(5)]
  have "mm_abs gm = image_mset (scopeToGroup sa (MAX_GROUP_NAME api)) (regs - {#scope#})"
    using abs(2) inv(6) remove(3) by (simp add: image_mset_Diff)
  moreover have "set_mset (mm_abs gm) \<subseteq> conn_members (c, w')"
  proof -
    have step: "mm_step dbg (conn_join api) (conn_leave api) (MLeave ?g)
        (memberships b, (connection b, w)) = (r, (gm, (c, w')))"
      using leave by simp
    have "nul_free (op_group (MLeave ?g))" using scopeToGroup_nul_free [OF assms(3)] by simp
    then show ?thesis by (rule conn.mm_step_covers [OF step inv(5) size _ inv(7)])
  qed
  moreover have "c = connection b" by (rule mm_leave_conn [OF leave])
  moreover have "size (regs - {#scope#}) < max_refs"
    using inv(1) size_mset_mono [of "regs - {#scope#}" regs] by simp
  ultimately show ?thesis using remove(2) st' inv(2-4) b' abs(1) by (simp add: session_inv_def)
next
  case (send n st r st' regs)
  obtain b w z where st: "st = (b, w, z)" by (metis prod.exhaust)
  obtain b' w' z' where st': "st' = (b', w', z')" by (metis prod.exhaust)
  show ?thesis
    using assms(2) send st st' bus_handleOutgoing_frame [of ca api dbg da so n b w z r b' w' z']
    by (auto simp: session_inv_def)
next
  case (receive m b w r m' c' w' regs z z')
  have c': "c' = connection b" and mem: "conn_members (c', w') = conn_members (connection b, w)"
    using conn_receive_members [OF receive(3)] by (auto simp only: fst_conv)
  have "b\<lparr>connection := c'\<rparr> = b" using c' by simp
  moreover have "session_inv sa api (regs, (b, w, z))" using assms(2) unfolding receive(1) .
  ultimately show ?thesis unfolding receive(2) using session_inv_frame mem c' by metis
qed

lemma session_reachable_inv:
  "session_reachable sa api dbg da ca so s \<Longrightarrow> digest_printable sa \<Longrightarrow> session_inv sa api s"
  by (induction rule: session_reachable.induct) (auto intro: session_start_inv session_step_inv)

text \<open>C15 Routing: at any time of a session, whatever sinks were added and removed, notifications
  sent and messages read, and whatever the library answered, the reference counts are exactly the
  groups of the registered scopes, with multiplicity, and the daemon has this connection in the
  group of every scope a sink is registered for; the bus is active on a connected connection with a
  receiver.\<close>

theorem registered_scopes_are_joined:
  assumes "session_reachable sa api dbg da ca so (regs, (b, w, z))" and "digest_printable sa"
  shows "mm_abs (memberships b) = image_mset (scopeToGroup sa (MAX_GROUP_NAME api)) regs
    \<and> (\<forall>scope \<in># regs.
        scopeToGroup sa (MAX_GROUP_NAME api) scope \<in> joined (mailbox (connection b)) w)
    \<and> bus_active b \<and> connected (connection b) \<and> receiver b \<noteq> None"
proof -
  note inv = session_invD [OF session_reachable_inv [OF assms]]
  show ?thesis using inv(2-4,6,7) by (auto simp: conn_members_def)
qed

lemma bus_addSink_same_state:
  assumes "bus_addSink sa api da scope sink st = (Inr (), st')" and "Suc (size regs) < max_refs"
    and "session_reachable sa api dbg da ca so (regs, st)"
  shows "session_reachable sa api dbg da ca so (add_mset scope regs, st')"
  using session_reachable.next_step [OF assms(3) session_step.add [OF assms(1,2)]] by simp

definition count_dispatcher :: "((string \<times> nat) list, string) dispatcher_api" where
  "count_dispatcher = \<lparr>disp_new = [], disp_addSink = (\<lambda>s k d. (s, k) # d),
     disp_removeSink = (\<lambda>s k d. remove1 (s, k) d), disp_size = length,
     disp_sinks = (\<lambda>al s d. map snd (filter (\<lambda>(s', k). s' = s \<and> al k) d)),
     disp_allSinks = (\<lambda>al d. filter al (map snd d))\<rparr>"

definition no_sinks :: "(string, unit, unit) sink_ops" where
  "no_sinks = \<lparr>sink_alive = (\<lambda>z k. True), sink_handleNotification = (\<lambda>k n z. (Inr (), z)),
     sink_handleError = (\<lambda>k ex z. (Inr (), z))\<rparr>"

theorem registered_scopes_are_joined_witness:
  "\<exists>b w. session_reachable sample_scopes sample_api True count_dispatcher sample_codec no_sinks
      ({#''/a''#}, (b, w, ())) \<and> mm_abs (memberships b) = {#''/a''#}
    \<and> ''/a'' \<in> joined (mailbox (connection b)) w"
proof -
  obtain st :: "(unit, (string \<times> nat) list, unit) bus_state" where act: "bus_activate sample_api
      (bus_new count_dispatcher (conn_new False 0 ''localhost'' 4803), [], ()) = (Inr (), st)"
    by (simp add: bus_activate_def bus_new_def conn_activate_def conn_new_def sample_api_def
        rt_new_def dh_new_def default_pool_def pool_new_def)
  then obtain b0 w0 where st: "st = (b0, w0, ())" and m: "memberships b0 = []"
    by (auto simp: bus_activate_def bus_new_def mm_new_def split: outcome_splits)
  have start: "session_reachable sample_scopes sample_api True count_dispatcher sample_codec no_sinks
      ({#}, st)"
    by (rule session_reachable.start [OF act])
  have "session_inv sample_scopes sample_api ({#}, st)"
    by (rule session_reachable_inv [OF start sample_scopes_printable])
  then have "connected (connection b0)" unfolding st by (rule session_invD)
  then obtain b w where "bus_addSink sample_scopes sample_api count_dispatcher ''/a'' 1 st
      = (Inr (), (b, w, ()))"
    using m by (simp add: st bus_addSink_def mm_join_def conn_join_def sample_api_def)
  then have r: "session_reachable sample_scopes sample_api True count_dispatcher sample_codec no_sinks
      ({#''/a''#}, (b, w, ()))"
    by (rule bus_addSink_same_state [OF _ _ start]) (simp add: max_refs_def)
  from registered_scopes_are_joined [OF this sample_scopes_printable]
  have "mm_abs (memberships b) = {#''/a''#} \<and> ''/a'' \<in> joined (mailbox (connection b)) w"
    by (simp add: scopeToGroup_def sample_scopes_def sample_api_def)
  with r show ?thesis by blast
qed

section \<open>A second session\<close>

lemma bus_deactivate_memberships:
  assumes "bus_deactivate api wait (b, w, z) = (Inr (), (b1, w1, z1))"
    and "\<And>st. memberships (fst (wait st)) = memberships (fst st)"
  shows "memberships b1 = memberships b"
proof -
  obtain st where start: "bus_deactivate_begin api (b, w, z) = (Inr (), st)"
    and fin: "bus_deactivate_end (wait st) = (Inr (), (b1, w1, z1))"
    using assms(1) by (auto simp: bus_deactivate_def andThen_Inr_iff)
  have "memberships (fst st) = memberships b" using start
    by (auto simp: bus_deactivate_begin_def Let_def split: if_splits prod.splits)
  moreover obtain b2 w2 z2 where "wait st = (b2, w2, z2)" by (metis prod.exhaust)
  with fin have "memberships b1 = memberships (fst (wait st))"
    by (auto simp: bus_deactivate_end_def split: prod.splits sum.splits)
  ultimately show ?thesis using assms(2) by simp
qed

text \<open>C36 Reactivation: the group memberships end with the session, the reference counts of the
  \<open>MembershipManager\<close> do not. After \<open>deactivate\<close> and \<open>activate\<close> the bus still counts every group
  as joined while the new session is in none, and adding another sink for such a scope succeeds
  without asking the library: neither the old nor the new sink hears from the network.\<close>

theorem reactivation_loses_groups:
  assumes "bus_deactivate api wait (b, w, z) = (Inr (), (b1, w1, z1))"
    and "\<And>st. memberships (fst (wait st)) = memberships (fst st)"
    and "bus_activate api (b1, w1, z1) = (Inr (), (b2, w2, z2))"
    and "mm_inv (memberships b)"
    and "scopeToGroup sa (MAX_GROUP_NAME api) scope \<in># mm_abs (memberships b)"
  shows "memberships b2 = memberships b \<and> joined (mailbox (connection b2)) w2 = {}
    \<and> (\<exists>b3. bus_addSink sa api da scope sink (b2, w2, z2) = (Inr (), (b3, w2, z2))
        \<and> connection b3 = connection b2)"
proof -
  have m1: "memberships b1 = memberships b" by (rule bus_deactivate_memberships [OF assms(1,2)])
  obtain c t where act: "conn_activate api (connection b1, w1) = (Inr (), (c, w2))"
    and b2: "b2 = b1\<lparr>connection := c, receiver := Some t, bus_active := True\<rparr>"
    using assms(3) by (auto simp: bus_activate_def split: outcome_splits)
  have m2: "memberships b2 = memberships b" using m1 b2 by simp
  moreover have "joined (mailbox (connection b2)) w2 = {}"
    using act b2 by (auto simp: conn_activate_def Let_def split: if_splits prod.splits)
  moreover obtain k where "map_of (memberships b2) (scopeToGroup sa (MAX_GROUP_NAME api) scope) = Some k"
    using assms(5) mem_mm_abs [OF assms(4)] m2 by auto
  then have "\<exists>b3. bus_addSink sa api da scope sink (b2, w2, z2) = (Inr (), (b3, w2, z2))
      \<and> connection b3 = connection b2"
    by (simp add: bus_addSink_def mm_join_def)
  ultimately show ?thesis by blast
qed

definition subscribed_bus :: "(unit, (string \<times> nat) list) bus" where
  "subscribed_bus = \<lparr>bus_active = True, connection = open_conn, memberships = [(''/a'', 1)],
     receiver = None, scopeDispatcher = [(''/a'', 1)]\<rparr>"

theorem reactivation_loses_groups_witness:
  "\<exists>b1 w1 b2 w2. bus_deactivate sample_api (\<lambda>st. st) (subscribed_bus, [SpJoin 7 ''/a'' 0], ())
        = (Inr (), (b1, w1, ()))
    \<and> bus_activate sample_api (b1, w1, ()) = (Inr (), (b2, w2, ()))
    \<and> memberships b2 = [(''/a'', 1)] \<and> joined (mailbox (connection b2)) w2 = {}"
proof -
  obtain b1 w1 where d: "bus_deactivate sample_api (\<lambda>st. st)
      (subscribed_bus, [SpJoin 7 ''/a'' 0], ()) = (Inr (), (b1, w1, ()))"
    and off: "\<not> bus_active b1" "\<not> connected (connection b1)"
    by (simp add: bus_deactivate_def bus_deactivate_begin_def bus_deactivate_end_def
        subscribed_bus_def conn_interruptReceive_def conn_deactivate_def open_conn_def conn_new_def
        Let_def)
  then obtain b2 w2 where a: "bus_activate sample_api (b1, w1, ()) = (Inr (), (b2, w2, ()))"
    by (simp add: bus_activate_def conn_activate_def sample_api_def rt_new_def dh_new_def
        default_pool_def pool_new_def Let_def)
  have m: "mm_inv (memberships subscribed_bus)"
    "scopeToGroup sample_scopes (MAX_GROUP_NAME sample_api) ''/a'' \<in># mm_abs (memberships subscribed_bus)"
    by (simp_all add: subscribed_bus_def mm_inv_def scopeToGroup_def sample_scopes_def sample_api_def)
  from reactivation_loses_groups [OF d _ a m]
  have "memberships b2 = [(''/a'', 1)] \<and> joined (mailbox (connection b2)) w2 = {}"
    by (simp add: subscribed_bus_def)
  with d a show ?thesis by blast
qed

section \<open>From the network to the sinks\<close>

definition sinks_total :: "('sc, 'm, 'z) sink_ops \<Rightarrow> bool" where
  "sinks_total so \<longleftrightarrow> (\<forall>k n z. \<exists>z'. sink_handleNotification so k n z = (Inr (), z'))"

definition tell_sinks ::
  "('d, 'sc) dispatcher_api \<Rightarrow> ('sc, 'm, 'z) sink_ops \<Rightarrow> 'd \<Rightarrow> ('sc, 'm) transport_notification \<Rightarrow> 'z \<Rightarrow> 'z" where
  "tell_sinks da so d n z = fold (\<lambda>k z. snd (sink_handleNotification so k n z))
     (disp_sinks da (sink_alive so z) (nf_scope n) d) z"

lemma map_sinks_total:
  assumes "\<And>k z. \<exists>z'. f k z = (Inr (), z')"
  shows "map_sinks f ks z = (Inr (), fold (\<lambda>k z. snd (f k z)) ks z)"
proof (induction ks arbitrary: z)
  case Nil
  then show ?case by simp
next
  case (Cons k ks)
  obtain z' where "f k z = (Inr (), z')" using assms by blast
  with Cons show ?case by simp
qed

lemma bus_handleIncoming_total:
  "sinks_total so \<Longrightarrow> bus_handleIncoming da so d n z = (Inr (), tell_sinks da so d n z)"
  by (simp add: bus_handleIncoming_def tell_sinks_def map_sinks_total sinks_total_def)

text \<open>C20 Delivery to sinks: while the receiver's bus is alive, \<open>receive\<close> succeeds, no message is
  rejected and no sink throws, every notification made of the received messages is handed to every
  sink the dispatcher has for its scope, in order, each once, and the receiver goes on. When the bus
  is gone the receiver goes on too and tells nobody.\<close>

theorem notifications_reach_sinks:
  assumes "reads api dbg ticks s = Some (ms, s')"
    and "dh_run ca sa dbg ms (messageHandler t) = (rs, p')" and "\<forall>r \<in> set rs. \<exists>x. r = Inr x"
    and "sinks_total so" and "\<not> taskCancelled t"
  shows "receiver_run ca sa api dbg is_comm (weak_handler da so (Some d)) ticks (t, s, z)
      = (Inr (), (t\<lparr>messageHandler := p'\<rparr>, s', fold (tell_sinks da so d) (delivered rs) z))
    \<and> receiver_run ca sa api dbg is_comm (weak_handler da so None) ticks (t, s, z)
      = (Inr (), (t\<lparr>messageHandler := p'\<rparr>, s', z))"
proof -
  have "handler_keeps (\<lambda>z. True) (weak_handler da so locked)" for locked
    using assms(4) by (cases locked)
      (auto simp: handler_keeps_def weak_handler_def bus_handleIncoming_total)
  note run = receiver_run_delivers [OF assms(1-3) this TrueI assms(5)]
  have "hand_over (weak_handler da so (Some d)) ns z = fold (tell_sinks da so d) ns z" for ns z
    using assms(4) by (simp add: hand_over_def weak_handler_def bus_handleIncoming_total)
  moreover have "hand_over (weak_handler da so None) ns z = z" for ns z
    by (induction ns) (simp_all add: hand_over_def weak_handler_def)
  ultimately show ?thesis using run by simp
qed

definition noting_sinks ::
  "(string, unit, (nat \<times> (string, unit) transport_notification) list) sink_ops" where
  "noting_sinks = \<lparr>sink_alive = (\<lambda>z k. True),
     sink_handleNotification = (\<lambda>k n z. (Inr (), z @ [(k, n)])),
     sink_handleError = (\<lambda>k ex z. (Inr (), z))\<rparr>"

theorem notifications_reach_sinks_witness:
  "\<exists>t s n. receiver_run sample_codec sample_scopes parts_api True (\<lambda>ex. False)
      (weak_handler count_dispatcher noting_sinks (Some [(''/'', 4), (''/b'', 5), (''/'', 6)])) [0, 1]
      (\<lparr>messageHandler = sample_pool, taskCancelled = False\<rparr>, (open_conn, []), [])
        = (Inr (), (t, s, [(4, n), (6, n)]))
    \<and> nf_serializedPayload n = ''abcd''"
proof -
  obtain n p' where run: "dh_run sample_codec sample_scopes True
      [(0, received_part 1), (1, received_part 0)] sample_pool = ([Inr None, Inr (Some n)], p')"
    and n: "nf_scope n = ''/''" "nf_serializedPayload n = ''abcd''"
    using dh_run_parts by blast
  have "sinks_total noting_sinks" by (simp add: sinks_total_def noting_sinks_def)
  from notifications_reach_sinks [OF reads_parts _ _ this, of sample_codec sample_scopes
      "\<lparr>messageHandler = sample_pool, taskCancelled = False\<rparr>" "[Inr None, Inr (Some n)]" p'
      "\<lambda>ex. False" count_dispatcher "[(''/'', 4), (''/b'', 5), (''/'', 6)]" "[]"]
  show ?thesis using run n
    by (simp add: tell_sinks_def count_dispatcher_def noting_sinks_def del: dh_run.simps)
qed

end
