(* ===== verification/InConnector.thy ===== *)
theory InConnector
  imports BusSession
begin

text \<open>
  \<open>InConnector\<close> (\<open>InConnector.h\<close>, \<open>InConnector.cpp\<close>): a sink of the bus that turns notifications
  into events and hands them to its handlers. The converters, \<open>fillEvent\<close> and the texts of
  exceptions are parameters (\<open>in_event_api\<close>); a handler is a function on the state \<open>'u\<close> of the
  application. What is logged and printed is kept, \<open>exit(1)\<close> ends the process.
\<close>

section \<open>State\<close>

datatype error_strategy = ERROR_STRATEGY_LOG | ERROR_STRATEGY_PRINT | ERROR_STRATEGY_EXIT

datatype report = Logged string | Printed string | LoggedFatal string

record ('sc, 'ev, 'u) in_connector =
  ic_active :: bool
  ic_scope :: "'sc"
  errorStrategy :: error_strategy
  ic_handlers :: "('ev \<Rightarrow> 'u \<Rightarrow> (unit, 'u) outcome) list"

text \<open>
  \<open>ie_deserialize\<close> looks up the converter of a wire schema and deserialises; \<open>ie_fillEvent\<close> may fill
  a part of the event before it throws.
\<close>

record ('ev, 'm, 'dt) in_event_api =
  new_event :: "'ev"
  ie_deserialize :: "string \<Rightarrow> string \<Rightarrow> exn + 'dt"
  ie_fillEvent :: "'m notification \<Rightarrow> 'dt \<Rightarrow> 'ev \<Rightarrow> (unit, 'ev) outcome"
  ie_setReceiveTime :: "int \<Rightarrow> 'ev \<Rightarrow> 'ev"
  exn_what :: "exn \<Rightarrow> string"
  exceptionInfo :: "exn \<Rightarrow> string"

text \<open>The scope of a new connector is the default one, its handlers are added by the core.\<close>

definition ic_new :: "'sc \<Rightarrow> ('sc, 'ev, 'u) in_connector" where
  "ic_new default_scope = \<lparr>ic_active = False, ic_scope = default_scope,
     errorStrategy = ERROR_STRATEGY_LOG, ic_handlers = []\<rparr>"

section \<open>Activation\<close>

text \<open>
  The bus is reached through its interface, so its operations are arguments; \<open>self\<close> is the
  connector as a sink.
\<close>

definition ic_activate ::
  "('sc \<Rightarrow> nat \<Rightarrow> 'b \<Rightarrow> (unit, 'b) outcome) \<Rightarrow> nat \<Rightarrow> ('sc, 'ev, 'u) in_connector \<times> 'b
     \<Rightarrow> (unit, ('sc, 'ev, 'u) in_connector \<times> 'b) outcome" where
  "ic_activate add_sink self s = (case s of (ic, b) \<Rightarrow>
     (case base_activate (ic_active ic) of
        (Inl ex, _) \<Rightarrow> (Inl ex, (ic, b))
      | (Inr _, _) \<Rightarrow>
          (case add_sink (ic_scope ic) self b of
             (Inl ex, b') \<Rightarrow> (Inl ex, (ic, b'))
           | (Inr _, b') \<Rightarrow> (Inr (), (ic\<lparr>ic_active := True\<rparr>, b')))))"

definition ic_deactivate ::
  "('sc \<Rightarrow> nat \<Rightarrow> 'b \<Rightarrow> (unit, 'b) outcome) \<Rightarrow> nat \<Rightarrow> ('sc, 'ev, 'u) in_connector \<times> 'b
     \<Rightarrow> (unit, ('sc, 'ev, 'u) in_connector \<times> 'b) outcome" where
  "ic_deactivate remove_sink self s = (case s of (ic, b) \<Rightarrow>
     (case base_deactivate (ic_active ic) of
        (Inl ex, _) \<Rightarrow> (Inl ex, (ic, b))
      | (Inr _, _) \<Rightarrow>
          (case remove_sink (ic_scope ic) self b of
             (Inl ex, b') \<Rightarrow> (Inl ex, (ic, b'))
           | (Inr _, b') \<Rightarrow> (Inr (), (ic\<lparr>ic_active := False\<rparr>, b')))))"

definition ic_destroy ::
  "('sc \<Rightarrow> nat \<Rightarrow> 'b \<Rightarrow> (unit, 'b) outcome) \<Rightarrow> nat \<Rightarrow> ('sc, 'ev, 'u) in_connector \<times> 'b
     \<Rightarrow> (unit, ('sc, 'ev, 'u) in_connector \<times> 'b) outcome" where
  "ic_destroy remove_sink self s =
     (if ic_active (fst s) then ic_deactivate remove_sink self s else (Inr (), s))"

definition ic_setScope ::
  "bool \<Rightarrow> 'sc \<Rightarrow> ('sc, 'ev, 'u) in_connector \<Rightarrow> (unit, ('sc, 'ev, 'u) in_connector) outcome" where
  "ic_setScope dbg scope ic =
     andThen (assertC dbg (\<not> ic_active ic) ic) (\<lambda>_ ic. (Inr (), ic\<lparr>ic_scope := scope\<rparr>))"

definition ic_setQualityOfServiceSpecs ::
  "ordering_spec \<times> reliability_spec \<Rightarrow> ('sc, 'ev, 'u) in_connector \<Rightarrow> ('sc, 'ev, 'u) in_connector" where
  "ic_setQualityOfServiceSpecs specs ic = ic"

definition ic_setErrorStrategy ::
  "error_strategy \<Rightarrow> ('sc, 'ev, 'u) in_connector \<Rightarrow> ('sc, 'ev, 'u) in_connector" where
  "ic_setErrorStrategy strategy ic = ic\<lparr>errorStrategy := strategy\<rparr>"

section \<open>Errors\<close>

definition error_message :: "('ev, 'm, 'dt) in_event_api \<Rightarrow> string \<Rightarrow> exn \<Rightarrow> string" where
  "error_message ie context ex = ''Error '' @ context @ '': '' @ exn_what ie ex
     @ [CHR 0x0A, CHR 0x0A] @ exceptionInfo ie ex @ [CHR 0x0A]"

definition ic_report ::
  "('ev, 'm, 'dt) in_event_api \<Rightarrow> error_strategy \<Rightarrow> string \<Rightarrow> exn \<Rightarrow> string \<Rightarrow> string \<Rightarrow> report list
     \<Rightarrow> (unit, report list) outcome" where
  "ic_report ie strategy context ex continueDescription abortDescription out =
     (let message = error_message ie context ex in
      case strategy of
        ERROR_STRATEGY_LOG \<Rightarrow> (Inr (), out @ [Logged (message @ continueDescription)])
      | ERROR_STRATEGY_PRINT \<Rightarrow> (Inr (), out @ [Printed (message @ continueDescription @ [CHR 0x0A])])
      | ERROR_STRATEGY_EXIT \<Rightarrow>
          (Inl (ProcessExit 1), out @ [LoggedFatal (message @ abortDescription)]))"

definition ic_handleError ::
  "('ev, 'm, 'dt) in_event_api \<Rightarrow> ('sc, 'ev, 'u) in_connector \<Rightarrow> exn \<Rightarrow> report list
     \<Rightarrow> (unit, report list) outcome" where
  "ic_handleError ie ic ex out =
     ic_report ie (errorStrategy ic) ''receiving Spread message'' ex ''Skipping message'' ''Terminating'' out"

section \<open>Handling a notification\<close>

text \<open>The \<open>try\<close> block of \<open>notificationToEvent\<close>, with the event it leaves behind.\<close>

definition decode_event ::
  "('ev, 'm, 'dt) in_event_api \<Rightarrow> int \<Rightarrow> ('sc, 'm) transport_notification \<Rightarrow> (unit, 'ev) outcome" where
  "decode_event ie now n =
     (case ie_deserialize ie (nf_wireSchema n) (nf_serializedPayload n) of
        Inl ex \<Rightarrow> (Inl ex, new_event ie)
      | Inr deserialized \<Rightarrow>
          andThen (ie_fillEvent ie (nf_notification n) deserialized (new_event ie))
            (\<lambda>_ event. (Inr (), ie_setReceiveTime ie now event)))"

definition notificationToEvent ::
  "('ev, 'm, 'dt) in_event_api \<Rightarrow> error_strategy \<Rightarrow> int \<Rightarrow> ('sc, 'm) transport_notification
     \<Rightarrow> report list \<Rightarrow> ('ev, report list) outcome" where
  "notificationToEvent ie strategy now n out =
     (case decode_event ie now n of
        (Inr _, event) \<Rightarrow> (Inr event, out)
      | (Inl ex, event) \<Rightarrow>
          if is_std_exception ex then
            andThen (ic_report ie strategy ''deserializing notification'' ex
                ''Continue with next notification'' ''Terminating'' out)
              (\<lambda>_ out'. (Inr event, out'))
          else (Inl ex, out))"

text \<open>The loop over the handlers; an exception ends it.\<close>

fun call_handlers ::
  "('ev \<Rightarrow> 'u \<Rightarrow> (unit, 'u) outcome) list \<Rightarrow> 'ev \<Rightarrow> 'u \<Rightarrow> (unit, 'u) outcome" where
  "call_handlers [] event u = (Inr (), u)"
| "call_handlers (h # hs) event u = andThen (h event u) (\<lambda>_. call_handlers hs event)"

text \<open>The pointer \<open>event\<close> is never null, so the test of it always succeeds.\<close>

definition ic_handleNotification ::
  "('ev, 'm, 'dt) in_event_api \<Rightarrow> int \<Rightarrow> ('sc, 'ev, 'u) in_connector \<Rightarrow> ('sc, 'm) transport_notification
     \<Rightarrow> 'u \<times> report list \<Rightarrow> (unit, 'u \<times> report list) outcome" where
  "ic_handleNotification ie now ic n s = (case s of (u, out) \<Rightarrow>
     (case notificationToEvent ie (errorStrategy ic) now n out of
        (Inl ex, out') \<Rightarrow> (Inl ex, (u, out'))
      | (Inr event, out') \<Rightarrow>
          (case call_handlers (ic_handlers ic) event u of
             (Inr _, u') \<Rightarrow> (Inr (), (u', out'))
           | (Inl ex, u') \<Rightarrow>
               if is_std_exception ex then
                 (case ic_report ie (errorStrategy ic) ''dispatching event to handlers'' ex
                         ''Continuing with next event'' ''Terminating'' out' of
                    (r, out'') \<Rightarrow> (r, (u', out'')))
               else (Inl ex, (u', out')))))"

section \<open>Errors stay inside the connector\<close>

text \<open>Everything the connector calls throws only exceptions derived from \<open>std::exception\<close>.\<close>

definition std_failures :: "('ev, 'm, 'dt) in_event_api \<Rightarrow> ('sc, 'ev, 'u) in_connector \<Rightarrow> bool" where
  "std_failures ie ic \<longleftrightarrow>
     (\<forall>s p ex. ie_deserialize ie s p = Inl ex \<longrightarrow> is_std_exception ex)
   \<and> (\<forall>n d ev ex ev'. ie_fillEvent ie n d ev = (Inl ex, ev') \<longrightarrow> is_std_exception ex)
   \<and> (\<forall>h \<in> set (ic_handlers ic). \<forall>ev u ex u'. h ev u = (Inl ex, u') \<longrightarrow> is_std_exception ex)"

lemma decode_event_std:
  "std_failures ie ic \<Longrightarrow> decode_event ie now n = (Inl ex, ev) \<Longrightarrow> is_std_exception ex"
  by (auto simp: decode_event_def std_failures_def andThen_Inl_iff split: sum.splits) blast

lemma call_handlers_std:
  assumes "\<forall>h \<in> set hs. \<forall>ev u ex u'. h ev u = (Inl ex, u') \<longrightarrow> is_std_exception ex"
    and "call_handlers hs event u = (Inl ex, u')"
  shows "is_std_exception ex"
  using assms by (induction hs arbitrary: u) (auto simp: andThen_Inl_iff, blast)

text \<open>What is to be reported of a result: nothing, or the error with its context, the text of the exception and
  what happens next, where the strategy says.\<close>

definition error_report ::
  "('ev, 'm, 'dt) in_event_api \<Rightarrow> error_strategy \<Rightarrow> string \<Rightarrow> string \<Rightarrow> exn \<Rightarrow> report" where
  "error_report ie strategy context continue ex =
     (let report = ''Error '' @ context @ '': '' @ exn_what ie ex @ [CHR 0x0A, CHR 0x0A]
        @ exceptionInfo ie ex @ [CHR 0x0A] @ continue
      in if strategy = ERROR_STRATEGY_PRINT then Printed (report @ [CHR 0x0A]) else Logged report)"

fun failure_report ::
  "('ev, 'm, 'dt) in_event_api \<Rightarrow> error_strategy \<Rightarrow> string \<Rightarrow> string \<Rightarrow> exn + 'a \<Rightarrow> report list" where
  "failure_report ie strategy context continue (Inr x) = []"
| "failure_report ie strategy context continue (Inl ex) = [error_report ie strategy context continue ex]"

lemma ic_report_contained:
  "strategy \<noteq> ERROR_STRATEGY_EXIT \<Longrightarrow> ic_report ie strategy context ex cont abort out
     = (Inr (), out @ [error_report ie strategy context cont ex])"
  by (cases strategy) (simp_all add: ic_report_def error_report_def error_message_def Let_def)

lemma ic_handleNotification_ok:
  assumes "decode_event ie now n = (Inr (), event)"
  shows "ic_handleNotification ie now ic n (u, out) =
    (case call_handlers (ic_handlers ic) event u of
       (Inr _, u') \<Rightarrow> (Inr (), (u', out))
     | (Inl ex, u') \<Rightarrow>
         if is_std_exception ex then
           (case ic_report ie (errorStrategy ic) ''dispatching event to handlers'' ex
                   ''Continuing with next event'' ''Terminating'' out of
              (r, out') \<Rightarrow> (r, (u', out')))
         else (Inl ex, (u', out)))"
  using assms by (simp add: ic_handleNotification_def notificationToEvent_def)

lemma ic_contained:
  assumes "errorStrategy ic \<noteq> ERROR_STRATEGY_EXIT" and "std_failures ie ic"
  shows "ic_handleNotification ie now ic n (u, out) =
    (case decode_event ie now n of (decoded, event) \<Rightarrow>
     case call_handlers (ic_handlers ic) event u of (handled, u') \<Rightarrow>
       (Inr (), (u', out
         @ failure_report ie (errorStrategy ic) ''deserializing notification'' ''Continue with next notification'' decoded
         @ failure_report ie (errorStrategy ic) ''dispatching event to handlers'' ''Continuing with next event'' handled)))"
proof -
  obtain r event where dec: "decode_event ie now n = (r, event)" by (metis surj_pair)
  obtain r' u' where call: "call_handlers (ic_handlers ic) event u = (r', u')" by (metis surj_pair)
  note contained = ic_report_contained [OF assms(1)]
  have "notificationToEvent ie (errorStrategy ic) now n out = (Inr event, out
      @ failure_report ie (errorStrategy ic) ''deserializing notification'' ''Continue with next notification'' r)"
    using dec decode_event_std [OF assms(2)]
    by (cases r) (auto simp: notificationToEvent_def contained)
  moreover have "is_std_exception ex" if "r' = Inl ex" for ex
    using call_handlers_std [of "ic_handlers ic"] assms(2) call that by (auto simp: std_failures_def)
  ultimately show ?thesis
    using dec call by (cases r') (auto simp: ic_handleNotification_def contained)
qed

lemma ic_handleNotification_returns:
  assumes "errorStrategy ic \<noteq> ERROR_STRATEGY_EXIT" and "std_failures ie ic"
  shows "ic_handleNotification ie now ic n (u, out)
    = (Inr (), snd (ic_handleNotification ie now ic n (u, out)))"
  using ic_contained [OF assms, of now n u out] by (simp split: prod.splits)

text \<open>C28 Containment: unless the error strategy is \<open>EXIT\<close>, no failure of a converter, of
  \<open>fillEvent\<close> or of a handler leaves \<open>handleNotification\<close>, whatever the notification: the call
  returns, so the bus goes on with the next sink and the receiver with the next message. Each failure is
  reported, with the strategy's means and the text of its exception: first the one of decoding, if there is
  one, then the one of dispatching, if there is one, and nothing else. The handlers are called in both cases,
  after a failed decoding with the event as far as it has been filled.\<close>

theorem connector_contains_errors:
  assumes "errorStrategy ic \<noteq> ERROR_STRATEGY_EXIT" and "std_failures ie ic"
  shows "ic_handleNotification ie now ic n (u, out) =
    (case decode_event ie now n of (decoded, event) \<Rightarrow>
     case call_handlers (ic_handlers ic) event u of (handled, u') \<Rightarrow>
       (Inr (), (u', out
         @ failure_report ie (errorStrategy ic) ''deserializing notification'' ''Continue with next notification'' decoded
         @ failure_report ie (errorStrategy ic) ''dispatching event to handlers'' ''Continuing with next event'' handled)))"
  by (rule ic_contained [OF assms])

text \<open>A handler that collects events and one that throws; payloads \<open>''bad''\<close> cannot be decoded.\<close>

definition sample_in_events :: "(string, unit, string) in_event_api" where
  "sample_in_events = \<lparr>new_event = ''empty'',
     ie_deserialize = (\<lambda>schema p. if p = ''bad'' then Inl (OtherException ''no converter'') else Inr p),
     ie_fillEvent = (\<lambda>n d ev. (Inr (), d)), ie_setReceiveTime = (\<lambda>now ev. ev),
     exn_what = (\<lambda>ex. ''what''), exceptionInfo = (\<lambda>ex. ''info'')\<rparr>"

definition sample_in_connector :: "(string, string, string list) in_connector" where
  "sample_in_connector = (ic_new ''/'')\<lparr>ic_handlers :=
     [\<lambda>ev u. (Inr (), u @ [ev]), \<lambda>ev u. (Inl (OtherException ''handler''), u)]\<rparr>"

definition sample_notification :: "string \<Rightarrow> (string, unit) transport_notification" where
  "sample_notification p = \<lparr>nf_scope = ''/'', nf_wireSchema = ''utf-8'', nf_serializedPayload = p,
     nf_notification = fn_notification (sample_part 1 0 p 1)\<rparr>"

lemma sample_std_failures: "std_failures sample_in_events sample_in_connector"
  by (auto simp: std_failures_def sample_in_events_def sample_in_connector_def)

theorem connector_contains_errors_witness:
  "ic_handleNotification sample_in_events 0 sample_in_connector (sample_notification ''bad'') ([], [])
    = (Inr (), ([''empty''],
        [Logged (''Error deserializing notification: what'' @ [CHR 0x0A, CHR 0x0A] @ ''info'' @ [CHR 0x0A]
           @ ''Continue with next notification''),
         Logged (''Error dispatching event to handlers: what'' @ [CHR 0x0A, CHR 0x0A] @ ''info'' @ [CHR 0x0A]
           @ ''Continuing with next event'')]))"
proof -
  have "errorStrategy sample_in_connector \<noteq> ERROR_STRATEGY_EXIT"
    by (simp add: sample_in_connector_def ic_new_def)
  from connector_contains_errors [OF this sample_std_failures, of 0 "sample_notification ''bad''" "[]" "[]"]
  show ?thesis
    by (simp add: decode_event_def sample_in_events_def sample_in_connector_def sample_notification_def
        ic_new_def error_report_def)
qed

text \<open>Undecodable notifications are dispatched: when no converter can decode a notification, the
  connector reports the error and, unless it terminates the process, hands its handlers the event
  object it created before decoding; the test \<open>if (event)\<close> never skips it.\<close>

lemma undecodable_notification_reaches_handlers:
  assumes "ie_deserialize ie (nf_wireSchema n) (nf_serializedPayload n) = Inl ex"
    and "is_std_exception ex" and "call_handlers (ic_handlers ic) (new_event ie) u = (Inr (), u')"
  shows "\<exists>r. ic_handleNotification ie now ic n (u, out) =
    (if errorStrategy ic = ERROR_STRATEGY_EXIT then (Inl (ProcessExit 1), (u, out @ [r]))
     else (Inr (), (u', out @ [r])))"
  using assms
  by (cases "errorStrategy ic")
    (simp_all add: ic_handleNotification_def notificationToEvent_def decode_event_def ic_report_def
      Let_def)

lemma undecodable_notification_reaches_handlers_witness:
  "\<exists>r. ic_handleNotification sample_in_events 0
      (sample_in_connector\<lparr>ic_handlers := [\<lambda>ev u. (Inr (), u @ [ev])]\<rparr>)
      (sample_notification ''bad'') ([], []) = (Inr (), ([''empty''], [r]))"
  using undecodable_notification_reaches_handlers [of sample_in_events "sample_notification ''bad''"
      "OtherException ''no converter''"
      "sample_in_connector\<lparr>ic_handlers := [\<lambda>ev u. (Inr (), u @ [ev])]\<rparr>" "[]" "[''empty'']" 0 "[]"]
  by (simp add: sample_in_events_def sample_notification_def sample_in_connector_def ic_new_def)

end
