(* ===== verification/Delivery.thy ===== *)
theory Delivery
  imports EndToEnd InConnector
begin

text \<open>
  The whole way of an event: from the \<open>OutConnector\<close> of one process through its bus and the network
  to the receiver, the bus and the \<open>InConnector\<close>s of another process, and to their handlers. The sinks
  of the receiving bus are \<open>InConnector\<close>s here, so its calls of \<open>Sink::handleNotification\<close> are those of
  \<open>InConnector::handleNotification\<close>.
\<close>

section \<open>Connectors as sinks\<close>

text \<open>A sink number is the connector with its state, if it is still alive.\<close>

type_synonym ('sc, 'ev, 'u) connectors =
  "nat \<Rightarrow> (('sc, 'ev, 'u) in_connector \<times> ('u \<times> report list)) option"

definition connector_sinks ::
  "('ev, 'm, 'dt) in_event_api \<Rightarrow> int \<Rightarrow> ('sc, 'm, ('sc, 'ev, 'u) connectors) sink_ops" where
  "connector_sinks ie now = \<lparr>sink_alive = (\<lambda>z k. z k \<noteq> None),
     sink_handleNotification = (\<lambda>k n z. case z k of
         None \<Rightarrow> (Inr (), z)
       | Some (ic, s) \<Rightarrow>
           (case ic_handleNotification ie now ic n s of (r, s') \<Rightarrow> (r, z(k \<mapsto> (ic, s'))))),
     sink_handleError = (\<lambda>k ex z. case z k of
         None \<Rightarrow> (Inr (), z)
       | Some (ic, (u, out)) \<Rightarrow>
           (case ic_handleError ie ic ex out of (r, out') \<Rightarrow> (r, z(k \<mapsto> (ic, (u, out'))))))\<rparr>"

text \<open>No connector ends the process, and what it calls throws only standard exceptions.\<close>

definition connectors_ok ::
  "('ev, 'm, 'dt) in_event_api \<Rightarrow> ('sc, 'ev, 'u) connectors \<Rightarrow> bool" where
  "connectors_ok ie z \<longleftrightarrow> (\<forall>k ic s. z k = Some (ic, s) \<longrightarrow>
     errorStrategy ic \<noteq> ERROR_STRATEGY_EXIT \<and> std_failures ie ic)"

text \<open>What a connector makes of a sequence of notifications.\<close>

definition ic_run ::
  "('ev, 'm, 'dt) in_event_api \<Rightarrow> int \<Rightarrow> ('sc, 'ev, 'u) in_connector
     \<Rightarrow> ('sc, 'm) transport_notification list \<Rightarrow> 'u \<times> report list \<Rightarrow> 'u \<times> report list" where
  "ic_run ie now ic ns s = fold (\<lambda>n s. snd (ic_handleNotification ie now ic n s)) ns s"

lemma ic_run_simps [simp]:
  "ic_run ie now ic [] s = s"
  "ic_run ie now ic (n # ns) s = ic_run ie now ic ns (snd (ic_handleNotification ie now ic n s))"
  "ic_run ie now ic (ns @ ns') s = ic_run ie now ic ns' (ic_run ie now ic ns s)"
  by (simp_all add: ic_run_def)

definition take_all ::
  "('ev, 'm, 'dt) in_event_api \<Rightarrow> int \<Rightarrow> ('sc, 'm) transport_notification list
     \<Rightarrow> (('sc, 'ev, 'u) in_connector \<times> ('u \<times> report list)) option
     \<Rightarrow> (('sc, 'ev, 'u) in_connector \<times> ('u \<times> report list)) option" where
  "take_all ie now ns c = map_option (\<lambda>(ic, s). (ic, ic_run ie now ic ns s)) c"

lemma take_all_simps [simp]:
  "take_all ie now [] c = c"
  "take_all ie now ns None = None"
  "take_all ie now ns (Some (ic, s)) = Some (ic, ic_run ie now ic ns s)"
  "take_all ie now ns (take_all ie now ns' c) = take_all ie now (ns' @ ns) c"
  "take_all ie now ns c = None \<longleftrightarrow> c = None"
  by (cases c; auto simp: take_all_def)+

lemma connectors_ok_take:
  assumes "connectors_ok ie z" and "\<And>k. \<exists>ns. z' k = take_all ie now ns (z k)"
  shows "connectors_ok ie z'"
  unfolding connectors_ok_def
proof (intro allI impI)
  fix k ic s
  assume "z' k = Some (ic, s)"
  moreover obtain ns where "z' k = take_all ie now ns (z k)" using assms(2) by blast
  ultimately obtain s0 where "z k = Some (ic, s0)" by (cases "z k") auto
  with assms(1) show "errorStrategy ic \<noteq> ERROR_STRATEGY_EXIT \<and> std_failures ie ic"
    unfolding connectors_ok_def by blast
qed

lemma connector_returns:
  assumes "connectors_ok ie z" and "z k = Some (ic, s)"
  shows "ic_handleNotification ie now ic n s = (Inr (), snd (ic_handleNotification ie now ic n s))"
proof -
  have "errorStrategy ic \<noteq> ERROR_STRATEGY_EXIT" "std_failures ie ic"
    using assms unfolding connectors_ok_def by blast+
  from ic_handleNotification_returns [OF this, of now n "fst s" "snd s"] show ?thesis by simp
qed

lemma map_sinks_connectors:
  assumes "connectors_ok ie z" and "distinct ks"
  shows "map_sinks (\<lambda>k. sink_handleNotification (connector_sinks ie now) k n) ks z
    = (Inr (), \<lambda>k. if k \<in> set ks then take_all ie now [n] (z k) else z k)"
  using assms
proof (induction ks arbitrary: z)
  case (Cons k ks)
  let ?z = "z(k := take_all ie now [n] (z k))"
  have step: "sink_handleNotification (connector_sinks ie now) k n z = (Inr (), ?z)"
  proof (cases "z k")
    case (Some c)
    obtain ic s where c: "c = (ic, s)" by (cases c)
    with Some connector_returns [OF Cons.prems(1), of k ic s now n] show ?thesis
      by (auto simp: connector_sinks_def split: prod.splits)
  qed (auto simp: connector_sinks_def fun_upd_idem)
  have ok: "connectors_ok ie ?z"
    by (rule connectors_ok_take [OF Cons.prems(1), of _ now])
      (metis fun_upd_apply take_all_simps(1))
  have "distinct ks" using Cons.prems(2) by simp
  with ok have "map_sinks (\<lambda>k. sink_handleNotification (connector_sinks ie now) k n) ks ?z
    = (Inr (), \<lambda>j. if j \<in> set ks then take_all ie now [n] (?z j) else ?z j)" by (rule Cons.IH)
  also have "(\<lambda>j. if j \<in> set ks then take_all ie now [n] (?z j) else ?z j)
    = (\<lambda>j. if j \<in> set (k # ks) then take_all ie now [n] (z j) else z j)"
    using Cons.prems(2) by (auto simp: fun_eq_iff)
  finally show ?case by (simp only: map_sinks.simps step andThen.simps)
qed simp

section \<open>What a bus hands to a connector\<close>

text \<open>The notifications the dispatcher has a sink for.\<close>

definition addressed ::
  "('d, 'sc) dispatcher_api \<Rightarrow> 'd \<Rightarrow> ('sc, 'ev, 'u) connectors \<Rightarrow> nat \<Rightarrow> ('sc, 'm) transport_notification list
     \<Rightarrow> ('sc, 'm) transport_notification list" where
  "addressed da d z k ns =
     filter (\<lambda>n. k \<in> set (disp_sinks da (\<lambda>j. z j \<noteq> None) (nf_scope n) d)) ns"

lemma addressed_alive: "(\<And>j. z' j = None \<longleftrightarrow> z j = None) \<Longrightarrow> addressed da d z' = addressed da d z"
  by (simp add: addressed_def fun_eq_iff)

lemma incoming_connectors:
  assumes "connectors_ok ie z" and "\<And>al sc. distinct (disp_sinks da al sc d)"
  shows "h_handleIncomingNotification (weak_handler da (connector_sinks ie now) (Some d)) n z
    = (Inr (), \<lambda>k. take_all ie now (addressed da d z k [n]) (z k))"
  using map_sinks_connectors [OF assms]
  by (auto simp: weak_handler_def bus_handleIncoming_def connector_sinks_def addressed_def fun_eq_iff)

text \<open>Each connector sees the notifications of its scopes, in order, and no others.\<close>

lemma hand_over_connectors:
  assumes "connectors_ok ie z" and "\<And>al sc. distinct (disp_sinks da al sc d)"
  shows "hand_over (weak_handler da (connector_sinks ie now) (Some d)) ns z
    = (\<lambda>k. take_all ie now (addressed da d z k ns) (z k))"
  using assms(1)
proof (induction ns arbitrary: z)
  case (Cons n ns)
  let ?z = "\<lambda>k. take_all ie now (addressed da d z k [n]) (z k)"
  have "connectors_ok ie ?z" by (rule connectors_ok_take [OF Cons.prems, of _ now]) blast
  from Cons.IH [OF this] have "hand_over (weak_handler da (connector_sinks ie now) (Some d)) (n # ns) z
      = (\<lambda>k. take_all ie now (addressed da d ?z k ns) (?z k))"
    by (simp add: hand_over_def incoming_connectors [OF Cons.prems assms(2)])
  moreover have "addressed da d ?z = addressed da d z" by (rule addressed_alive) simp
  ultimately show ?case by (simp add: fun_eq_iff) (simp add: addressed_def)
qed (simp add: hand_over_def addressed_def)

lemma connectors_handler_keeps:
  fixes da :: "('d, 'sc) dispatcher_api" and ie :: "('ev, 'm, 'dt) in_event_api"
  assumes "\<And>al sc. distinct (disp_sinks da al sc d)"
  shows "handler_keeps (connectors_ok ie :: ('sc, 'ev, 'u) connectors \<Rightarrow> bool)
    (weak_handler da (connector_sinks ie now) (Some d))"
  unfolding handler_keeps_def
proof (intro allI impI exI conjI)
  fix n and z :: "('sc, 'ev, 'u) connectors"
  assume ok: "connectors_ok ie z"
  show "h_handleIncomingNotification (weak_handler da (connector_sinks ie now) (Some d)) n z
      = (Inr (), \<lambda>k. take_all ie now (addressed da d z k [n]) (z k))"
    by (rule incoming_connectors [OF ok assms])
  show "connectors_ok ie (\<lambda>k. take_all ie now (addressed da d z k [n]) (z k))"
    by (rule connectors_ok_take [OF ok, of _ now]) blast
qed

text \<open>A notification the connector can decode is passed to its handlers; at most one report follows.\<close>

lemma ic_decoded:
  assumes "decode_event ie now n = (Inr (), event)" and "errorStrategy ic \<noteq> ERROR_STRATEGY_EXIT"
    and "std_failures ie ic"
  shows "\<exists>reports. snd (ic_handleNotification ie now ic n (u, out))
      = (snd (call_handlers (ic_handlers ic) event u), out @ reports)
    \<and> length reports \<le> 1"
proof -
  obtain r u' where "call_handlers (ic_handlers ic) event u = (r, u')" by (metis surj_pair)
  then show ?thesis
    using ic_contained [OF assms(2,3), of now n u out] assms(1) by (cases r) simp_all
qed

lemma delivered_split:
  assumes "event_answers ca eid ms rs = replicate j (Inr None) @ [Inr (Some n)]"
  obtains before after where "delivered rs = before @ [n] @ after"
proof -
  have "Inr (Some n) \<in> set (event_answers ca eid ms rs)" unfolding assms by simp
  then have "Inr (Some n) \<in> set rs" by (auto simp: event_answers_def dest: set_zip_rightD)
  then obtain as bs where "rs = as @ Inr (Some n) # bs" by (auto simp: in_set_conv_decomp)
  then show ?thesis using that [of "delivered as" "delivered bs"] by simp
qed

section \<open>From handler to handler\<close>

text \<open>C1 An event published in one process reaches the handlers in another one. Let an
  \<open>OutConnector\<close> handle an event without an exception, and let the receiver of another process read
  messages among which are the packets of the event, once each, in any order, among any messages its
  deserialiser accepts. Then every connector on that bus sees the notifications of its scopes, in
  order, and a connector \<open>k\<close> registered for the scope of the event gets exactly one notification of
  the event, with its header, scope and payload, for which its handlers are called with what the
  converter of this process makes of it; whatever other
  connectors and their handlers throw does not change this.\<close>

theorem event_reaches_handlers:
  fixes ca :: "'m codec_api" and z :: "('sc, 'ev, 'u) connectors"
  assumes sender: "codec_roundtrips ca" "fills_notifications sa ea"
      "oc_handle sa maxg ca ea dbg (bus_handleOutgoing ca api dbg da so) time event (oc, (b, w, y))
        = (Inr (), (e, oc', (b', w', y')))"
      "to_wire ea e = Inr (schema, wire)"
      "headers_fit ca ea (maxFragmentSize oc) (minDataSpace oc) e schema"
      "length wire + unat (maxFragmentSize oc) < 2 ^ 32"
      "scope_parse sa (scope_toString sa (getScope ea e)) = Inr (getScope ea e)"
      "sent w' = new @ sent w"
    and network: "reads api' dbg' ticks s = Some (ms, s')"
      "mset (map getData (event_messages ca (getEventId ea e) ms)) = mset (map (\<lambda>p. snd (snd p)) new)"
    and receiver: "\<not> taskCancelled t" "dh_run ca sa dbg' ms (messageHandler t) = (rs, p')"
      "\<forall>r \<in> set rs. \<exists>x. r = Inr x"
      "\<forall>f :: 'm fragmented. nt_event_id (fn_notification f) = getEventId ea e
        \<longrightarrow> map_of (pool (messageHandler t)) (pool_key f) = None"
    and connectors: "connectors_ok ie z" "\<And>al sc. distinct (disp_sinks da' al sc d)"
      "z k = Some (ic, (u, out))" "k \<in> set (disp_sinks da' (\<lambda>j. z j \<noteq> None) (getScope ea e) d)"
      "n = event_notification ea e schema wire"
      "decode_event (ie :: ('ev, 'm, 'dt) in_event_api) now n = (Inr (), event')"
  shows "\<exists>before after u1 out1 reports z'.
      receiver_run ca sa api' dbg' is_comm (weak_handler da' (connector_sinks ie now) (Some d)) ticks (t, s, z)
        = (Inr (), (t\<lparr>messageHandler := p'\<rparr>, s', z'))
    \<and> addressed da' d z k (delivered rs) = before @ [n] @ after
    \<and> delivered (event_answers ca (getEventId ea e) ms rs) = [n]
    \<and> ic_run ie now ic before (u, out) = (u1, out1)
    \<and> ic_run ie now ic [n] (u1, out1) = (snd (call_handlers (ic_handlers ic) event' u1), out1 @ reports)
    \<and> length reports \<le> 1
    \<and> z' k = Some (ic, ic_run ie now ic (before @ [n] @ after) (u, out))"
proof -
  have answers: "event_answers ca (getEventId ea e) ms rs
      = replicate (length new - 1) (Inr None) @ [Inr (Some n)]"
    unfolding connectors(5) by (rule event_reassembled [OF sender network(2) receiver(4,2)])
  obtain ns1 ns2 where split: "delivered rs = ns1 @ [n] @ ns2"
    by (rule delivered_split [OF answers])
  let ?before = "addressed da' d z k ns1" and ?after = "addressed da' d z k ns2"
  have addr: "addressed da' d z k (delivered rs) = ?before @ [n] @ ?after"
    using connectors(4) by (simp add: split addressed_def connectors(5) event_notification_def)
  obtain u1 out1 where u1: "ic_run ie now ic ?before (u, out) = (u1, out1)" by (metis surj_pair)
  have "errorStrategy ic \<noteq> ERROR_STRATEGY_EXIT" "std_failures ie ic"
    using connectors(1,3) unfolding connectors_ok_def by blast+
  then obtain reports where reports: "ic_run ie now ic [n] (u1, out1)
      = (snd (call_handlers (ic_handlers ic) event' u1), out1 @ reports)" "length reports \<le> 1"
    using ic_decoded [OF connectors(6), of ic u1 out1] by auto
  have "receiver_run ca sa api' dbg' is_comm (weak_handler da' (connector_sinks ie now) (Some d)) ticks (t, s, z)
      = (Inr (), (t\<lparr>messageHandler := p'\<rparr>, s',
          \<lambda>j. take_all ie now (addressed da' d z j (delivered rs)) (z j)))"
    using receiver_run_delivers [where P = "connectors_ok ie", OF network(1) receiver(2,3)
        connectors_handler_keeps [OF connectors(2)] connectors(1) receiver(1)]
    by (simp add: hand_over_connectors [OF connectors(1,2)])
  moreover have "take_all ie now (addressed da' d z k (delivered rs)) (z k)
      = Some (ic, ic_run ie now ic (?before @ [n] @ ?after) (u, out))"
    by (simp add: addr connectors(3))
  ultimately show ?thesis using addr u1 reports
    by (intro exI conjI) (assumption | simp add: answers)+
qed

section \<open>A concrete delivery\<close>

text \<open>The second part of an event arrives before the first.\<close>

definition wire_message :: "nat \<Rightarrow> sp_received" where
  "wire_message i = sample_message\<lparr>rc_ret := int (length (put_fragment (sent_part i 2))),
     rc_buf := put_fragment (sent_part i 2)\<rparr>"

definition wire_api :: spread_api where
  "wire_api = sample_api\<lparr>SP_receive := (\<lambda>w m. wire_message (if w = [] then 1 else 0))\<rparr>"

definition wire_part :: "nat \<Rightarrow> spread_message" where
  "wire_part i = \<lparr>mtype = REGULAR, mqos = UNRELIABLE, mdata = put_fragment (sent_part i 2), mgroups = [''g'']\<rparr>"

lemma conn_receive_wire:
  "conn_receive wire_api True message_new (open_conn, w) = (Inr (),
     (wire_part (if w = [] then 1 else 0), (open_conn, SpReceive 7 (wire_message (if w = [] then 1 else 0)) # w)))"
  by (simp add: conn_receive_def wire_api_def sample_api_def wire_message_def sample_message_def
      wire_part_def open_conn_def conn_new_def addGroup_def message_accessors message_constructors
      c_str_def SPREAD_MAX_GROUPS_def insort_insert_key_def)

lemma reads_wire: "\<exists>s'. reads wire_api True [0, 1] (open_conn, []) = Some ([(0, wire_part 1), (1, wire_part 0)], s')"
  by (simp add: conn_receive_wire)

definition listening_connector :: "(string, string, string list) in_connector" where
  "listening_connector = (ic_new ''/a'')\<lparr>ic_handlers := [\<lambda>ev u. (Inr (), u @ [ev])]\<rparr>"

definition listening_connectors :: "(string, string, string list) connectors" where
  "listening_connectors = [4 \<mapsto> (listening_connector, ([], []))]"

lemma listening_ok: "connectors_ok sample_in_events listening_connectors"
  by (auto simp: connectors_ok_def listening_connectors_def listening_connector_def ic_new_def
      std_failures_def sample_in_events_def split: if_splits)

lemma distinct_listening: "distinct (disp_sinks count_dispatcher al sc [(''/a'', 4)])"
  by (simp add: count_dispatcher_def)

theorem event_reaches_handlers_witness:
  "\<exists>t' s' z' out. receiver_run sample_codec sample_scopes wire_api True (\<lambda>ex. False)
      (weak_handler count_dispatcher (connector_sinks sample_in_events 0) (Some [(''/a'', 4)])) [0, 1]
      (\<lparr>messageHandler = sample_pool, taskCancelled = False\<rparr>, (open_conn, []), listening_connectors)
        = (Inr (), (t', s', z'))
    \<and> z' 4 = Some (listening_connector, ([''payload of''], out))"
proof -
  let ?ms = "[(0, wire_part 1), (1, wire_part 0)]"
  let ?eid = "getEventId sample_events sample_event_sent"
  obtain oc' w' where handle: "oc_handle sample_scopes 32 sample_codec sample_events True
     (bus_handleOutgoing sample_codec sample_api True quiet_dispatcher quiet_sinks) 0 sample_event_sent
     (oc_new 13, (quiet_bus, [], ())) = (Inr (), (sample_event_sent, oc', (quiet_bus, w', ())))"
    and sent: "sent w' = sample_packets @ sent []"
    using sample_sent by blast
  note sender = sample_codec_roundtrips sample_events_fill handle sample_event_facts(1) sample_sender sent
  have frag: "message_fragment sample_codec (wire_part i) = Some (sent_part i 2)" for i
    by (simp add: message_fragment_def wire_part_def getType_def getData_def sample_codec_def
        get_put_fragment)
  have carries: "carries_event sample_codec ?eid (wire_part i)" for i
    by (rule carries_sample_part [OF frag])
  have msgs: "mset (map getData (event_messages sample_codec ?eid ?ms))
      = mset (map (\<lambda>p. snd (snd p)) sample_packets)"
    by (simp add: event_messages_def carries sample_packets_def) (simp add: wire_part_def getData_def)
  have empty: "\<forall>f :: unit fragmented. nt_event_id (fn_notification f) = ?eid
      \<longrightarrow> map_of (pool (messageHandler \<lparr>messageHandler = sample_pool, taskCancelled = False\<rparr>)) (pool_key f) = None"
    by (simp add: sample_pool_def)
  obtain s' where reads: "reads wire_api True [0, 1] (open_conn, []) = Some (?ms, s')"
    using reads_wire by blast
  obtain rs p' where run: "dh_run sample_codec sample_scopes True ?ms
      (messageHandler \<lparr>messageHandler = sample_pool, taskCancelled = False\<rparr>) = (rs, p')"
    by (metis surj_pair)
  let ?n = "event_notification sample_events sample_event_sent ''utf-8'' ''payload of''"
  have "event_answers sample_codec ?eid ?ms rs = [Inr None, Inr (Some ?n)]"
    using event_reassembled [OF sender msgs empty run] by (simp add: sample_packets_def)
  moreover have "length rs = 2" using run by (auto split: prod.splits)
  ultimately have rs: "rs = [Inr None, Inr (Some ?n)]"
    by (auto simp: event_answers_def carries numeral_2_eq_2 length_Suc_conv)
  then have ok: "\<forall>r \<in> set rs. \<exists>x. r = Inr x" by simp
  have at: "listening_connectors 4 = Some (listening_connector, ([], []))"
    "4 \<in> set (disp_sinks count_dispatcher (\<lambda>j. listening_connectors j \<noteq> None)
      (getScope sample_events sample_event_sent) [(''/a'', 4)])"
    by (simp_all add: listening_connectors_def count_dispatcher_def sample_event_facts)
  have dec: "decode_event sample_in_events 0 ?n = (Inr (), ''payload of'')"
    by (simp add: decode_event_def sample_in_events_def event_notification_def)
  have idle: "\<not> taskCancelled \<lparr>messageHandler = sample_pool, taskCancelled = False\<rparr>" by simp
  show ?thesis
    using event_reaches_handlers [OF sender reads msgs idle run ok empty listening_ok
        distinct_listening at refl dec, of "\<lambda>ex. False"]
    by (auto simp: rs addressed_def listening_connector_def Cons_eq_append_conv split: if_splits)
qed

end
