(* ===== verification/Provenance.thy ===== *)
theory Provenance
  imports ReceiverTask
begin

text \<open>
  Where a notification comes from: a handler that started with an empty pool answers a message that
  carries a part of an event with nothing or with a notification of this same event, never with one of
  another event, whatever has been received before.
\<close>

section \<open>The pool keeps parts under their key\<close>

definition holds_key :: "string \<Rightarrow> 'm assembly \<Rightarrow> bool" where
  "holds_key key a \<longleftrightarrow> (\<forall>f. Some f \<in> set (store a) \<longrightarrow> pool_key f = key)"

definition pool_keyed :: "'m assembly_pool \<Rightarrow> bool" where
  "pool_keyed p \<longleftrightarrow> (\<forall>key a. map_of (pool p) key = Some a \<longrightarrow> holds_key key a)"

lemma pool_keyed_empty: "pool p = [] \<Longrightarrow> pool_keyed p"
  by (simp add: pool_keyed_def)

lemma holds_key_add:
  assumes "holds_key (pool_key f) a" and "assembly_add dbg f a = (r, a')"
  shows "holds_key (pool_key f) a'"
  using assms set_update_subset_insert [of "store a" "unat (fn_data_part f)" "Some f"]
  by (fastforce simp: holds_key_def assembly_add_def Let_def split: if_splits)

lemma holds_key_new: "assembly_new dbg now f = Inr a \<Longrightarrow> holds_key (pool_key f) a"
  using holds_key_add [of f "\<lparr>receivedParts = 0, store = replicate (unat (fn_num_data_parts f)) None,
      birthTime = now\<rparr>" dbg]
  by (auto simp: assembly_new_def holds_key_def split: prod.splits sum.splits)

text \<open>The joined notification is the one of part 0, which has the event of the key.\<close>

lemma holds_key_complete:
  assumes "holds_key (pool_key f) a" and "getCompleteNotification dbg a = (r, a')"
  shows "holds_key (pool_key f) a'"
    and "r = Inr n \<Longrightarrow> nt_event_id n = nt_event_id (fn_notification f)"
proof -
  have key: "pool_key (g\<lparr>fn_notification := (fn_notification g)\<lparr>nt_data := d\<rparr>\<rparr>) = pool_key g"
    for g :: "'a fragmented" and d by (simp add: pool_key_eq)
  from assms key show "holds_key (pool_key f) a'"
    by (auto simp: getCompleteNotification_def holds_key_def Let_def
        split: if_splits list.splits option.splits sum.splits)
  assume "r = Inr n"
  then obtain g d where "Some g \<in> set (store a)" and "n = (fn_notification g)\<lparr>nt_data := d\<rparr>"
    using assms(2) by (auto simp: getCompleteNotification_def Let_def
        split: if_splits list.splits option.splits sum.splits)
  moreover from this assms(1) have "pool_key g = pool_key f" by (auto simp: holds_key_def)
  ultimately show "nt_event_id n = nt_event_id (fn_notification f)" by (simp add: pool_key_eq)
qed

lemma pool_keyed_update:
  assumes "pool_keyed p" and "holds_key key a"
  shows "pool_keyed (p\<lparr>pool := AList.update key a (pool p)\<rparr>)" "pool_keyed (p\<lparr>pool := AList.delete key (pool p)\<rparr>)"
  using assms by (auto simp: pool_keyed_def map_facts split: if_splits)

lemma finish_assembly_keyed:
  assumes "pool_keyed p" and "holds_key (pool_key f) a" and "finish_assembly dbg (pool_key f) a p = (r, p')"
  shows "pool_keyed p'" and "r = Inr (Some n) \<Longrightarrow> nt_event_id n = nt_event_id (fn_notification f)"
proof -
  obtain q a' where get: "getCompleteNotification dbg a = (q, a')" by (metis surj_pair)
  note complete = holds_key_complete [OF assms(2) get]
  note keyed = pool_keyed_update(1) [OF assms(1,2)] pool_keyed_update [OF assms(1) complete(1)]
  have "pool_keyed p' \<and> (r = Inr (Some n) \<longrightarrow> nt_event_id n = nt_event_id (fn_notification f))"
  proof (cases "isComplete a")
    case False
    then have "p' = p\<lparr>pool := AList.update (pool_key f) a (pool p)\<rparr>" "r = Inr None"
      using assms(3) by (simp_all add: finish_assembly_def)
    then show ?thesis using keyed(1) by simp
  next
    case True
    show ?thesis
    proof (cases q)
      case (Inl ex)
      then have "p' = p\<lparr>pool := AList.update (pool_key f) a' (pool p)\<rparr>" "r = Inl ex"
        using assms(3) True get by (simp_all add: finish_assembly_def)
      then show ?thesis using keyed(2) by simp
    next
      case (Inr x)
      then have "p' = p\<lparr>pool := AList.delete (pool_key f) (pool p)\<rparr>" "r = Inr (Some x)"
        using assms(3) True get by (simp_all add: finish_assembly_def)
      then show ?thesis using keyed(3) complete(2) [OF Inr] by auto
    qed
  qed
  then show "pool_keyed p'" and "r = Inr (Some n) \<Longrightarrow> nt_event_id n = nt_event_id (fn_notification f)"
    by simp_all
qed

lemma pool_add_keyed:
  assumes "pool_keyed p" and "pool_add dbg now f p = (r, p')"
  shows "pool_keyed p'" and "r = Inr (Some n) \<Longrightarrow> nt_event_id n = nt_event_id (fn_notification f)"
proof -
  have "pool_keyed p' \<and> (r = Inr (Some n) \<longrightarrow> nt_event_id n = nt_event_id (fn_notification f))"
  proof (cases "map_of (pool p) (pool_key f)")
    case None
    show ?thesis
    proof (cases "assembly_new dbg now f")
      case (Inl ex)
      with None assms show ?thesis by (auto simp: pool_add_def)
    next
      case (Inr a)
      with None assms(2) have fin: "finish_assembly dbg (pool_key f) a p = (r, p')" by (simp add: pool_add_def)
      from finish_assembly_keyed [OF assms(1) holds_key_new [OF Inr] this] show ?thesis by blast
    qed
  next
    case (Some a)
    then have a: "holds_key (pool_key f) a" using assms(1) by (simp add: pool_keyed_def)
    obtain q a' where add: "assembly_add dbg f a = (q, a')" by (metis surj_pair)
    note a' = holds_key_add [OF a add]
    show ?thesis
    proof (cases q)
      case (Inl ex)
      with Some add assms pool_keyed_update(1) [OF assms(1) a'] show ?thesis by (auto simp: pool_add_def)
    next
      case (Inr x)
      with Some add assms(2) have "finish_assembly dbg (pool_key f) a' p = (r, p')" by (simp add: pool_add_def)
      from finish_assembly_keyed [OF assms(1) a' this] show ?thesis by blast
    qed
  qed
  then show "pool_keyed p'" and "r = Inr (Some n) \<Longrightarrow> nt_event_id n = nt_event_id (fn_notification f)"
    by simp_all
qed

section \<open>The handler answers with the event of the message\<close>

lemma incoming_result_some:
  "incoming_result sa q = Inr (Some n) \<Longrightarrow> q = Inr (Some (nf_notification n))"
  by (cases "(sa, q)" rule: incoming_result.cases) (auto simp: incoming_notification_def split: sum.splits)

lemma handleMessage_keyed:
  assumes "pool_keyed p" and "handleMessage ca sa dbg now m p = (r, p')"
  shows "pool_keyed p'"
    and "r = Inr (Some n) \<Longrightarrow> \<exists>f. message_fragment ca m = Some f
      \<and> nt_event_id (nf_notification n) = nt_event_id (fn_notification f)"
proof -
  have "pool_keyed p' \<and> (r = Inr (Some n) \<longrightarrow> (\<exists>f. message_fragment ca m = Some f
      \<and> nt_event_id (nf_notification n) = nt_event_id (fn_notification f)))"
  proof (cases "message_fragment ca m")
    case None
    with assms show ?thesis by (auto simp: handleMessage_no_fragment split: if_splits)
  next
    case (Some f)
    obtain q p1 where join: "maybeJoinFragments dbg now f p = (q, p1)" by (metis surj_pair)
    have r: "r = incoming_result sa q" and p': "p' = p1"
      using assms(2) join by (simp_all add: handleMessage_fragment [OF Some])
    have "pool_keyed p1 \<and> (\<forall>x. q = Inr (Some x) \<longrightarrow> nt_event_id x = nt_event_id (fn_notification f))"
    proof (cases "fn_num_data_parts f > 1")
      case True
      then have add: "pool_add dbg now f p = (q, p1)" using join by (simp add: maybeJoinFragments_def)
      show ?thesis
        by (intro conjI allI impI) (rule pool_add_keyed(1) [OF assms(1) add],
          rule pool_add_keyed(2) [OF assms(1) add])
    next
      case False
      then show ?thesis using join assms(1) by (auto simp: maybeJoinFragments_def)
    qed
    then have keyed: "pool_keyed p1" and event: "\<And>x. q = Inr (Some x) \<Longrightarrow>
        nt_event_id x = nt_event_id (fn_notification f)" by simp_all
    have "nt_event_id (nf_notification n) = nt_event_id (fn_notification f)" if n: "r = Inr (Some n)"
    proof -
      have "q = Inr (Some (nf_notification n))" using n r incoming_result_some by metis
      then show ?thesis by (rule event)
    qed
    then show ?thesis using Some keyed p' by simp
  qed
  then show "pool_keyed p'" and "r = Inr (Some n) \<Longrightarrow> \<exists>f. message_fragment ca m = Some f
      \<and> nt_event_id (nf_notification n) = nt_event_id (fn_notification f)" by simp_all
qed

lemma dh_run_keyed:
  assumes "pool_keyed p" and "dh_run ca sa dbg ms p = (rs, p')"
  shows "pool_keyed p'" and "length rs = length ms"
    and "((t, m), Inr (Some n)) \<in> set (zip ms rs) \<Longrightarrow> \<exists>f. message_fragment ca m = Some f
      \<and> nt_event_id (nf_notification n) = nt_event_id (fn_notification f)"
proof -
  have "pool_keyed p' \<and> length rs = length ms \<and> (((t, m), Inr (Some n)) \<in> set (zip ms rs) \<longrightarrow>
      (\<exists>f. message_fragment ca m = Some f \<and> nt_event_id (nf_notification n) = nt_event_id (fn_notification f)))"
    using assms
  proof (induction ms arbitrary: p rs)
    case Nil
    then show ?case by auto
  next
    case (Cons x ms)
    obtain now m1 where x: "x = (now, m1)" by (cases x)
    obtain r p1 where handle: "handleMessage ca sa dbg now m1 p = (r, p1)" by (metis surj_pair)
    obtain rs1 p2 where rest: "dh_run ca sa dbg ms p1 = (rs1, p2)" by (metis surj_pair)
    have rs: "rs = r # rs1" "p' = p2" using Cons.prems(2) x handle rest by simp_all
    have "pool_keyed p1" by (rule handleMessage_keyed(1) [OF Cons.prems(1) handle])
    from Cons.IH [OF this rest [folded rs(2)]] handleMessage_keyed(2) [OF Cons.prems(1) handle, of n]
    show ?case by (auto simp: x rs)
  qed
  then show "pool_keyed p'" and "length rs = length ms"
    and "((t, m), Inr (Some n)) \<in> set (zip ms rs) \<Longrightarrow> \<exists>f. message_fragment ca m = Some f
      \<and> nt_event_id (nf_notification n) = nt_event_id (fn_notification f)" by simp_all
qed

end
