(* ===== verification/PubSub.thy ===== *)
theory PubSub
  imports Delivery Provenance BusSession
begin

text \<open>
  What a subscriber hears of a publisher. An informer publishes a sequence of events; the daemon hands
  each message once to every connection that is in one of its groups, those of one sender in the order
  of sending. A connector that is registered for a scope then sees exactly the events of this scope and
  of its sub-scopes, in the order they were published, whatever else the process receives.
\<close>

section \<open>Publishing a sequence of events\<close>

text \<open>The calls of \<open>OutConnector::handle\<close> for a sequence of times and events, up to the first exception;
  the result is the events as they were sent, with their send times.\<close>

fun publish_all ::
  "'sc scope_api \<Rightarrow> nat \<Rightarrow> 'm codec_api \<Rightarrow> ('e, 'sc, 'm) event_api \<Rightarrow> bool
     \<Rightarrow> (('sc, 'm) outgoing_notification \<Rightarrow> 'b \<Rightarrow> (unit, 'b) outcome)
     \<Rightarrow> (int \<times> 'e) list \<Rightarrow> 'sc out_connector \<times> 'b
     \<Rightarrow> (unit, 'e list \<times> 'sc out_connector \<times> 'b) outcome" where
  "publish_all sa maxg ca ea dbg handle [] st = (Inr (), ([], st))"
| "publish_all sa maxg ca ea dbg handle ((now, event) # evs) st =
     (case oc_handle sa maxg ca ea dbg handle now event st of
        (Inl ex, (e, st')) \<Rightarrow> (Inl ex, ([e], st'))
      | (Inr _, (e, st')) \<Rightarrow>
          (case publish_all sa maxg ca ea dbg handle evs st' of
             (r, (es, st'')) \<Rightarrow> (r, (e # es, st''))))"

text \<open>What the publisher relies on: the header of the event leaves room for data, the sizes do not
  overflow, and its scope can be read back.\<close>

definition publishable ::
  "'sc scope_api \<Rightarrow> 'm codec_api \<Rightarrow> ('e, 'sc, 'm) event_api \<Rightarrow> 32 word \<Rightarrow> 32 word \<Rightarrow> 'e \<Rightarrow> bool" where
  "publishable sa ca ea maxSize minSpace e \<longleftrightarrow>
     (case to_wire ea e of
        Inl ex \<Rightarrow> False
      | Inr (schema, wire) \<Rightarrow> headers_fit ca ea maxSize minSpace e schema
          \<and> length wire + unat maxSize < 2 ^ 32)
     \<and> scope_parse sa (scope_toString sa (getScope ea e)) = Inr (getScope ea e)"

text \<open>The notification of an event its converter can serialise.\<close>

definition sent_notification ::
  "('e, 'sc, 'm) event_api \<Rightarrow> 'e \<Rightarrow> ('sc, 'm) transport_notification option" where
  "sent_notification ea e = (case to_wire ea e of
     Inl ex \<Rightarrow> None
   | Inr (schema, wire) \<Rightarrow> Some (event_notification ea e schema wire))"

lemma sent_notificationD:
  "sent_notification ea e = Some n \<Longrightarrow> nf_scope n = getScope ea e"
  by (auto simp: sent_notification_def event_notification_def split: sum.splits)

text \<open>An event, its fragments and the packets that carry them, in the order of sending.\<close>

type_synonym ('e, 'm) block = "'e \<times> 'm fragmented list \<times> (string list \<times> 32 word \<times> string) list"

definition sent_block ::
  "'sc scope_api \<Rightarrow> nat \<Rightarrow> 'm codec_api \<Rightarrow> ('e, 'sc, 'm) event_api \<Rightarrow> ('e, 'm) block \<Rightarrow> bool" where
  "sent_block sa maxg ca ea blk \<longleftrightarrow> (case blk of (e, frs, ps) \<Rightarrow>
     map (\<lambda>p. parse ca (snd (snd p))) ps = map Some frs
   \<and> is_split frs \<and> length frs < 2 ^ 32
   \<and> (\<forall>f \<in> set frs. nt_event_id (fn_notification f) = getEventId ea e)
   \<and> (\<exists>n. incoming_notification sa (join_parts frs) = Inr (Some n) \<and> sent_notification ea e = Some n)
   \<and> (\<forall>p \<in> set ps. set (fst p) = scopeToGroup sa maxg ` set (superScopes sa (getScope ea e))))"

abbreviation block_data :: "('e, 'm) block \<Rightarrow> string list" where
  "block_data blk \<equiv> map (\<lambda>p. snd (snd p)) (snd (snd blk))"

lemma oc_handle_block:
  assumes "codec_roundtrips ca" and "fills_notifications sa ea" and "digest_printable sa"
    and "oc_handle sa maxg ca ea dbg (bus_handleOutgoing ca api dbg da so) now event (oc, (b, w, z))
      = (Inr (), (e, oc', (b', w', z')))"
    and "publishable sa ca ea (maxFragmentSize oc) (minDataSpace oc) e"
    and "cache_inv sa maxg (oc_cache oc)"
  shows "\<exists>frs ps. sent_block sa maxg ca ea (e, frs, ps) \<and> sent w' = rev ps @ sent w"
    and "cache_inv sa maxg (oc_cache oc')" and "maxFragmentSize oc' = maxFragmentSize oc"
    and "minDataSpace oc' = minDataSpace oc"
proof -
  obtain schema wire fragments ps where e: "e = setSendTime ea now event"
    and wire: "to_wire ea e = Inr (schema, wire)"
    and mk: "make_fragments ca ea dbg (maxFragmentSize oc) (minDataSpace oc) e schema wire 0 0 []
      = Inr fragments"
    and posted: "posts ca api \<lparr>nf_scope = getScope ea e, nf_wireSchema = schema,
        nf_serializedPayload = wire, nf_notification = fn_notification (fragments ! 0),
        on_qos = messageQOS oc,
        on_groups = fst (scopeToGroups sa maxg (getScope ea e) (oc_cache oc)),
        on_fragments = fragments\<rparr> ps"
    and traffic: "sent (fst (snd (b', w', z'))) = rev ps @ sent (fst (snd (b, w, z)))"
    by (rule bus.oc_handle_posts [OF assms(4)])
  obtain groups cache' where groups: "scopeToGroups sa maxg (getScope ea e) (oc_cache oc) = (groups, cache')"
    by (metis surj_pair)
  note step = scopeToGroups_step [OF assms(6) groups]
  have oc': "oc' = oc\<lparr>oc_cache := cache'\<rparr>"
    using assms(4) groups e by (auto simp: oc_handle_def Let_def split: prod.splits sum.splits)
  then show "cache_inv sa maxg (oc_cache oc')" "maxFragmentSize oc' = maxFragmentSize oc"
    "minDataSpace oc' = minDataSpace oc" using step by simp_all
  have fit: "headers_fit ca ea (maxFragmentSize oc) (minDataSpace oc) e schema"
    "length wire + unat (maxFragmentSize oc) < 2 ^ 32"
    and scope: "scope_parse sa (scope_toString sa (getScope ea e)) = Inr (getScope ea e)"
    using assms(5) wire by (simp_all add: publishable_def)
  note split = make_fragments_split [OF mk fit assms(2)]
  let ?frs = "numbered_fragments fragments"
  let ?n = "event_notification ea e schema wire"
  have "\<forall>g \<in> set groups. nul_free g"
    using step scopeToGroup_nul_free [OF assms(3)] by (auto simp: groups_of_def)
  then have "map c_str groups = groups" by (intro map_c_str_nul_free) blast
  then have "c_str ` set groups = set groups" by (metis set_map)
  moreover obtain gs where "set gs = c_str ` set groups" "\<forall>p \<in> set ps. fst p = gs"
    using posted groups unfolding posts_def by auto
  ultimately have "\<forall>p \<in> set ps. set (fst p) = scopeToGroup sa maxg ` set (superScopes sa (getScope ea e))"
    using step by (simp add: groups_of_def)
  moreover have "incoming_notification sa (join_parts ?frs) = Inr (Some ?n)"
    unfolding split(4) by (rule incoming_event [OF assms(2) scope])
  moreover have "map (\<lambda>p. parse ca (snd (snd p))) ps = map Some ?frs"
    using posts_parse [OF assms(1) posted] by simp
  moreover have "length ?frs < 2 ^ 32" using split(2) by (simp add: numbered_fragments_def)
  ultimately have "sent_block sa maxg ca ea (e, ?frs, ps)"
    unfolding sent_block_def prod.case using split(1,3) wire
    by (intro conjI) (assumption | (rule exI [of _ ?n], simp add: sent_notification_def))+
  then show "\<exists>frs ps. sent_block sa maxg ca ea (e, frs, ps) \<and> sent w' = rev ps @ sent w"
    using traffic by auto
qed

lemma publish_all_blocks:
  assumes "codec_roundtrips ca" and "fills_notifications sa ea" and "digest_printable sa"
    and "publish_all sa maxg ca ea dbg (bus_handleOutgoing ca api dbg da so) evs (oc, (b, w, z))
      = (Inr (), (es, oc', (b', w', z')))"
    and "\<forall>e \<in> set es. publishable sa ca ea (maxFragmentSize oc) (minDataSpace oc) e"
    and "cache_inv sa maxg (oc_cache oc)"
  shows "\<exists>blks. map fst blks = es \<and> (\<forall>blk \<in> set blks. sent_block sa maxg ca ea blk)
    \<and> sent w' = rev (concat (map (\<lambda>blk. snd (snd blk)) blks)) @ sent w"
  using assms(4-6)
proof (induction evs arbitrary: oc b w z es)
  case Nil
  then show ?case by (intro exI [of _ "[]"]) simp
next
  case (Cons ev evs)
  obtain now event where ev: "ev = (now, event)" by (cases ev)
  obtain r e oc1 b1 w1 z1 where handle:
    "oc_handle sa maxg ca ea dbg (bus_handleOutgoing ca api dbg da so) now event (oc, (b, w, z))
      = (r, (e, oc1, (b1, w1, z1)))" by (metis prod.exhaust)
  have r: "r = Inr ()" using Cons.prems(1) handle ev by (cases r) auto
  then obtain es1 where
    rest: "publish_all sa maxg ca ea dbg (bus_handleOutgoing ca api dbg da so) evs (oc1, (b1, w1, z1))
      = (Inr (), (es1, oc', (b', w', z')))" and es: "es = e # es1"
    using Cons.prems(1) handle ev by (auto split: prod.splits)
  have fit: "publishable sa ca ea (maxFragmentSize oc) (minDataSpace oc) e" using Cons.prems(2) es by simp
  note one = oc_handle_block [OF assms(1-3) handle [unfolded r] fit Cons.prems(3)]
  obtain frs ps where block: "sent_block sa maxg ca ea (e, frs, ps)" "sent w1 = rev ps @ sent w"
    using one(1) by blast
  have "\<forall>e \<in> set es1. publishable sa ca ea (maxFragmentSize oc1) (minDataSpace oc1) e"
    using Cons.prems(2) es one(3,4) by simp
  from Cons.IH [OF rest this one(2)] obtain blks where
    "map fst blks = es1" "\<forall>blk \<in> set blks. sent_block sa maxg ca ea blk"
    "sent w' = rev (concat (map (\<lambda>blk. snd (snd blk)) blks)) @ sent w1" by blast
  with block es show ?case by (intro exI [of _ "(e, frs, ps) # blks"]) simp
qed

section \<open>The daemon's routing\<close>

text \<open>A packet reaches a connection that is in one of its groups.\<close>

definition reaches :: "string set \<Rightarrow> string list \<times> 32 word \<times> string \<Rightarrow> bool" where
  "reaches groups p \<longleftrightarrow> set (fst p) \<inter> groups \<noteq> {}"

text \<open>All packets of an event have the same groups: they all arrive or none does.\<close>

definition block_reaches ::
  "'sc scope_api \<Rightarrow> nat \<Rightarrow> ('e, 'sc, 'm) event_api \<Rightarrow> string set \<Rightarrow> ('e, 'm) block \<Rightarrow> bool" where
  "block_reaches sa maxg ea groups blk \<longleftrightarrow>
     scopeToGroup sa maxg ` set (superScopes sa (getScope ea (fst blk))) \<inter> groups \<noteq> {}"

lemma routed_blocks:
  assumes "\<forall>blk \<in> set blks. sent_block sa maxg ca ea blk"
  shows "filter (reaches groups) (concat (map (\<lambda>blk. snd (snd blk)) blks))
    = concat (map (\<lambda>blk. snd (snd blk)) (filter (block_reaches sa maxg ea groups) blks))"
  using assms
proof (induction blks)
  case (Cons blk blks)
  have "\<forall>p \<in> set (snd (snd blk)). reaches groups p = block_reaches sa maxg ea groups blk"
    using Cons.prems by (simp add: sent_block_def reaches_def block_reaches_def case_prod_beta)
  then have "filter (reaches groups) (snd (snd blk))
      = (if block_reaches sa maxg ea groups blk then snd (snd blk) else [])"
    by (simp add: filter_id_conv filter_empty_conv)
  with Cons show ?case by simp
qed simp

section \<open>The messages of one sender\<close>

definition from_sender :: "'m codec_api \<Rightarrow> string \<Rightarrow> spread_message \<Rightarrow> bool" where
  "from_sender ca sid m \<longleftrightarrow> (\<exists>f. message_fragment ca m = Some f
     \<and> sender_id (nt_event_id (fn_notification f)) = sid)"

lemma carries_event_sender: "carries_event ca eid m \<Longrightarrow> from_sender ca (sender_id eid) m"
  by (auto simp: carries_event_def from_sender_def)

lemma from_sender_parse: "from_sender ca sid m \<Longrightarrow> message_fragment ca m = parse ca (getData m)"
  by (auto simp: from_sender_def message_fragment_def split: if_splits)

text \<open>Messages with the data of the blocks, in order: those that carry the event of a block are the
  messages of this block.\<close>

lemma messages_of_blocks:
  fixes xs :: "(spread_message \<times> 'r) list"
  assumes "\<forall>blk \<in> set blks. sent_block sa maxg ca ea blk"
    and "distinct (map (\<lambda>blk. getEventId ea (fst blk)) blks)"
    and "map (\<lambda>x. parse ca (getData (fst x))) xs = map (\<lambda>x. message_fragment ca (fst x)) xs"
    and "map (\<lambda>x. getData (fst x)) xs = concat (map block_data blks)"
  shows "xs = concat (map (\<lambda>blk. filter (\<lambda>x. carries_event ca (getEventId ea (fst blk)) (fst x)) xs) blks)
    \<and> (\<forall>blk \<in> set blks. map (\<lambda>x. message_fragment ca (fst x))
        (filter (\<lambda>x. carries_event ca (getEventId ea (fst blk)) (fst x)) xs) = map Some (fst (snd blk)))"
  using assms
proof (induction blks arbitrary: xs)
  case Nil
  then show ?case by simp
next
  case (Cons blk blks)
  let ?carries = "\<lambda>blk x. carries_event ca (getEventId ea (fst blk)) (fst x :: spread_message)"
  obtain e frs ps where blk: "blk = (e, frs, ps)" by (metis prod.exhaust)
  have sent: "map (\<lambda>p. parse ca (snd (snd p))) ps = map Some frs"
    and ids: "\<forall>f \<in> set frs. nt_event_id (fn_notification f) = getEventId ea e"
    using Cons.prems(1) by (simp_all add: sent_block_def blk)
  let ?as = "take (length ps) xs" and ?bs = "drop (length ps) xs"
  have data: "map (\<lambda>x. getData (fst x)) ?as = map (\<lambda>p. snd (snd p)) ps"
    "map (\<lambda>x. getData (fst x)) ?bs = concat (map block_data blks)"
    using Cons.prems(4) by (simp_all add: blk take_map [symmetric] drop_map [symmetric])
  have parsed: "map (\<lambda>x. message_fragment ca (fst x)) ?as = map (\<lambda>x. parse ca (getData (fst x))) ?as"
    "map (\<lambda>x. parse ca (getData (fst x))) ?bs = map (\<lambda>x. message_fragment ca (fst x)) ?bs"
    using Cons.prems(3) by (fastforce dest: in_set_takeD in_set_dropD)+
  have frs: "map (\<lambda>x. message_fragment ca (fst x)) ?as = map Some frs"
    using sent arg_cong [OF data(1), of "map (parse ca)"] parsed(1) by (simp add: comp_def)
  have mine: "\<exists>f. message_fragment ca (fst x) = Some f \<and> nt_event_id (fn_notification f) = getEventId ea e"
    if "x \<in> set ?as" for x
  proof -
    have "message_fragment ca (fst x) \<in> set (map Some frs)" unfolding frs [symmetric] using that by simp
    with ids show ?thesis by auto
  qed
  have as: "filter (?carries blk) ?as = ?as"
    using mine by (intro filter_True) (auto simp: carries_event_def blk)
  have other: "getEventId ea (fst blk') \<noteq> getEventId ea e" if "blk' \<in> set blks" for blk'
    using Cons.prems(2) that by (force simp: blk)
  have as': "filter (?carries blk') ?as = []" if "blk' \<in> set blks" for blk'
    using mine other [OF that] by (intro filter_False) (fastforce simp: carries_event_def)
  have IH: "?bs = concat (map (\<lambda>blk. filter (?carries blk) ?bs) blks)
      \<and> (\<forall>blk \<in> set blks. map (\<lambda>x. message_fragment ca (fst x)) (filter (?carries blk) ?bs)
        = map Some (fst (snd blk)))"
    using Cons.prems(1,2) by (intro Cons.IH) (simp_all add: parsed data)
  have "\<exists>blk' \<in> set blks. ?carries blk' x" if "x \<in> set ?bs" for x
  proof -
    have "x \<in> set (concat (map (\<lambda>blk. filter (?carries blk) ?bs) blks))" using IH that by metis
    then show ?thesis by auto
  qed
  then have bs: "filter (?carries blk) ?bs = []"
    using other by (intro filter_False) (fastforce simp: carries_event_def blk)
  have filters: "filter (?carries blk) xs = ?as"
    "\<And>blk'. blk' \<in> set blks \<Longrightarrow> filter (?carries blk') xs = filter (?carries blk') ?bs"
    using as as' bs by (metis append_take_drop_id filter_append append_Nil append_Nil2)+
  have "map (\<lambda>blk. filter (?carries blk) xs) blks = map (\<lambda>blk. filter (?carries blk) ?bs) blks"
    using filters(2) by simp
  then have "concat (map (\<lambda>blk. filter (?carries blk) xs) (blk # blks))
      = ?as @ concat (map (\<lambda>blk. filter (?carries blk) ?bs) blks)"
    using filters(1) by (simp only: list.map concat.simps)
  also have "\<dots> = ?as @ ?bs" by (simp only: conjunct1 [OF IH, symmetric])
  finally have "xs = concat (map (\<lambda>blk. filter (?carries blk) xs) (blk # blks))"
    by (simp only: append_take_drop_id)
  with filters frs IH show ?case by (simp add: blk)
qed

text \<open>What the receiver makes of the parts of one block.\<close>

lemma block_answers:
  fixes ca :: "'m codec_api"
  assumes "sent_block sa maxg ca ea (e, frs, ps)" and "dh_run ca sa dbg ms p = (rs, p')"
    and "pool p = []"
    and "map (message_fragment ca) (event_messages ca (getEventId ea e) ms) = map Some frs"
  obtains n j where "event_answers ca (getEventId ea e) ms rs = replicate j (Inr None) @ [Inr (Some n)]"
    and "sent_notification ea e = Some n"
proof -
  obtain n where split: "is_split frs" "length frs < 2 ^ 32"
      "\<forall>f \<in> set frs. nt_event_id (fn_notification f) = getEventId ea e"
    and n: "incoming_notification sa (join_parts frs) = Inr (Some n)" "sent_notification ea e = Some n"
    using assms(1) by (auto simp: sent_block_def)
  have id0: "nt_event_id (fn_notification (frs ! 0)) = getEventId ea e"
    using split(1,3) by (simp add: is_split_def)
  have "map (\<lambda>x. message_fragment ca (snd x)) (messages_for ca (pool_key (frs ! 0)) ms) = map Some frs"
    using assms(4) by (simp add: event_messages_key(1) [OF id0] comp_def)
  then have parts: "mset (map (\<lambda>x. message_fragment ca (snd x)) (messages_for ca (pool_key (frs ! 0)) ms))
      = mset (map Some frs)" by simp
  have "map_of (pool p) (pool_key (frs ! 0)) = None" using assms(3) by simp
  from dh_run_split [OF split(1,2) this parts assms(2)]
  have "event_answers ca (getEventId ea e) ms rs = replicate (length frs - 1) (Inr None) @ [Inr (Some n)]"
    unfolding event_messages_key(2) [OF id0] n(1) by blast
  then show ?thesis using that n(2) by blast
qed

text \<open>The notifications of a sender are the answers to its messages.\<close>

lemma delivered_of_sender:
  assumes "length rs = length ms"
    and "\<And>x n. (x, Inr (Some n)) \<in> set (zip ms rs) \<Longrightarrow> P n = Q (snd x)"
  shows "filter P (delivered rs) = delivered (map snd (filter (\<lambda>(x, r). Q (snd x)) (zip ms rs)))"
  using assms
proof (induction rs ms rule: list_induct2)
  case (Cons r rs x ms)
  then have IH: "filter P (delivered rs) = delivered (map snd (filter (\<lambda>(x, r). Q (snd x)) (zip ms rs)))"
    by simp
  show ?case
  proof (cases r)
    case (Inr y)
    then show ?thesis using IH Cons.prems [of x] by (cases y) auto
  qed (use IH in simp)
qed simp

lemma zip_filter_messages:
  "length rs = length ms \<Longrightarrow>
     map (\<lambda>x. snd (fst x)) (filter (\<lambda>(x, r). Q (snd x)) (zip ms rs)) = filter Q (map snd ms)"
  by (induction rs ms rule: list_induct2) auto

lemma delivered_concat: "delivered (concat xss) = concat (map delivered xss)"
  by (induction xss) auto

abbreviation notified_by :: "string \<Rightarrow> ('sc, 'm) transport_notification \<Rightarrow> bool" where
  "notified_by sid n \<equiv> sender_id (nt_event_id (nf_notification n)) = sid"

lemma sender_notifications:
  fixes ca :: "'m codec_api"
  assumes "\<forall>blk \<in> set blks. sent_block sa maxg ca ea blk"
    and "distinct (map (\<lambda>blk. getEventId ea (fst blk)) blks)"
    and "\<forall>blk \<in> set blks. sender_id (getEventId ea (fst blk)) = sid"
    and "map getData (filter (from_sender ca sid) (map snd ms)) = concat (map block_data blks)"
    and "dh_run ca sa dbg ms p = (rs, p')" and "pool p = []"
  shows "map Some (filter (notified_by sid) (delivered rs)) = map (\<lambda>blk. sent_notification ea (fst blk)) blks"
proof -
  let ?zs = "filter (\<lambda>(x, r). from_sender ca sid (snd x)) (zip ms rs)"
  let ?xs = "map (\<lambda>(x, r). (snd x, r)) ?zs"
  note keyed = dh_run_keyed [OF pool_keyed_empty [OF assms(6)] assms(5)]
  have len: "length rs = length ms" by (rule keyed(2))
  have mine: "notified_by sid n = from_sender ca sid (snd x)" if "(x, Inr (Some n)) \<in> set (zip ms rs)" for x n
    using keyed(3) [of "fst x" "snd x" n] that by (auto simp: from_sender_def)
  have fst_xs: "map fst ?xs = filter (from_sender ca sid) (map snd ms)"
    using zip_filter_messages [OF len, of "from_sender ca sid"] by (simp add: comp_def case_prod_unfold)
  have delivered: "filter (notified_by sid) (delivered rs) = delivered (map snd ?xs)"
    using delivered_of_sender [OF len, of "notified_by sid" "from_sender ca sid", OF mine] by (simp add: comp_def case_prod_unfold)
  have "\<forall>m \<in> set (map fst ?xs). parse ca (getData m) = message_fragment ca m"
    unfolding fst_xs using from_sender_parse by fastforce
  then have parsed: "map (\<lambda>x. parse ca (getData (fst x))) ?xs = map (\<lambda>x. message_fragment ca (fst x)) ?xs"
    by auto
  have data: "map (\<lambda>x. getData (fst x)) ?xs = concat (map block_data blks)"
    using assms(4) unfolding fst_xs [symmetric] by (simp add: comp_def)
  note blocks = messages_of_blocks [OF assms(1,2) parsed data]
  let ?mine = "\<lambda>blk. filter (\<lambda>x. carries_event ca (getEventId ea (fst blk)) (fst x)) ?xs"
  have answers: "map snd (?mine blk) = event_answers ca (getEventId ea (fst blk)) ms rs"
    and messages: "map fst (?mine blk) = event_messages ca (getEventId ea (fst blk)) ms"
    if "blk \<in> set blks" for blk
  proof -
    have sid: "sender_id (getEventId ea (fst blk)) = sid" using assms(3) that by blast
    have both: "from_sender ca sid m \<and> carries_event ca (getEventId ea (fst blk)) m
        \<longleftrightarrow> carries_event ca (getEventId ea (fst blk)) m" for m
      using carries_event_sender [of ca "getEventId ea (fst blk)" m] sid by auto
    have "?mine blk = map (\<lambda>(x, r). (snd x, r))
        (filter (\<lambda>(x, r). carries_event ca (getEventId ea (fst blk)) (snd x)) (zip ms rs))"
      by (simp add: filter_map comp_def case_prod_unfold both)
    then show "map snd (?mine blk) = event_answers ca (getEventId ea (fst blk)) ms rs"
      and "map fst (?mine blk) = event_messages ca (getEventId ea (fst blk)) ms"
      using zip_filter_messages [OF len, of "carries_event ca (getEventId ea (fst blk))"]
      by (simp_all add: event_answers_def event_messages_def comp_def case_prod_unfold)
  qed
  have one: "map Some (delivered (map snd (?mine blk))) = [sent_notification ea (fst blk)]"
    if blk: "blk \<in> set blks" for blk
  proof -
    obtain e frs ps where eq: "blk = (e, frs, ps)" by (metis prod.exhaust)
    have sent: "sent_block sa maxg ca ea (e, frs, ps)" using assms(1) blk eq by blast
    have "map (\<lambda>x. message_fragment ca (fst x)) (?mine blk) = map Some frs"
      using bspec [OF conjunct2 [OF blocks] blk] by (simp only: eq fst_conv snd_conv)
    then have "map (message_fragment ca) (map fst (?mine blk)) = map Some frs" by (simp add: comp_def)
    then have "map (message_fragment ca) (event_messages ca (getEventId ea e) ms) = map Some frs"
      unfolding messages [OF blk] by (simp add: eq)
    then obtain n j where "event_answers ca (getEventId ea e) ms rs = replicate j (Inr None) @ [Inr (Some n)]"
      "sent_notification ea e = Some n"
      by (rule block_answers [OF sent assms(5,6)])
    then show ?thesis unfolding answers [OF blk] by (simp add: eq)
  qed
  have "map snd ?xs = map snd (concat (map ?mine blks))" using blocks by metis
  then have "map Some (delivered (map snd ?xs))
      = concat (map (\<lambda>blk. map Some (delivered (map snd (?mine blk)))) blks)"
    by (simp only: map_concat delivered_concat map_map comp_def)
  also have "\<dots> = concat (map (\<lambda>blk. [sent_notification ea (fst blk)]) blks)"
    using one by (intro arg_cong [of _ _ concat]) simp
  finally show ?thesis unfolding delivered by simp
qed

section \<open>Subscribers\<close>

text \<open>The dispatcher of the RSB core: sink \<open>k\<close>, registered for \<open>scope\<close>, is asked to handle what is on the scope or
  on one of its sub-scopes, each sink at most once.\<close>

definition subscribed ::
  "'sc scope_api \<Rightarrow> ('d, 'sc) dispatcher_api \<Rightarrow> 'd \<Rightarrow> (nat \<Rightarrow> bool) \<Rightarrow> nat \<Rightarrow> 'sc \<Rightarrow> bool" where
  "subscribed sa da d al k scope \<longleftrightarrow>
     (\<forall>sc. k \<in> set (disp_sinks da al sc d) \<longleftrightarrow> scope \<in> set (superScopes sa sc))"

lemma filter_addressed:
  assumes "subscribed sa da d (\<lambda>j. z j \<noteq> None) k scope"
  shows "filter P (addressed da d z k ns) = filter (\<lambda>n. scope \<in> set (superScopes sa (nf_scope n))) (filter P ns)"
  using assms unfolding addressed_def subscribed_def by (simp add: conj_commute)

text \<open>The events of a subscriber are among those whose packets reach it.\<close>

lemma subscribed_blocks:
  assumes "scopeToGroup sa maxg scope \<in> groups"
  shows "filter (\<lambda>blk. scope \<in> set (superScopes sa (getScope ea (fst blk))))
      (filter (block_reaches sa maxg ea groups) blks)
    = filter (\<lambda>blk. scope \<in> set (superScopes sa (getScope ea (fst blk)))) blks"
  using assms by (auto simp: block_reaches_def intro!: filter_cong)

lemma view_scope_filter:
  "map Some ns = map (sent_notification ea) es \<Longrightarrow>
     map Some (filter (\<lambda>n. Q (nf_scope n)) ns) = map (sent_notification ea) (filter (\<lambda>e. Q (getScope ea e)) es)"
proof (induction ns arbitrary: es)
  case (Cons n ns)
  then obtain e es' where es: "es = e # es'" by (cases es) auto
  then have "sent_notification ea e = Some n" using Cons.prems by simp
  then show ?case using Cons es sent_notificationD [of ea e n] by simp
qed simp

text \<open>What the messages of the publisher become in the subscriber's process.\<close>

lemma subscriber_views:
  fixes ca :: "'m codec_api" and z :: "('sc, 'ev, 'u) connectors"
  assumes publisher: "codec_roundtrips ca" "fills_notifications sa ea" "digest_printable sa"
      "publish_all sa maxg ca ea dbg (bus_handleOutgoing ca api dbg da so) evs
        (oc, (b, w, y)) = (Inr (), (es, oc', (b', w', y')))"
      "\<forall>e \<in> set es. publishable sa ca ea (maxFragmentSize oc) (minDataSpace oc) e
        \<and> sender_id (getEventId ea e) = sid"
      "distinct (map (getEventId ea) es)" "cache_inv sa maxg (oc_cache oc)" "sent w' = new @ sent w"
    and subscriber: "scopeToGroup sa maxg scope \<in> groups" "subscribed sa da' d (\<lambda>j. z j \<noteq> None) k scope"
    and network: "map getData (filter (from_sender ca sid) (map snd ms))
        = map (\<lambda>p. snd (snd p)) (filter (reaches groups) (rev new))"
      "pool p = []" "dh_run ca sa dbg' ms p = (rs, p')"
  shows "map Some (filter (notified_by sid) (addressed da' d z k (delivered rs)))
    = map (sent_notification ea) (filter (\<lambda>e. scope \<in> set (superScopes sa (getScope ea e))) es)"
proof -
  have "\<forall>e \<in> set es. publishable sa ca ea (maxFragmentSize oc) (minDataSpace oc) e" using publisher(5) by blast
  from publish_all_blocks [OF publisher(1-4) this publisher(7)] obtain blks where
    es: "map fst blks = es" and sent: "\<forall>blk \<in> set blks. sent_block sa maxg ca ea blk"
    and "sent w' = rev (concat (map (\<lambda>blk. snd (snd blk)) blks)) @ sent w" by blast
  with publisher(8) have "new = rev (concat (map (\<lambda>blk. snd (snd blk)) blks))" by simp
  then have new: "rev new = concat (map (\<lambda>blk. snd (snd blk)) blks)" by simp
  let ?blks = "filter (block_reaches sa maxg ea groups) blks"
  have data: "map getData (filter (from_sender ca sid) (map snd ms)) = concat (map block_data ?blks)"
    unfolding network(1) new routed_blocks [OF sent] by (simp add: map_concat comp_def)
  have ids: "distinct (map (\<lambda>blk. getEventId ea (fst blk)) ?blks)"
    using publisher(6) by (intro distinct_map_filter) (simp add: es [symmetric] comp_def)
  have "\<forall>e \<in> set (map fst blks). sender_id (getEventId ea e) = sid"
    unfolding es using publisher(5) by blast
  then have sid: "\<forall>blk \<in> set ?blks. sender_id (getEventId ea (fst blk)) = sid" by simp
  have "\<forall>blk \<in> set ?blks. sent_block sa maxg ca ea blk" using sent by simp
  from sender_notifications [OF this ids sid data network(3,2)]
  have views: "map Some (filter (notified_by sid) (delivered rs)) = map (sent_notification ea) (map fst ?blks)"
    by (simp add: comp_def)
  have "map Some (filter (notified_by sid) (addressed da' d z k (delivered rs)))
      = map (sent_notification ea) (filter (\<lambda>e. scope \<in> set (superScopes sa (getScope ea e))) (map fst ?blks))"
    unfolding filter_addressed [OF subscriber(2)]
    by (rule view_scope_filter [where Q = "\<lambda>sc. scope \<in> set (superScopes sa sc)", OF views])
  also have "filter (\<lambda>e. scope \<in> set (superScopes sa (getScope ea e))) (map fst ?blks)
      = filter (\<lambda>e. scope \<in> set (superScopes sa (getScope ea e))) es"
    using subscribed_blocks [OF subscriber(1), of ea blks] by (simp add: filter_map comp_def es [symmetric])
  finally show ?thesis .
qed

text \<open>C2 Publish and subscribe: an informer publishes a sequence of events without an exception, each with
  an id of its own. In another process a connector is registered for a scope on a bus whose session has
  seen any history, and the receiver reads messages among which those of this informer are the packets
  that have a group the connection is in, in the order of sending, whatever other messages come between
  them. Then the notifications of this informer that the connector gets are exactly those of the
  published events on its scope or a sub-scope, each once, in the order of publication, with the header,
  the scope, the wire schema and the payload of the event; events on other scopes whose group has the same
  name, or which reach the process for another sink, are not among them.\<close>

theorem subscriber_hears_publisher:
  fixes ca :: "'m codec_api" and z :: "('sc, 'ev, 'u) connectors"
  assumes publisher: "codec_roundtrips ca" "fills_notifications sa ea" "digest_printable sa"
      "publish_all sa (MAX_GROUP_NAME api) ca ea dbg (bus_handleOutgoing ca api dbg da so) evs
        (oc, (b, w, y)) = (Inr (), (es, oc', (b', w', y')))"
      "\<forall>e \<in> set es. publishable sa ca ea (maxFragmentSize oc) (minDataSpace oc) e
        \<and> sender_id (getEventId ea e) = sid"
      "distinct (map (getEventId ea) es)" "cache_inv sa (MAX_GROUP_NAME api) (oc_cache oc)"
      "sent w' = new @ sent w"
    and subscriber: "session_reachable sa api dbg' da' ca (connector_sinks (ie :: ('ev, 'm, 'dt) in_event_api) now)
        (regs, (bus, wr, z))" "scope \<in># regs"
      "subscribed sa da' (scopeDispatcher bus) (\<lambda>j. z j \<noteq> None) k scope"
      "\<And>al sc. distinct (disp_sinks da' al sc (scopeDispatcher bus))"
      "connectors_ok ie z" "z k = Some (ic, st)"
    and network: "reads api dbg' ticks (connection bus, wr) = Some (ms, s')"
      "map getData (filter (from_sender ca sid) (map snd ms))
        = map (\<lambda>p. snd (snd p)) (filter (reaches (joined (mailbox (connection bus)) wr)) (rev new))"
    and receiver: "\<not> taskCancelled t" "pool (messageHandler t) = []"
      "dh_run ca sa dbg' ms (messageHandler t) = (rs, p')" "\<forall>r \<in> set rs. \<exists>x. r = Inr x"
  shows "\<exists>ns z'. receiver_run ca sa api dbg' is_comm
        (weak_handler da' (connector_sinks ie now) (Some (scopeDispatcher bus))) ticks
        (t, (connection bus, wr), z) = (Inr (), (t\<lparr>messageHandler := p'\<rparr>, s', z'))
    \<and> z' k = Some (ic, ic_run ie now ic ns st)
    \<and> map Some (filter (notified_by sid) ns)
      = map (sent_notification ea) (filter (\<lambda>e. scope \<in> set (superScopes sa (getScope ea e))) es)"
proof -
  let ?ns = "addressed da' (scopeDispatcher bus) z k (delivered rs)"
  have "scopeToGroup sa (MAX_GROUP_NAME api) scope \<in> joined (mailbox (connection bus)) wr"
    using session_invD(6,7) [OF session_reachable_inv [OF subscriber(1) publisher(3)]] subscriber(2)
    by (auto simp: conn_members_def)
  note ns = subscriber_views [OF publisher this subscriber(3) network(2) receiver(2,3)]
  have "receiver_run ca sa api dbg' is_comm
      (weak_handler da' (connector_sinks ie now) (Some (scopeDispatcher bus))) ticks (t, (connection bus, wr), z)
      = (Inr (), (t\<lparr>messageHandler := p'\<rparr>, s',
          \<lambda>j. take_all ie now (addressed da' (scopeDispatcher bus) z j (delivered rs)) (z j)))"
    using receiver_run_delivers [where P = "connectors_ok ie", OF network(1) receiver(3,4)
        connectors_handler_keeps [OF subscriber(4)] subscriber(5) receiver(1)]
    by (simp add: hand_over_connectors [OF subscriber(5,4)])
  moreover have "take_all ie now ?ns (z k) = Some (ic, ic_run ie now ic ?ns st)"
    using subscriber(6) by (cases st) simp
  ultimately show ?thesis using ns by blast
qed

section \<open>A publisher and a subscriber\<close>

text \<open>Events with a scope, a number and a payload.\<close>

definition scoped_events :: "(string \<times> nat \<times> string, string, unit) event_api" where
  "scoped_events = \<lparr>setSendTime = (\<lambda>t e. e), getScope = fst,
     getEventId = (\<lambda>e. \<lparr>sender_id = ''s'', sequence_number = of_nat (fst (snd e))\<rparr>),
     to_wire = (\<lambda>e. Inr (''utf-8'', snd (snd e))),
     blank = \<lparr>nt_event_id = \<lparr>sender_id = [], sequence_number = 0\<rparr>, nt_scope = [],
       nt_wire_schema = [], nt_data = [], nt_meta = ()\<rparr>,
     fillNotificationId = (\<lambda>e n. n\<lparr>nt_event_id :=
       \<lparr>sender_id = ''s'', sequence_number = of_nat (fst (snd e))\<rparr>\<rparr>),
     fillNotificationHeader = (\<lambda>e schema n. n\<lparr>nt_scope := fst e, nt_wire_schema := schema\<rparr>)\<rparr>"

text \<open>Part \<open>i\<close> of \<open>j\<close> of event \<open>q\<close> of sender \<open>sid\<close>.\<close>

definition scope_part :: "string \<Rightarrow> nat \<Rightarrow> string \<Rightarrow> nat \<Rightarrow> nat \<Rightarrow> string \<Rightarrow> unit fragmented" where
  "scope_part sid q scope i j d = \<lparr>fn_notification = \<lparr>nt_event_id = \<lparr>sender_id = sid, sequence_number = of_nat q\<rparr>,
       nt_scope = (if i = 0 then scope else []), nt_wire_schema = (if i = 0 then ''utf-8'' else []),
       nt_data = d, nt_meta = ()\<rparr>,
     fn_data_part = of_nat i, fn_num_data_parts = of_nat j\<rparr>"

text \<open>What the daemon hands to the subscriber, who has joined the group of \<open>/a\<close> only: the events of the
  publisher on this scope, the second in two parts, and one of another sender.\<close>

definition heard_part :: "nat \<Rightarrow> unit fragmented" where
  "heard_part i = [scope_part ''s'' 5 ''/a'' 0 1 ''one'', scope_part ''q'' 9 ''/a'' 0 1 ''noise'',
     scope_part ''s'' 7 ''/a'' 0 2 ''payload'', scope_part ''s'' 7 ''/a'' 1 2 '' of''] ! i"

definition heard_message :: "nat \<Rightarrow> sp_received" where
  "heard_message i = sample_message\<lparr>rc_ret := int (length (put_fragment (heard_part i))),
     rc_buf := put_fragment (heard_part i)\<rparr>"

fun heard :: "history \<Rightarrow> nat" where
  "heard [] = 0"
| "heard (SpReceive mb m # w) = Suc (heard w)"
| "heard (x # w) = heard w"

definition pubsub_api :: spread_api where
  "pubsub_api = sample_api\<lparr>SP_receive := (\<lambda>w m. heard_message (heard w))\<rparr>"

definition scope_dispatcher :: "((string \<times> nat) list, string) dispatcher_api" where
  "scope_dispatcher = count_dispatcher\<lparr>disp_sinks := (\<lambda>al sc d.
     remdups (map snd (filter (\<lambda>(s, k). s \<in> set (superScopes sample_scopes sc) \<and> al k) d)))\<rparr>"


abbreviation published_events :: "(string \<times> nat \<times> string) list" where
  "published_events \<equiv> [(''/a'', 5, ''one''), (''/b'', 6, ''two''), (''/a'', 7, ''payload of'')]"

lemma scoped_fragments:
  "make_fragments sample_codec scoped_events dbg 13 5 (''/a'', 5, ''one'') ''utf-8'' ''one'' 0 0 []
    = Inr [scope_part ''s'' 5 ''/a'' 0 1 ''one'']"
  "make_fragments sample_codec scoped_events dbg 13 5 (''/b'', 6, ''two'') ''utf-8'' ''two'' 0 0 []
    = Inr [scope_part ''s'' 6 ''/b'' 0 1 ''two'']"
  "make_fragments sample_codec scoped_events dbg 13 5 (''/a'', 7, ''payload of'') ''utf-8'' ''payload of'' 0 0 []
    = Inr [scope_part ''s'' 7 ''/a'' 0 1 ''payload'', scope_part ''s'' 7 ''/a'' 1 1 '' of'']"
  by (simp_all add: make_fragments.simps fragment_header_def sample_codec_def scoped_events_def substr_def
      scope_part_def)

definition published_packet :: "string \<Rightarrow> unit fragmented \<Rightarrow> string list \<times> 32 word \<times> string" where
  "published_packet scope f = ([''/'', scope], 0x44, put_fragment f)"

lemma scoped_send:
  assumes "scope \<in> {''/a'', ''/b''}"
  shows "addGroups (MAX_GROUP_NAME pubsub_api) [scope, ''/''] (setQOS FIFO message_new)
      = (Inr (), \<lparr>mtype = OTHER, mqos = FIFO, mdata = [], mgroups = [''/'', scope]\<rparr>)"
    and "conn_send pubsub_api True \<lparr>mtype = OTHER, mqos = FIFO, mdata = d, mgroups = [''/'', scope]\<rparr> (open_conn, w)
      = (Inr (), (open_conn, SpMultigroupMulticast 7 0x44 [''/'', scope] d (int (length d)) # w))"
  using assms
  by (auto simp: conn_send_def open_conn_def conn_new_def pubsub_api_def sample_api_def message_accessors
      SPREAD_MAX_GROUPS_def c_str_def send_result_def addGroup_def message_constructors
      insort_insert_key_def)

lemma scoped_publish:
  "\<exists>oc' w'. publish_all sample_scopes (MAX_GROUP_NAME pubsub_api) sample_codec scoped_events True
     (bus_handleOutgoing sample_codec pubsub_api True quiet_dispatcher quiet_sinks)
     (map (Pair 0) published_events) (oc_new 13, (quiet_bus, [], ()))
   = (Inr (), (published_events, oc', (quiet_bus, w', ())))
   \<and> sent w' = rev [published_packet ''/a'' (scope_part ''s'' 5 ''/a'' 0 1 ''one''),
      published_packet ''/b'' (scope_part ''s'' 6 ''/b'' 0 1 ''two''),
      published_packet ''/a'' (scope_part ''s'' 7 ''/a'' 0 2 ''payload''),
      published_packet ''/a'' (scope_part ''s'' 7 ''/a'' 1 2 '' of'')] @ sent []"
proof -
  have parts: "(scope_part sid q scope i j d)\<lparr>fn_num_data_parts := 1\<rparr> = scope_part sid q scope i 1 d"
    "(scope_part sid q scope i j d)\<lparr>fn_num_data_parts := 2\<rparr> = scope_part sid q scope i 2 d"
    for sid q scope i j d by (simp_all add: scope_part_def)
  have codec: "serialize sample_codec f = Some (put_fragment f)" for f
    by (simp add: sample_codec_def)
  have events: "setSendTime scoped_events now e = e" "getScope scoped_events e = fst e"
    "to_wire scoped_events e = Inr (''utf-8'', snd (snd e))" for e now
    by (simp_all add: scoped_events_def)
  have scopes: "superScopes sample_scopes s = [s, ''/'']" "scopeToGroup sample_scopes 32 ''/'' = ''/''"
    "scopeToGroup sample_scopes 32 ''/a'' = ''/a''" "scopeToGroup sample_scopes 32 ''/b'' = ''/b''" for s
    by (simp_all add: sample_scopes_def scopeToGroup_def)
  have max: "MAX_GROUP_NAME pubsub_api = 32" by (simp add: pubsub_api_def sample_api_def)
  have one: "of_nat (Suc 0) = (1 :: 32 word)" "of_nat (Suc (Suc 0)) = (2 :: 32 word)" by simp_all
  show ?thesis
    by (simp add: oc_handle_def events scopes scopeToGroups_def scoped_fragments oc_new_def bus_handleOutgoing_def
        sendNotification_def scoped_send[unfolded max] max parts codec quiet_bus_def  setData_def
        quiet_dispatcher_def Let_def published_packet_def del: addGroups.simps One_nat_def)
qed

definition heard_conn :: spread_connection where
  "heard_conn = open_conn\<lparr>privateGroup := ''#r7#localhost''\<rparr>"

definition heard_bus :: "(unit, (string \<times> nat) list) bus" where
  "heard_bus = \<lparr>bus_active = True, connection = heard_conn, memberships = [(''/a'', 1)],
     receiver = Some \<lparr>messageHandler = sample_pool, taskCancelled = False\<rparr>,
     scopeDispatcher = [(''/a'', 4)]\<rparr>"

definition heard_history :: history where
  "heard_history = [SpJoin 7 ''/a'' 0, SpConnect ''4803'' 1 7 ''#r7#localhost'']"

lemma heard_session:
  fixes z :: 'z
  shows "session_reachable sample_scopes pubsub_api True scope_dispatcher sample_codec so
    ({#''/a''#}, (heard_bus, heard_history, z))"
proof -
  have daemon: "daemon_name False ''localhost'' 4803 = ''4803''"
    by code_simp
  obtain st :: "(unit, (string \<times> nat) list, 'z) bus_state" where act: "bus_activate pubsub_api
      (bus_new scope_dispatcher (conn_new False 0 ''localhost'' 4803), [], z) = (Inr (), st)"
    and add: "bus_addSink sample_scopes pubsub_api scope_dispatcher ''/a'' 4 st
      = (Inr (), (heard_bus, heard_history, z))"
    by (simp add: bus_activate_def bus_new_def conn_activate_def conn_new_def sample_api_def
        pubsub_api_def scope_dispatcher_def count_dispatcher_def rt_new_def dh_new_def
        default_pool_def pool_new_def Let_def mm_new_def bus_addSink_def mm_join_def conn_join_def
        scopeToGroup_def sample_scopes_def heard_bus_def heard_conn_def open_conn_def
        heard_history_def sample_pool_def c_str_def daemon)
  show ?thesis
    using bus_addSink_same_state [OF add _ session_reachable.start [OF act]]
    by (simp add: max_refs_def)
qed

definition heard_as :: "nat \<Rightarrow> spread_message" where
  "heard_as i = \<lparr>mtype = REGULAR, mqos = UNRELIABLE, mdata = put_fragment (heard_part i), mgroups = [''g'']\<rparr>"

lemma heard_receive:
  "conn_receive pubsub_api True message_new (heard_conn, w) = (Inr (),
     (heard_as (heard w), (heard_conn, SpReceive 7 (heard_message (heard w)) # w)))"
  by (simp add: conn_receive_def pubsub_api_def sample_api_def heard_message_def sample_message_def
      heard_as_def heard_conn_def open_conn_def conn_new_def addGroup_def message_accessors
      message_constructors c_str_def SPREAD_MAX_GROUPS_def insort_insert_key_def)

abbreviation heard_messages :: "(int \<times> spread_message) list" where
  "heard_messages \<equiv> [(0, heard_as 0), (1, heard_as 1), (2, heard_as 2), (3, heard_as 3)]"

lemma heard_reads:
  "\<exists>s'. reads pubsub_api True [0, 1, 2, 3] (heard_conn, heard_history) = Some (heard_messages, s')"
  by (simp add: heard_receive heard_history_def numeral_2_eq_2 numeral_3_eq_3)

lemma heard_fragment [simp]: "message_fragment sample_codec (heard_as i) = Some (heard_part i)"
  by (simp add: message_fragment_def heard_as_def getType_def getData_def sample_codec_def
      get_put_fragment)

lemma heard_single:
  assumes "heard_part i = scope_part sid q scope 0 1 d" and "scope \<noteq> []"
  shows "\<exists>n. handleMessage sample_codec sample_scopes dbg now (heard_as i) p = (Inr (Some n), p)"
  using assms
  by (simp add: handleMessage_fragment [OF heard_fragment] maybeJoinFragments_def scope_part_def
      incoming_notification_def sample_scopes_def)

lemma heard_run:
  assumes "dh_run sample_codec sample_scopes dbg heard_messages sample_pool = (rs, p')"
  shows "\<forall>r \<in> set rs. \<exists>x. r = Inr x"
proof -
  let ?ms = "[(2, heard_as 2), (3, heard_as 3)]"
  let ?frs = "[heard_part 2, heard_part 3]"
  have parts: "heard_part 0 = scope_part ''s'' 5 ''/a'' 0 1 ''one''"
    "heard_part 1 = scope_part ''q'' 9 ''/a'' 0 1 ''noise''"
    "heard_part 2 = scope_part ''s'' 7 ''/a'' 0 2 ''payload''"
    "heard_part 3 = scope_part ''s'' 7 ''/a'' 1 2 '' of''"
    by (simp_all add: heard_part_def)
  obtain n0 n1 where first: "handleMessage sample_codec sample_scopes dbg 0 (heard_as 0) sample_pool
      = (Inr (Some n0), sample_pool)"
    and second: "handleMessage sample_codec sample_scopes dbg 1 (heard_as 1) sample_pool
      = (Inr (Some n1), sample_pool)"
    using heard_single [OF parts(1), of dbg 0 sample_pool] heard_single [OF parts(2), of dbg 1 sample_pool]
    by auto
  obtain rs1 p1 where rest: "dh_run sample_codec sample_scopes dbg ?ms sample_pool = (rs1, p1)"
    by (metis surj_pair)
  have rs: "rs = Inr (Some n0) # Inr (Some n1) # rs1"
    using assms first second rest by (simp del: dh_run.simps(2)) (auto split: prod.splits)
  have key: "pool_key (heard_part 3) = pool_key (heard_part 2)"
    by (simp add: pool_key_eq parts scope_part_def)
  have split: "is_split ?frs"
    using key by (auto simp: is_split_def less_Suc_eq frag_defs parts scope_part_def)
  have mine: "carries_key sample_codec (pool_key (heard_part 2)) m" if "m \<in> {heard_as 2, heard_as 3}" for m
    using that key by (auto simp: carries_key_def)
  have "mset (map (\<lambda>x. message_fragment sample_codec (snd x))
      (messages_for sample_codec (pool_key (?frs ! 0)) ?ms)) = mset (map Some ?frs)"
    using mine by (simp add: messages_for_def)
  moreover have "map_of (pool sample_pool) (pool_key (?frs ! 0)) = None" by (simp add: sample_pool_def)
  ultimately have "answers_for sample_codec (pool_key (?frs ! 0)) ?ms rs1
      = [Inr None, incoming_notification sample_scopes (join_parts ?frs)]"
    using dh_run_split [OF split _ _ _ rest] by simp
  moreover have "length rs1 = 2" using rest by (auto split: prod.splits)
  then have "answers_for sample_codec (pool_key (?frs ! 0)) ?ms rs1 = rs1"
    using mine by (auto simp: answers_for_def numeral_2_eq_2 length_Suc_conv)
  moreover have "\<exists>n. incoming_notification sample_scopes (join_parts ?frs) = Inr (Some n)"
    by (simp add: incoming_notification_def join_parts_def parts scope_part_def sample_scopes_def)
  ultimately show ?thesis unfolding rs by auto
qed


lemma scoped_headers:
  "headerByteSize sample_codec (fragment_header scoped_events e ''utf-8'' True) = of_nat (length (fst e) + 4)"
  "headerByteSize sample_codec (fragment_header scoped_events e ''utf-8'' False) = 4"
  by (simp_all add: sample_world_defs scoped_events_def fragment_header_def)

lemma scoped_events_facts:
  "fills_notifications sample_scopes scoped_events"
  "\<forall>e \<in> set published_events. publishable sample_scopes sample_codec scoped_events 13 5 e
      \<and> sender_id (getEventId scoped_events e) = ''s''"
  "distinct (map (getEventId scoped_events) published_events)"
proof -
  have fit: "headers_fit sample_codec scoped_events 13 5 e ''utf-8''" if "length (fst e) = 2" for e
    using that by (simp add: headers_fit_def header_fits_def scoped_headers all_bool_eq)
  have wire: "to_wire scoped_events e = Inr (''utf-8'', snd (snd e))" "getScope scoped_events e = fst e"
    "getEventId scoped_events e = \<lparr>sender_id = ''s'', sequence_number = of_nat (fst (snd e))\<rparr>" for e
    by (simp_all add: scoped_events_def)
  show "\<forall>e \<in> set published_events. publishable sample_scopes sample_codec scoped_events 13 5 e
      \<and> sender_id (getEventId scoped_events e) = ''s''"
    by (simp add: publishable_def wire fit) (simp add: sample_scopes_def)
  show "distinct (map (getEventId scoped_events) published_events)" by (simp add: wire)
  show "fills_notifications sample_scopes scoped_events"
    by (simp add: fills_notifications_def scoped_events_def sample_scopes_def)
qed

theorem subscriber_hears_publisher_witness:
  "\<exists>ns t' s' z'. receiver_run sample_codec sample_scopes pubsub_api True (\<lambda>ex. False)
      (weak_handler scope_dispatcher (connector_sinks sample_in_events 0) (Some [(''/a'', 4)])) [0, 1, 2, 3]
      (\<lparr>messageHandler = sample_pool, taskCancelled = False\<rparr>, (heard_conn, heard_history), listening_connectors)
        = (Inr (), (t', s', z'))
    \<and> z' 4 = Some (listening_connector, ic_run sample_in_events 0 listening_connector ns ([], []))
    \<and> map Some (filter (notified_by ''s'') ns)
      = map Some [event_notification scoped_events (''/a'', 5, ''one'') ''utf-8'' ''one'',
         event_notification scoped_events (''/a'', 7, ''payload of'') ''utf-8'' ''payload of'']"
proof -
  let ?t = "\<lparr>messageHandler = sample_pool, taskCancelled = False\<rparr>"
  obtain oc' w' where publish: "publish_all sample_scopes (MAX_GROUP_NAME pubsub_api) sample_codec
      scoped_events True (bus_handleOutgoing sample_codec pubsub_api True quiet_dispatcher quiet_sinks)
      (map (Pair 0) published_events) (oc_new 13, (quiet_bus, [], ()))
    = (Inr (), (published_events, oc', (quiet_bus, w', ())))"
    and sent: "sent w' = rev [published_packet ''/a'' (scope_part ''s'' 5 ''/a'' 0 1 ''one''),
      published_packet ''/b'' (scope_part ''s'' 6 ''/b'' 0 1 ''two''),
      published_packet ''/a'' (scope_part ''s'' 7 ''/a'' 0 2 ''payload''),
      published_packet ''/a'' (scope_part ''s'' 7 ''/a'' 1 2 '' of'')] @ sent []"
    (is "_ = ?new @ _")
    using scoped_publish by blast
  have fit: "\<forall>e \<in> set published_events. publishable sample_scopes sample_codec scoped_events
      (maxFragmentSize (oc_new 13 :: string out_connector)) (minDataSpace (oc_new 13 :: string out_connector)) e
      \<and> sender_id (getEventId scoped_events e) = ''s''"
    using scoped_events_facts(2) by (simp add: oc_new_def)
  have cache: "cache_inv sample_scopes (MAX_GROUP_NAME pubsub_api) (oc_cache (oc_new 13))"
    by (simp add: oc_new_def)
  note publisher = sample_codec_roundtrips scoped_events_facts(1) sample_scopes_printable publish fit
    scoped_events_facts(3) cache sent
  have dispatch: "subscribed sample_scopes scope_dispatcher (scopeDispatcher heard_bus)
      (\<lambda>j. listening_connectors j \<noteq> None) 4 ''/a''"
    by (simp add: subscribed_def scope_dispatcher_def heard_bus_def listening_connectors_def)
  have once: "distinct (disp_sinks scope_dispatcher al sc (scopeDispatcher heard_bus))" for al sc
    by (simp add: scope_dispatcher_def)
  have at: "listening_connectors 4 = Some (listening_connector, ([], []))"
    by (simp add: listening_connectors_def)
  note subscriber = heard_session [of "connector_sinks sample_in_events 0" listening_connectors]
  obtain s' where reads: "reads pubsub_api True [0, 1, 2, 3] (connection heard_bus, heard_history)
      = Some (heard_messages, s')"
    using heard_reads by (auto simp: heard_bus_def)
  have "joined (mailbox (connection heard_bus)) heard_history = {''/a''}"
    by (simp add: heard_bus_def heard_conn_def heard_history_def open_conn_def conn_new_def)
  then have routed: "map getData (filter (from_sender sample_codec ''s'') (map snd heard_messages))
      = map (\<lambda>p. snd (snd p)) (filter (reaches (joined (mailbox (connection heard_bus)) heard_history)) (rev ?new))"
    by (simp add: from_sender_def reaches_def published_packet_def heard_part_def scope_part_def)
      (simp add: heard_as_def getData_def heard_part_def scope_part_def)
  have idle: "\<not> taskCancelled ?t" "pool (messageHandler ?t) = []" by (simp_all add: sample_pool_def)
  obtain rs p' where run: "dh_run sample_codec sample_scopes True heard_messages (messageHandler ?t) = (rs, p')"
    by (metis surj_pair)
  then have "\<forall>r \<in> set rs. \<exists>x. r = Inr x" by (intro heard_run) simp
  then have ok: "\<forall>r \<in> set rs. \<exists>x. r = Inr x" .
  have bus: "scopeDispatcher heard_bus = [(''/a'', 4)]" "connection heard_bus = heard_conn"
    by (simp_all add: heard_bus_def)
  have views: "map (sent_notification scoped_events)
      (filter (\<lambda>e. ''/a'' \<in> set (superScopes sample_scopes (getScope scoped_events e))) published_events)
      = map Some [event_notification scoped_events (''/a'', 5, ''one'') ''utf-8'' ''one'',
         event_notification scoped_events (''/a'', 7, ''payload of'') ''utf-8'' ''payload of'']"
    by (simp add: sent_notification_def sample_scopes_def scoped_events_def)
  have reg: "''/a'' \<in># {#''/a''#}" by simp
  from subscriber_hears_publisher [OF publisher subscriber reg dispatch once listening_ok at reads routed idle run ok,
      of "\<lambda>ex. False"]
  show ?thesis unfolding bus views by (elim exE) (intro exI, assumption)
qed

end
