(* ===== verification/LocalDelivery.thy ===== *)
theory LocalDelivery
  imports PubSub
begin

text \<open>
  Subscribers in the publishing process. A bus hands an event it has sent to its own sinks as well, in
  the thread of the sender; the daemon does not return it (\<open>SELF_DISCARD\<close>). A connector on the same bus
  hears of its publisher what a connector in another process hears.
\<close>

section \<open>One event\<close>

lemma map_sinks_addressed:
  assumes "connectors_ok ie z" and "\<And>al sc. distinct (disp_sinks da al sc d)"
  shows "map_sinks (\<lambda>k. sink_handleNotification (connector_sinks ie now) k n)
      (disp_sinks da (sink_alive (connector_sinks ie now) z) (nf_scope n) d) z
    = (Inr (), \<lambda>k. take_all ie now (addressed da d z k [n]) (z k))"
  using incoming_connectors [OF assms, of now n] by (simp add: weak_handler_def bus_handleIncoming_def)

lemma sendNotification_dispatcher:
  "sendNotification ca api dbg n (b, w) = (r, (b', w')) \<Longrightarrow> scopeDispatcher b' = scopeDispatcher b"
  by (auto simp: sendNotification_def split: prod.splits sum.splits)

lemma bus_handleOutgoing_local:
  assumes "bus_handleOutgoing ca api dbg da (connector_sinks ie now) n (b, w, z) = (r, (b', w', z'))"
    and "connectors_ok ie z" and "\<And>al sc. distinct (disp_sinks da al sc (scopeDispatcher b))"
  shows "scopeDispatcher b' = scopeDispatcher b"
    and "r = Inr () \<Longrightarrow> z' = (\<lambda>k. take_all ie now (addressed da (scopeDispatcher b) z k [as_notification n]) (z k))"
    and "r = Inl ex \<Longrightarrow> z' = z"
proof -
  obtain q b1 w1 where send: "sendNotification ca api dbg n (b, w) = (q, (b1, w1))" by (metis prod.exhaust)
  note same = sendNotification_dispatcher [OF send]
  have scope: "nf_scope (as_notification n) = nf_scope n" by (simp add: transport_notification.defs)
  note sinks = map_sinks_addressed [OF assms(2,3), of now "as_notification n", unfolded scope]
  show "scopeDispatcher b' = scopeDispatcher b"
    using assms(1) send same by (auto simp: bus_handleOutgoing_def sinks split: sum.splits)
  show "r = Inr () \<Longrightarrow> z' = (\<lambda>k. take_all ie now (addressed da (scopeDispatcher b) z k [as_notification n]) (z k))"
    using assms(1) send by (auto simp: bus_handleOutgoing_def same sinks split: sum.splits)
  show "r = Inl ex \<Longrightarrow> z' = z"
    using assms(1) send by (auto simp: bus_handleOutgoing_def same sinks split: sum.splits)
qed

text \<open>What a call of \<open>OutConnector::handle\<close> does to the connectors of its own bus: when it returns they
  get one notification of the event, when it throws they get nothing. The notification differs from
  that of another process in one field: the embedded \<open>Notification\<close> is that of the first fragment, with
  the data of this fragment only.\<close>

definition without_data :: "('sc, 'm) transport_notification \<Rightarrow> ('sc, 'm) transport_notification" where
  "without_data n = n\<lparr>nf_notification := (nf_notification n)\<lparr>nt_data := []\<rparr>\<rparr>"

lemma without_data_scope [simp]: "nf_scope (without_data n) = nf_scope n"
  by (simp add: without_data_def)

definition local_notification ::
  "('e, 'sc, 'm) event_api \<Rightarrow> 'e \<Rightarrow> ('sc, 'm) transport_notification option" where
  "local_notification ea e = map_option without_data (sent_notification ea e)"

lemma oc_handle_local:
  assumes "oc_handle sa maxg ca ea dbg (bus_handleOutgoing ca api dbg da (connector_sinks ie now)) time event
      (oc, (b, w, z)) = (r, (e, oc', (b', w', z')))"
    and "fills_notifications sa ea" and "connectors_ok ie z"
    and "\<And>al sc. distinct (disp_sinks da al sc (scopeDispatcher b))"
  shows "scopeDispatcher b' = scopeDispatcher b" and "maxFragmentSize oc' = maxFragmentSize oc"
    and "minDataSpace oc' = minDataSpace oc"
    and "r = Inr () \<Longrightarrow> publishable sa ca ea (maxFragmentSize oc) (minDataSpace oc) e \<Longrightarrow>
      \<exists>n. Some (without_data n) = local_notification ea e
        \<and> z' = (\<lambda>k. take_all ie now (addressed da (scopeDispatcher b) z k [n]) (z k))"
    and "r = Inl ex \<Longrightarrow> z' = z"
proof -
  obtain groups cache' where groups: "scopeToGroups sa maxg (getScope ea e) (oc_cache oc) = (groups, cache')"
    by (metis surj_pair)
  have e: "e = setSendTime ea time event" using assms(1)
    by (auto simp: oc_handle_def Let_def split: prod.splits sum.splits)
  show "maxFragmentSize oc' = maxFragmentSize oc" "minDataSpace oc' = minDataSpace oc"
    using assms(1) by (auto simp: oc_handle_def Let_def split: prod.splits sum.splits)
  have stopped: "b' = b \<and> z' = z \<and> (\<exists>ex. r = Inl ex)" if "to_wire ea e = Inl ex" for ex
    using assms(1) groups that by (auto simp: oc_handle_def e [symmetric])
  have all: "scopeDispatcher b' = scopeDispatcher b \<and> (r = Inl ex \<longrightarrow> z' = z)
    \<and> (r = Inr () \<longrightarrow> publishable sa ca ea (maxFragmentSize oc) (minDataSpace oc) e \<longrightarrow>
      (\<exists>n. Some (without_data n) = local_notification ea e
        \<and> z' = (\<lambda>k. take_all ie now (addressed da (scopeDispatcher b) z k [n]) (z k))))"
  proof (cases "to_wire ea e")
    case (Inl ex)
    with stopped show ?thesis by auto
  next
    case (Inr sw)
    obtain schema wire where sw: "to_wire ea e = Inr (schema, wire)" using Inr by (cases sw) simp
    show ?thesis
    proof (cases "make_fragments ca ea dbg (maxFragmentSize oc) (minDataSpace oc) e schema wire 0 0 []")
      case (Inl ex)
      then show ?thesis using assms(1) groups sw by (simp add: oc_handle_def e [symmetric]) blast
    next
      case mk: (Inr fragments)
      let ?n = "\<lparr>nf_scope = getScope ea e, nf_wireSchema = schema, nf_serializedPayload = wire,
          nf_notification = fn_notification (fragments ! 0), on_qos = messageQOS oc,
          on_groups = groups, on_fragments = fragments\<rparr>"
      have handled: "bus_handleOutgoing ca api dbg da (connector_sinks ie now) ?n (b, w, z) = (r, (b', w', z'))"
        using assms(1) groups sw mk by (auto simp: oc_handle_def e [symmetric] split: prod.splits)
      note local = bus_handleOutgoing_local [OF handled assms(3,4)]
      have "Some (without_data (as_notification ?n)) = local_notification ea e"
        if "publishable sa ca ea (maxFragmentSize oc) (minDataSpace oc) e"
      proof -
        have fit: "headers_fit ca ea (maxFragmentSize oc) (minDataSpace oc) e schema"
          "length wire + unat (maxFragmentSize oc) < 2 ^ 32"
          using that sw by (simp_all add: publishable_def)
        note split = make_fragments_split [OF mk fit assms(2)]
        obtain h where "fn_notification (fragments ! 0) = (fragment_header ea e schema True)\<lparr>nt_data := h\<rparr>"
          using split(5) by blast
        then show ?thesis
          by (simp add: local_notification_def sent_notification_def sw event_notification_def
              without_data_def transport_notification.defs)
      qed
      then show ?thesis using local by blast
    qed
  qed
  then show "scopeDispatcher b' = scopeDispatcher b" and "r = Inl ex \<Longrightarrow> z' = z" by simp_all
  assume "r = Inr ()" "publishable sa ca ea (maxFragmentSize oc) (minDataSpace oc) e"
  with all show "\<exists>n. Some (without_data n) = local_notification ea e
      \<and> z' = (\<lambda>k. take_all ie now (addressed da (scopeDispatcher b) z k [n]) (z k))" by blast
qed

section \<open>A sequence of events\<close>

text \<open>The events a publisher has got rid of: all, or all but the one whose call threw.\<close>

fun published :: "exn + unit \<Rightarrow> 'e list \<Rightarrow> 'e list" where
  "published (Inr _) es = es"
| "published (Inl _) es = butlast es"

lemma published_Cons: "es \<noteq> [] \<Longrightarrow> published r (e # es) = e # published r es"
  by (cases r) simp_all

lemma publish_all_failed:
  "publish_all sa maxg ca ea dbg handle evs st = (Inl ex, (es, st')) \<Longrightarrow> es \<noteq> []"
  by (cases "(sa, maxg, ca, ea, dbg, handle, evs, st)" rule: publish_all.cases)
    (auto split: prod.splits sum.splits)

lemma publish_all_local:
  assumes "publish_all sa maxg ca ea dbg (bus_handleOutgoing ca api dbg da (connector_sinks ie now)) evs
      (oc, (b, w, z)) = (r, (es, oc', (b', w', z')))"
    and "\<forall>e \<in> set (published r es). publishable sa ca ea (maxFragmentSize oc) (minDataSpace oc) e"
    and "fills_notifications sa ea" and "connectors_ok ie z"
    and "\<And>al sc. distinct (disp_sinks da al sc (scopeDispatcher b))"
  shows "\<exists>ns. map (Some \<circ> without_data) ns = map (local_notification ea) (published r es)
    \<and> z' = (\<lambda>k. take_all ie now (addressed da (scopeDispatcher b) z k ns) (z k))"
  using assms(1,2,4,5)
proof (induction evs arbitrary: oc b w z es)
  case Nil
  then show ?case by (intro exI [of _ "[]"]) (auto simp: addressed_def)
next
  case (Cons ev evs)
  obtain time event where ev: "ev = (time, event)" by (cases ev)
  obtain q e oc1 b1 w1 z1 where handle:
    "oc_handle sa maxg ca ea dbg (bus_handleOutgoing ca api dbg da (connector_sinks ie now)) time event
      (oc, (b, w, z)) = (q, (e, oc1, (b1, w1, z1)))" by (metis prod.exhaust)
  note one = oc_handle_local [OF handle assms(3) Cons.prems(3,4)]
  show ?case
  proof (cases q)
    case (Inl ex)
    then have "r = Inl ex" "es = [e]" "z' = z1" using Cons.prems(1) handle ev by simp_all
    then show ?thesis using one(5) Inl by (intro exI [of _ "[]"]) (simp add: addressed_def)
  next
    case (Inr x)
    then obtain es1 where
      rest: "publish_all sa maxg ca ea dbg (bus_handleOutgoing ca api dbg da (connector_sinks ie now)) evs
        (oc1, (b1, w1, z1)) = (r, (es1, oc', (b', w', z')))" and es: "es = e # es1"
      using Cons.prems(1) handle ev by (auto split: prod.splits)
    have pub: "published r es = e # published r es1"
    proof (cases r)
      case (Inl ex)
      with rest publish_all_failed have "es1 \<noteq> []" by blast
      then show ?thesis by (simp add: es published_Cons)
    qed (simp add: es)
    have q: "q = Inr ()" using Inr by simp
    have fit: "publishable sa ca ea (maxFragmentSize oc) (minDataSpace oc) e" using Cons.prems(2) pub by simp
    obtain n where n: "Some (without_data n) = local_notification ea e"
      "z1 = (\<lambda>k. take_all ie now (addressed da (scopeDispatcher b) z k [n]) (z k))"
      using one(4) [OF q fit] by blast
    have ok: "connectors_ok ie z1"
      by (rule connectors_ok_take [OF Cons.prems(3), of _ now]) (use n(2) in blast)
    have fits: "\<forall>e \<in> set (published r es1). publishable sa ca ea (maxFragmentSize oc1) (minDataSpace oc1) e"
      using Cons.prems(2) one(2,3) pub by simp
    have once: "\<And>al sc. distinct (disp_sinks da al sc (scopeDispatcher b1))" using Cons.prems(4) one(1) by simp
    obtain ns where ns: "map (Some \<circ> without_data) ns = map (local_notification ea) (published r es1)"
      "z' = (\<lambda>k. take_all ie now (addressed da (scopeDispatcher b1) z1 k ns) (z1 k))"
      using Cons.IH [OF rest fits ok once] by blast
    have "addressed da d z1 = addressed da d z" for d by (rule addressed_alive) (simp add: n(2))
    then have "z' = (\<lambda>k. take_all ie now (addressed da (scopeDispatcher b) z k (n # ns)) (z k))"
      using n(2) one(1) by (simp add: ns(2) fun_eq_iff) (simp add: addressed_def)
    then show ?thesis using ns(1) n(1) pub by (intro exI [of _ "n # ns"]) (simp add: comp_def)
  qed
qed

lemma local_scope_filter:
  "map (Some \<circ> without_data) ns = map (local_notification ea) es \<Longrightarrow>
     map (Some \<circ> without_data) (filter (\<lambda>n. Q (nf_scope n)) ns)
       = map (local_notification ea) (filter (\<lambda>e. Q (getScope ea e)) es)"
proof (induction ns arbitrary: es)
  case (Cons n ns)
  then obtain e es' where es: "es = e # es'" by (cases es) auto
  then obtain n' where "sent_notification ea e = Some n'" "without_data n = without_data n'"
    using Cons.prems by (cases "sent_notification ea e") (auto simp: local_notification_def)
  then have "nf_scope n = getScope ea e"
    using sent_notificationD [of ea e n'] without_data_scope by metis
  then show ?case using Cons es by simp
qed simp

text \<open>C11 Local subscribers: a sequence of events is published on a bus that has connectors of its own.
  Whether the calls all return or the last one throws, a connector of this bus that is registered for a
  scope has then got exactly the events on this scope or a sub-scope that were sent, each once, in the
  order of publication, with the header, the scope, the wire schema and the payload of the event, and
  nothing of the event whose call threw. These are the notifications of another process but for the data
  inside the embedded \<open>Notification\<close>, which is only the first piece of the payload.\<close>

theorem local_subscriber_hears_publisher:
  assumes "publish_all sa maxg ca ea dbg (bus_handleOutgoing ca api dbg da (connector_sinks ie now)) evs
      (oc, (b, w, z)) = (r, (es, oc', (b', w', z')))"
    and "\<forall>e \<in> set (published r es). publishable sa ca ea (maxFragmentSize oc) (minDataSpace oc) e"
    and "fills_notifications sa ea" and "connectors_ok ie z"
    and "\<And>al sc. distinct (disp_sinks da al sc (scopeDispatcher b))"
    and "subscribed sa da (scopeDispatcher b) (\<lambda>j. z j \<noteq> None) k scope" and "z k = Some (ic, st)"
  shows "\<exists>ns. z' k = Some (ic, ic_run ie now ic ns st)
    \<and> map (Some \<circ> without_data) ns = map (local_notification ea)
        (filter (\<lambda>e. scope \<in> set (superScopes sa (getScope ea e))) (published r es))"
proof -
  obtain ns where ns: "map (Some \<circ> without_data) ns = map (local_notification ea) (published r es)"
    "z' = (\<lambda>k. take_all ie now (addressed da (scopeDispatcher b) z k ns) (z k))"
    using publish_all_local [OF assms(1-5)] by blast
  have "addressed da (scopeDispatcher b) z k ns = filter (\<lambda>n. scope \<in> set (superScopes sa (nf_scope n))) ns"
    using filter_addressed [OF assms(6), of "\<lambda>n. True" ns] by simp
  moreover have "map (Some \<circ> without_data) (filter (\<lambda>n. scope \<in> set (superScopes sa (nf_scope n))) ns)
      = map (local_notification ea) (filter (\<lambda>e. scope \<in> set (superScopes sa (getScope ea e))) (published r es))"
    by (rule local_scope_filter [where Q = "\<lambda>sc. scope \<in> set (superScopes sa sc)", OF ns(1)])
  ultimately show ?thesis using ns(2) assms(7) by (cases st) (auto intro: exI)
qed

section \<open>A bus with a connector of its own\<close>

text \<open>The second event does not fit and throws; the connector has got the first one.\<close>

definition local_bus :: "(unit, (string \<times> nat) list) bus" where
  "local_bus = heard_bus\<lparr>connection := open_conn\<rparr>"

abbreviation failing_events :: "(string \<times> nat \<times> string) list" where
  "failing_events \<equiv> [(''/a'', 5, ''one''), (''/a/b'', 7, ''x'')]"

lemma too_big: "make_fragments sample_codec scoped_events dbg 13 5 (''/a/b'', 7, ''x'') ''utf-8'' ''x'' 0 0 []
   = Inl (ProtocolException too_big_text)"
  by (simp add: make_fragments.simps fragment_header_def sample_codec_def scoped_events_def)


lemma too_big_throws:
  assumes "maxFragmentSize oc = 13" "minDataSpace oc = 5"
  shows "\<exists>oc'. oc_handle sample_scopes 32 sample_codec scoped_events True handle 0 (''/a/b'', 7, ''x'') (oc, b)
    = (Inl (ProtocolException too_big_text), ((''/a/b'', 7, ''x''), oc', b))"
proof -
  have events: "setSendTime scoped_events now e = e" "getScope scoped_events e = fst e"
    "to_wire scoped_events e = Inr (''utf-8'', snd (snd e))" for e now
    by (simp_all add: scoped_events_def)
  show ?thesis by (cases "scopeToGroups sample_scopes 32 ''/a/b'' (oc_cache oc)")
    (simp add: oc_handle_def events assms too_big Let_def)
qed

lemma local_publish:
  "\<exists>oc' w' z'. oc_handle sample_scopes 32 sample_codec scoped_events True
     (bus_handleOutgoing sample_codec pubsub_api True scope_dispatcher (connector_sinks sample_in_events 0))
     0 (''/a'', 5, ''one'') (oc_new 13, (local_bus, [], listening_connectors))
   = (Inr (), ((''/a'', 5, ''one''), oc', (local_bus, w', z'))) \<and> maxFragmentSize oc' = 13 \<and> minDataSpace oc' = 5"
proof -
  have events: "setSendTime scoped_events now e = e" "getScope scoped_events e = fst e"
    "to_wire scoped_events e = Inr (''utf-8'', snd (snd e))" for e now
    by (simp_all add: scoped_events_def)
  have groups: "scopeToGroups sample_scopes 32 ''/a'' [] = ([''/a'', ''/''], [(''/a'', [''/a'', ''/''])])"
    by (rule sample_groups)
  have max: "MAX_GROUP_NAME pubsub_api = 32" by (simp add: pubsub_api_def sample_api_def)
  have a: "''/a'' \<in> {''/a'', ''/b''}" by simp
  have frag: "serialize sample_codec ((scope_part ''s'' 5 ''/a'' 0 1 ''one'')\<lparr>fn_num_data_parts := 1\<rparr>)
      = Some (put_fragment (scope_part ''s'' 5 ''/a'' 0 1 ''one''))"
    by (simp add: sample_codec_def scope_part_def)
  have send: "\<exists>w'. sendNotification sample_codec pubsub_api True n (local_bus, []) = (Inr (), (local_bus, w'))"
    if "on_qos n = FIFO" "on_groups n = [''/a'', ''/'']" "on_fragments n = [scope_part ''s'' 5 ''/a'' 0 1 ''one'']"
    for n :: "(string, unit) outgoing_notification"
    using that scoped_send [OF a] frag
    by (simp add: sendNotification_def local_bus_def heard_bus_def setData_def del: addGroups.simps)
  have sinks: "\<exists>z'. map_sinks (\<lambda>k. sink_handleNotification (connector_sinks sample_in_events 0) k n)
      (disp_sinks scope_dispatcher al s (scopeDispatcher local_bus)) listening_connectors = (Inr (), z')"
    for n :: "(string, unit) transport_notification" and al s
    using map_sinks_connectors [OF listening_ok] by (auto simp: scope_dispatcher_def)
  let ?n = "\<lparr>nf_scope = ''/a'', nf_wireSchema = ''utf-8'', nf_serializedPayload = ''one'',
     nf_notification = fn_notification (scope_part ''s'' 5 ''/a'' 0 1 ''one''), on_qos = FIFO,
     on_groups = [''/a'', ''/''], on_fragments = [scope_part ''s'' 5 ''/a'' 0 1 ''one'']\<rparr>"
  obtain w' where w': "sendNotification sample_codec pubsub_api True ?n (local_bus, []) = (Inr (), (local_bus, w'))"
    using send [of ?n] by auto
  obtain z' where z': "map_sinks (\<lambda>k. sink_handleNotification (connector_sinks sample_in_events 0) k (as_notification ?n))
      (disp_sinks scope_dispatcher (sink_alive (connector_sinks sample_in_events 0) listening_connectors) ''/a''
        (scopeDispatcher local_bus)) listening_connectors = (Inr (), z')"
    using sinks by blast
  have "bus_handleOutgoing sample_codec pubsub_api True scope_dispatcher (connector_sinks sample_in_events 0) ?n
      (local_bus, [], listening_connectors) = (Inr (), (local_bus, w', z'))"
    using w' z' by (simp add: bus_handleOutgoing_def)
  moreover have "maxFragmentSize (oc_new 13 :: string out_connector) = 13" "minDataSpace (oc_new 13 :: string out_connector) = 5"
    "messageQOS (oc_new 13 :: string out_connector) = FIFO" "oc_cache (oc_new 13 :: string out_connector) = []"
    by (simp_all add: oc_new_def)
  ultimately show ?thesis
    by (simp add: oc_handle_def events groups scoped_fragments Let_def del: One_nat_def)
qed

theorem local_subscriber_hears_publisher_witness:
  "\<exists>ns oc' b' w' z'. publish_all sample_scopes 32 sample_codec scoped_events True
     (bus_handleOutgoing sample_codec pubsub_api True scope_dispatcher (connector_sinks sample_in_events 0))
     (map (Pair 0) failing_events) (oc_new 13, (local_bus, [], listening_connectors))
   = (Inl (ProtocolException too_big_text), (failing_events, oc', (b', w', z')))
   \<and> z' 4 = Some (listening_connector, ic_run sample_in_events 0 listening_connector ns ([], []))
   \<and> map (Some \<circ> without_data) ns
     = [Some (without_data (event_notification scoped_events (''/a'', 5, ''one'') ''utf-8'' ''one''))]"
proof -
  let ?handle = "bus_handleOutgoing sample_codec pubsub_api True scope_dispatcher (connector_sinks sample_in_events 0)"
  obtain oc1 w1 z1 where one: "oc_handle sample_scopes 32 sample_codec scoped_events True ?handle
     0 (''/a'', 5, ''one'') (oc_new 13, (local_bus, [], listening_connectors))
   = (Inr (), ((''/a'', 5, ''one''), oc1, (local_bus, w1, z1)))"
    and sizes: "maxFragmentSize oc1 = 13" "minDataSpace oc1 = 5" using local_publish by blast
  obtain oc' where "oc_handle sample_scopes 32 sample_codec scoped_events True ?handle 0 (''/a/b'', 7, ''x'')
      (oc1, (local_bus, w1, z1)) = (Inl (ProtocolException too_big_text), ((''/a/b'', 7, ''x''), oc', (local_bus, w1, z1)))"
    using too_big_throws [OF sizes, of ?handle "(local_bus, w1, z1)"] by blast
  with one have publish: "publish_all sample_scopes 32 sample_codec scoped_events True ?handle
      (map (Pair 0) failing_events) (oc_new 13, (local_bus, [], listening_connectors))
    = (Inl (ProtocolException too_big_text), (failing_events, oc', (local_bus, w1, z1)))" by simp
  have fit: "\<forall>e \<in> set (published (Inl (ProtocolException too_big_text)) failing_events).
      publishable sample_scopes sample_codec scoped_events (maxFragmentSize (oc_new 13 :: string out_connector))
        (minDataSpace (oc_new 13 :: string out_connector)) e"
    using scoped_events_facts(2) by (simp add: oc_new_def)
  have once: "distinct (disp_sinks scope_dispatcher al sc (scopeDispatcher local_bus))" for al sc
    by (simp add: scope_dispatcher_def)
  have dispatch: "subscribed sample_scopes scope_dispatcher (scopeDispatcher local_bus)
      (\<lambda>j. listening_connectors j \<noteq> None) 4 ''/a''"
    by (simp add: subscribed_def scope_dispatcher_def local_bus_def heard_bus_def listening_connectors_def)
  have at: "listening_connectors 4 = Some (listening_connector, ([], []))"
    by (simp add: listening_connectors_def)
  have views: "map (local_notification scoped_events) (filter (\<lambda>e. ''/a'' \<in> set (superScopes sample_scopes (getScope scoped_events e)))
      (published (Inl (ProtocolException too_big_text)) failing_events))
      = [Some (without_data (event_notification scoped_events (''/a'', 5, ''one'') ''utf-8'' ''one''))]"
    by (simp add: local_notification_def sent_notification_def sample_scopes_def scoped_events_def)
  from local_subscriber_hears_publisher [OF publish fit scoped_events_facts(1) listening_ok once dispatch at]
  obtain ns where "z1 4 = Some (listening_connector, ic_run sample_in_events 0 listening_connector ns ([], []))"
    "map (Some \<circ> without_data) ns
      = [Some (without_data (event_notification scoped_events (''/a'', 5, ''one'') ''utf-8'' ''one''))]"
    unfolding views by (elim exE conjE)
  with publish show ?thesis by (intro exI [of _ ns] exI [of _ oc'] exI [of _ local_bus] exI [of _ w1] exI [of _ z1] conjI)
qed
end
