(* ===== verification/Packets.thy ===== *)
theory Packets
  imports EndToEnd
begin

text \<open>
  What leaves a process: whatever becomes of a call of \<open>OutConnector::handle\<close>, the packets it has sent
  are addressed to proper Spread groups. A scope with too many components overflows the group array.
\<close>

section \<open>Packets of one message\<close>

lemma fill_groupNames_length:
  "fill_groupNames maxg dbg i gs = Inr rows \<Longrightarrow> i \<le> SPREAD_MAX_GROUPS \<Longrightarrow> i + length gs \<le> SPREAD_MAX_GROUPS"
  by (induction gs arbitrary: i rows) (fastforce split: if_splits sum.splits)+

text \<open>At most one packet, to the groups of the message.\<close>

definition packet_of :: "spread_api \<Rightarrow> spread_message \<Rightarrow> string list \<times> 32 word \<times> string" where
  "packet_of api m = (map c_str (mgroups m), or (qos_code (mqos m)) (SELF_DISCARD api), mdata m)"

lemma conn_send_packets:
  assumes "conn_send api dbg m (c, w) = (r, (c', w'))"
  shows "sent w' = sent w \<or> sent w' = packet_of api m # sent w \<and> mgroups m \<noteq> []
    \<and> length (mgroups m) \<le> SPREAD_MAX_GROUPS"
proof (cases "length (mgroups m) = 1")
  case True
  then obtain g where "mgroups m = [g]" by (auto simp: length_Suc_conv)
  with assms show ?thesis
    by (auto simp: conn_send_def send_result_def message_accessors Let_def packet_of_def
        SPREAD_MAX_GROUPS_def split: if_splits)
next
  case False
  with assms show ?thesis
    using fill_groupNames_length [of "MAX_GROUP_NAME api" dbg 0 "mgroups m"]
    by (auto simp: conn_send_def send_result_def message_accessors Let_def packet_of_def
        dest: fill_groupNames_Inr split: if_splits sum.splits)
qed

definition packet_ok ::
  "spread_api \<Rightarrow> string set \<Rightarrow> qos \<Rightarrow> string list \<times> 32 word \<times> string \<Rightarrow> bool" where
  "packet_ok api groups q p \<longleftrightarrow> (case p of (gs, service, data) \<Rightarrow>
     set gs = groups \<and> sorted gs \<and> distinct gs \<and> gs \<noteq> [] \<and> length gs \<le> SPREAD_MAX_GROUPS
   \<and> (\<forall>g \<in> set gs. nul_free g \<and> length g < MAX_GROUP_NAME api)
   \<and> service = or (qos_code q) (SELF_DISCARD api))"

lemma send_fragments_packets:
  assumes "send_fragments ca api dbg k fs m (c, w) = (r, (c', w'))"
    and "message_wf (MAX_GROUP_NAME api) m" and "\<forall>g \<in> set (mgroups m). nul_free g"
    and "0 < MAX_GROUP_NAME api"
  shows "\<exists>new. sent w' = new @ sent w \<and> (\<forall>p \<in> set new. packet_ok api (set (mgroups m)) (mqos m) p)"
  using assms(1-3)
proof (induction fs arbitrary: m c w)
  case Nil
  then show ?case by simp
next
  case (Cons f fs)
  show ?case
  proof (cases "serialize ca (f\<lparr>fn_num_data_parts := of_nat k\<rparr>)")
    case None
    with Cons.prems show ?thesis by auto
  next
    case (Some bytes)
    let ?m = "setData bytes m"
    obtain q c1 w1 where send: "conn_send api dbg ?m (c, w) = (q, (c1, w1))" by (metis prod.exhaust)
    have wf: "message_wf (MAX_GROUP_NAME api) ?m" "\<forall>g \<in> set (mgroups ?m). nul_free g"
      and same: "mgroups ?m = mgroups m" "mqos ?m = mqos m"
      using Cons.prems(2,3) by (simp_all add: setData_def)
    have "map c_str (mgroups m) = mgroups m"
      using Cons.prems(3) by (intro map_c_str_nul_free) blast
    then have "packet_ok api (set (mgroups m)) (mqos m) (packet_of api ?m)"
      if "mgroups m \<noteq> []" "length (mgroups m) \<le> SPREAD_MAX_GROUPS"
      using that Cons.prems(2,3) assms(4) message_wf_less [OF Cons.prems(2) assms(4)]
      by (simp add: packet_ok_def packet_of_def message_wf_def same)
    with conn_send_packets [OF send] obtain new1 where new1: "sent w1 = new1 @ sent w"
      "\<forall>p \<in> set new1. packet_ok api (set (mgroups m)) (mqos m) p"
      unfolding same by (metis append_Cons append_Nil empty_iff list.set(1) set_ConsD)
    show ?thesis
    proof (cases q)
      case (Inl ex)
      with Cons.prems(1) Some send new1 show ?thesis by auto
    next
      case (Inr x)
      with Cons.prems(1) Some send have "send_fragments ca api dbg k fs ?m (c1, w1) = (r, (c', w'))"
        by simp
      from Cons.IH [OF this wf] obtain new2 where "sent w' = new2 @ sent w1"
        "\<forall>p \<in> set new2. packet_ok api (set (mgroups m)) (mqos m) p"
        unfolding same by blast
      with new1 show ?thesis by (intro exI [of _ "new2 @ new1"]) auto
    qed
  qed
qed

section \<open>Packets of one event\<close>

lemma bus_handleOutgoing_packets:
  assumes "bus_handleOutgoing ca api dbg da so n (b, w, z) = (r, (b', w', z'))"
    and "\<forall>g \<in> set (on_groups n). nul_free g" and "0 < MAX_GROUP_NAME api"
  shows "\<exists>new. sent w' = new @ sent w \<and> (\<forall>p \<in> set new. packet_ok api (set (on_groups n)) (on_qos n) p)"
proof -
  obtain q b1 w1 where send: "sendNotification ca api dbg n (b, w) = (q, (b1, w1))"
    by (metis prod.exhaust)
  have w1: "w' = w1"
    using assms(1) send by (auto simp: bus_handleOutgoing_def split: sum.splits prod.splits)
  obtain a m where m: "addGroups (MAX_GROUP_NAME api) (on_groups n) (setQOS (on_qos n) message_new) = (a, m)"
    by (metis surj_pair)
  show ?thesis
  proof (cases a)
    case (Inl ex)
    with m send w1 show ?thesis by (auto simp: sendNotification_def)
  next
    case (Inr x)
    obtain q2 c2 w2 where fr: "send_fragments ca api dbg (length (on_fragments n)) (on_fragments n) m
        (connection b, w) = (q2, (c2, w2))" by (metis prod.exhaust)
    have "w1 = w2" using m Inr send fr by (auto simp: sendNotification_def)
    moreover have "set (mgroups m) = set (on_groups n)" "mqos m = on_qos n"
      using addGroups_Inr [of "MAX_GROUP_NAME api" "on_groups n" _ x m] m Inr
      by (auto simp: message_accessors message_constructors)
    moreover have "message_wf (MAX_GROUP_NAME api) (setQOS (on_qos n) message_new)"
      by (simp add: setQOS_def)
    then have "message_wf (MAX_GROUP_NAME api) m" by (rule addGroups_wf [OF _ m])
    ultimately show ?thesis
      using send_fragments_packets [OF fr _ _ assms(3)] assms(2) w1 by auto
  qed
qed

text \<open>C14 Whatever becomes of an event that an \<open>OutConnector\<close> handles (it is sent, or an exception of a
  converter, the codec or the library ends the call half way), every packet that has left the process
  is well formed for the library: it goes to the groups of the event's scope and its super-scopes,
  each a proper C string that fits \<open>MAX_GROUP_NAME\<close>, without duplicates and in order, at least one and
  at most 100 of them, with the service of the connector's quality of service and \<open>SELF_DISCARD\<close>; and
  the group cache stays correct.\<close>

theorem packets_well_typed:
  assumes "oc_handle sa (MAX_GROUP_NAME api) ca ea dbg (bus_handleOutgoing ca api dbg da so) now event
      (oc, (b, w, z)) = (r, (e, oc', (b', w', z')))"
    and "cache_inv sa (MAX_GROUP_NAME api) (oc_cache oc)" and "digest_printable sa"
    and "0 < MAX_GROUP_NAME api"
  shows "\<exists>new. sent w' = new @ sent w
      \<and> (\<forall>p \<in> set new. packet_ok api
          (scopeToGroup sa (MAX_GROUP_NAME api) ` set (superScopes sa (getScope ea e))) (messageQOS oc) p)
    \<and> cache_inv sa (MAX_GROUP_NAME api) (oc_cache oc')"
proof -
  let ?g = "MAX_GROUP_NAME api"
  have e: "e = setSendTime ea now event" using assms(1)
    by (auto simp: oc_handle_def Let_def split: prod.splits sum.splits)
  obtain groups cache' where groups: "scopeToGroups sa ?g (getScope ea e) (oc_cache oc) = (groups, cache')"
    by (metis surj_pair)
  note step = scopeToGroups_step [OF assms(2) groups]
  have oc': "oc_cache oc' = cache'" using assms(1) groups e
    by (auto simp: oc_handle_def Let_def split: prod.splits sum.splits)
  have set: "set groups = scopeToGroup sa ?g ` set (superScopes sa (getScope ea e))"
    using step by (simp add: groups_of_def)
  have "w' = w \<or> (\<exists>schema wire fragments q. bus_handleOutgoing ca api dbg da so
      \<lparr>nf_scope = getScope ea e, nf_wireSchema = schema, nf_serializedPayload = wire,
       nf_notification = fn_notification (fragments ! 0), on_qos = messageQOS oc,
       on_groups = groups, on_fragments = fragments\<rparr> (b, w, z) = (q, (b', w', z')))"
    using assms(1) groups e by (auto simp: oc_handle_def Let_def split: prod.splits sum.splits)
  then show ?thesis
  proof
    assume "w' = w"
    with step oc' show ?thesis by simp
  next
    assume "\<exists>schema wire fragments q. bus_handleOutgoing ca api dbg da so
      \<lparr>nf_scope = getScope ea e, nf_wireSchema = schema, nf_serializedPayload = wire,
       nf_notification = fn_notification (fragments ! 0), on_qos = messageQOS oc,
       on_groups = groups, on_fragments = fragments\<rparr> (b, w, z) = (q, (b', w', z'))"
    then obtain schema wire fragments q where handled: "bus_handleOutgoing ca api dbg da so
      \<lparr>nf_scope = getScope ea e, nf_wireSchema = schema, nf_serializedPayload = wire,
       nf_notification = fn_notification (fragments ! 0), on_qos = messageQOS oc,
       on_groups = groups, on_fragments = fragments\<rparr> (b, w, z) = (q, (b', w', z'))" by blast
    have "\<forall>g \<in> set groups. nul_free g"
      unfolding set using scopeToGroup_nul_free [OF assms(3)] by blast
    with bus_handleOutgoing_packets [OF handled _ assms(4)] step oc' set show ?thesis by simp
  qed
qed

theorem packets_well_typed_witness:
  "\<exists>oc' w' new. oc_handle sample_scopes 32 sample_codec sample_events True
      (bus_handleOutgoing sample_codec sample_api True quiet_dispatcher quiet_sinks) 0 (3, ''payload of'')
      (oc_new 13, (quiet_bus, [], ())) = (Inr (), ((3, ''payload of''), oc', (quiet_bus, w', ())))
    \<and> sent w' = new @ sent [] \<and> length new = 2
    \<and> (\<forall>p \<in> set new. packet_ok sample_api {''/a'', ''/''} FIFO p)"
proof -
  obtain oc' w' where handle: "oc_handle sample_scopes 32 sample_codec sample_events True
      (bus_handleOutgoing sample_codec sample_api True quiet_dispatcher quiet_sinks) 0 sample_event_sent
      (oc_new 13, (quiet_bus, [], ())) = (Inr (), (sample_event_sent, oc', (quiet_bus, w', ())))"
    and sent: "sent w' = sample_packets @ sent []"
    using sample_sent by blast
  have maxg: "MAX_GROUP_NAME sample_api = 32" by (simp add: sample_api_def)
  have groups: "scopeToGroup sample_scopes 32 ` set (superScopes sample_scopes ''/a'') = {''/a'', ''/''}"
    by (simp add: scopeToGroup_def sample_scopes_def)
  have "cache_inv sample_scopes (MAX_GROUP_NAME sample_api) (oc_cache (oc_new 13))" by (simp add: oc_new_def)
  from packets_well_typed [OF handle [folded maxg] this sample_scopes_printable]
  have "\<exists>new. sent w' = new @ sent [] \<and> (\<forall>p \<in> set new. packet_ok sample_api {''/a'', ''/''} FIFO p)"
    by (simp add: maxg sample_event_facts groups oc_new_def)
  then have "\<forall>p \<in> set sample_packets. packet_ok sample_api {''/a'', ''/''} FIFO p" using sent by auto
  then show ?thesis using handle sent by (auto simp: sample_packets_def)
qed

section \<open>Deep scopes\<close>

text \<open>C37 A scope with more than 100 components overflows the stack of the sender: its groups and those
  of its super-scopes are all put into the message, \<open>send\<close> copies them into an array of 100 rows, and
  the first fragment of any event on that scope is undefined behaviour, in debug and release builds;
  nothing has been sent before it.\<close>

theorem deep_scope_overflows:
  assumes "connected (connection b)" and "0 < MAX_GROUP_NAME api"
    and "cache_inv sa (MAX_GROUP_NAME api) (oc_cache oc)"
    and "e = setSendTime ea now event" and "to_wire ea e = Inr (schema, wire)"
    and "make_fragments ca ea dbg (maxFragmentSize oc) (minDataSpace oc) e schema wire 0 0 [] = Inr (f # frs)"
    and "serialize ca (f\<lparr>fn_num_data_parts := of_nat (length (f # frs))\<rparr>) = Some bytes"
    and "SPREAD_MAX_GROUPS < card (set (groups_of sa (MAX_GROUP_NAME api) (getScope ea e)))"
  shows "\<exists>oc'. oc_handle sa (MAX_GROUP_NAME api) ca ea dbg (bus_handleOutgoing ca api dbg da so) now event
      (oc, (b, w, z)) = (Inl UndefinedBehaviour, (e, oc', (b, w, z)))"
proof -
  let ?g = "MAX_GROUP_NAME api"
  let ?groups = "groups_of sa ?g (getScope ea e)"
  obtain cache' where groups: "scopeToGroups sa ?g (getScope ea e) (oc_cache oc) = (?groups, cache')"
    using scopeToGroups_step [OF assms(3)] by (metis surj_pair)
  let ?m0 = "setQOS (messageQOS oc) message_new"
  have "\<exists>m. addGroups ?g ?groups ?m0 = (Inr (), m) \<and> set (mgroups m) = set (mgroups ?m0) \<union> set ?groups
      \<and> mtype m = mtype ?m0 \<and> mqos m = mqos ?m0 \<and> mdata m = mdata ?m0"
    by (rule addGroups_ok) (auto simp: groups_of_def scopeToGroup_def)
  then obtain m where m: "addGroups ?g ?groups ?m0 = (Inr (), m)" "set (mgroups m) = set ?groups"
    by (auto simp: message_accessors message_constructors)
  have wf: "message_wf ?g m" by (rule addGroups_wf [OF _ m(1)]) (simp add: setQOS_def)
  then have "length (mgroups m) = card (set ?groups)"
    by (simp add: message_wf_def m(2) [symmetric] distinct_card)
  then have many: "SPREAD_MAX_GROUPS < length (mgroups (setData bytes m))"
    using assms(8) by (simp add: setData_def)
  have "message_wf ?g (setData bytes m)" using wf by (simp add: setData_def)
  note overflow = send_overflows_group_array [OF assms(1,2) this many, of dbg w]
  let ?n = "\<lparr>nf_scope = getScope ea e, nf_wireSchema = schema, nf_serializedPayload = wire,
      nf_notification = fn_notification ((f # frs) ! 0), on_qos = messageQOS oc, on_groups = ?groups,
      on_fragments = f # frs\<rparr>"
  have "send_fragments ca api dbg (length (f # frs)) (f # frs) m (connection b, w)
      = (Inl UndefinedBehaviour, (connection b, w))"
    using assms(7) overflow by simp
  then have "sendNotification ca api dbg ?n (b, w) = (Inl UndefinedBehaviour, (b, w))"
    using m(1) by (simp add: sendNotification_def)
  then have "bus_handleOutgoing ca api dbg da so ?n (b, w, z) = (Inl UndefinedBehaviour, (b, w, z))"
    by (simp add: bus_handleOutgoing_def)
  then show ?thesis
    using groups assms(5,6) by (simp add: oc_handle_def assms(4) [symmetric])
qed

definition many_groups :: "string list" where
  "many_groups = map (\<lambda>n. [char_of (n + 100)]) [0..<101]"

lemma many_groups_wf:
  "message_wf 32 \<lparr>mtype = OTHER, mqos = FIFO, mdata = [], mgroups = many_groups\<rparr>"
proof -
  have less: "[char_of (i + 100 :: nat) :: char] < [char_of (j + 100)]" if "i < j" "j < 101" for i j :: nat
    using that by (simp add: less_char_def)
  have "sorted_wrt (<) many_groups"
    unfolding many_groups_def sorted_wrt_map
    by (rule sorted_wrt_mono_rel [OF _ sorted_wrt_upt], rule less) simp_all
  then have "sorted many_groups \<and> distinct many_groups"
    by (simp add: strict_sorted_iff)
  then show ?thesis by (auto simp: message_wf_def many_groups_def)
qed

definition deep_scopes :: "string scope_api" where
  "deep_scopes = sample_scopes\<lparr>superScopes := (\<lambda>s. many_groups)\<rparr>"

lemma deep_groups: "groups_of deep_scopes 32 s = many_groups"
proof -
  have char: "char_of (g + 100 :: nat) \<noteq> CHR 0x00" if "g < 101" for g
  proof
    assume "char_of (g + 100) = CHR 0x00"
    then have "(of_char (char_of (g + 100) :: char) :: nat) = of_char CHR 0x00" by (rule arg_cong)
    with that show False by simp
  qed
  have "\<forall>g \<in> set many_groups. filter (\<lambda>c. c \<noteq> CHR 0x00) g = g \<and> length g \<le> 31"
    using char by (auto simp: many_groups_def)
  then show ?thesis
    by (auto simp: groups_of_def deep_scopes_def sample_scopes_def scopeToGroup_def intro!: map_idI)
qed

theorem deep_scope_overflows_witness:
  "\<exists>oc'. oc_handle deep_scopes 32 sample_codec sample_events False
      (bus_handleOutgoing sample_codec sample_api False quiet_dispatcher quiet_sinks) 0 (3, ''payload of'')
      (oc_new 13, (quiet_bus, [], ()))
    = (Inl UndefinedBehaviour, ((3, ''payload of''), oc', (quiet_bus, [], ())))"
proof -
  have maxg: "MAX_GROUP_NAME sample_api = 32" by (simp add: sample_api_def)
  have "distinct many_groups" using many_groups_wf by (simp add: message_wf_def)
  then have "card (set (groups_of deep_scopes 32 s)) = 101" for s
    by (simp add: deep_groups distinct_card) (simp add: many_groups_def)
  then have many: "SPREAD_MAX_GROUPS < card (set (groups_of deep_scopes (MAX_GROUP_NAME sample_api)
      (getScope sample_events (3, ''payload of''))))"
    by (simp add: maxg SPREAD_MAX_GROUPS_def)
  have frs: "make_fragments sample_codec sample_events False (maxFragmentSize (oc_new 13 :: string out_connector))
      (minDataSpace (oc_new 13 :: string out_connector)) (3, ''payload of'') ''utf-8'' ''payload of'' 0 0 []
    = Inr [sent_part 0 1, sent_part 1 1]"
    using sample_fragments by (simp add: oc_new_def)
  have conn: "connected (connection quiet_bus)" by (simp add: quiet_bus_def open_conn_def)
  have pos: "0 < MAX_GROUP_NAME sample_api" by (simp add: maxg)
  have inv: "cache_inv deep_scopes (MAX_GROUP_NAME sample_api) (oc_cache (oc_new 13))"
    by (simp add: oc_new_def)
  have stamped: "(3, ''payload of'') = setSendTime sample_events 0 (3, ''payload of'')"
    by (simp add: sample_events_def)
  have ser: "serialize sample_codec ((sent_part 0 1)\<lparr>fn_num_data_parts := n\<rparr>)
      = Some (put_fragment ((sent_part 0 1)\<lparr>fn_num_data_parts := n\<rparr>))" for n
    by (simp add: sample_codec_def)
  show ?thesis
    using deep_scope_overflows [OF conn pos inv stamped sample_event_facts(1) frs ser many]
    by (simp only: maxg)
qed

end
