(* ===== verification/PublishProgress.thy ===== *)
theory PublishProgress
  imports LocalDelivery Packets
begin

text \<open>
  Publishing succeeds: as long as the library takes what it is given, no call of
  \<open>OutConnector::handle\<close> for an event that fits ends with an exception, a failed assertion or undefined
  behaviour.
\<close>

section \<open>A library that takes every message\<close>

definition delivering :: "spread_api \<Rightarrow> bool" where
  "delivering api \<longleftrightarrow> (\<forall>w mb s g d. 0 \<le> SP_multicast api w mb s g d)
     \<and> (\<forall>w mb s gs d. 0 \<le> SP_multigroup_multicast api w mb s gs d)"

lemma conn_send_ok:
  assumes "delivering api" and "connected c" and "0 < MAX_GROUP_NAME api"
    and "message_wf (MAX_GROUP_NAME api) m" and "mgroups m \<noteq> []" and "length (mgroups m) \<le> SPREAD_MAX_GROUPS"
  shows "\<exists>w'. conn_send api dbg m (c, w) = (Inr (), (c, w'))"
proof (cases "length (mgroups m) = 1")
  case True
  then obtain g where g: "mgroups m = [g]" by (auto simp: length_Suc_conv)
  then have "length g < MAX_GROUP_NAME api" using message_wf_less [OF assms(4,3)] by simp
  moreover have "\<not> SP_multicast api w mb s g' d < 0" for w mb s g' d
    using assms(1) by (simp add: delivering_def not_less)
  ultimately show ?thesis using g assms(2)
    by (simp add: conn_send_def send_result_def message_accessors Let_def)
next
  case False
  have "fill_groupNames (MAX_GROUP_NAME api) dbg 0 (mgroups m) = Inr (map c_str (mgroups m))"
    using assms(6) message_wf_less [OF assms(4,3)] by (intro fill_groupNames_ok) simp_all
  moreover have "\<not> SP_multigroup_multicast api w mb s gs d < 0" for w mb s gs d
    using assms(1) by (simp add: delivering_def not_less)
  ultimately show ?thesis using False assms(2,5)
    by (simp add: conn_send_def send_result_def message_accessors Let_def)
qed

lemma send_fragments_ok:
  assumes "delivering api" and "connected c" and "0 < MAX_GROUP_NAME api" and "\<And>f. serialize ca f \<noteq> None"
    and "message_wf (MAX_GROUP_NAME api) m" and "mgroups m \<noteq> []" and "length (mgroups m) \<le> SPREAD_MAX_GROUPS"
  shows "\<exists>w'. send_fragments ca api dbg k fs m (c, w) = (Inr (), (c, w'))"
  using assms(5-7)
proof (induction fs arbitrary: m w)
  case (Cons f fs)
  obtain bytes where bytes: "serialize ca (f\<lparr>fn_num_data_parts := of_nat k\<rparr>) = Some bytes"
    using assms(4) by blast
  let ?m = "setData bytes m"
  have wf: "message_wf (MAX_GROUP_NAME api) ?m" "mgroups ?m \<noteq> []" "length (mgroups ?m) \<le> SPREAD_MAX_GROUPS"
    using Cons.prems by (simp_all add: setData_def)
  obtain w1 where "conn_send api dbg ?m (c, w) = (Inr (), (c, w1))"
    using conn_send_ok [OF assms(1-3) wf] by blast
  moreover obtain w' where "send_fragments ca api dbg k fs ?m (c, w1) = (Inr (), (c, w'))"
    using Cons.IH [OF wf] by blast
  ultimately show ?case using bytes by simp
qed simp

lemma sendNotification_ok:
  assumes "delivering api" and "connected (connection b)" and "0 < MAX_GROUP_NAME api"
    and "\<And>f. serialize ca f \<noteq> None"
    and "\<forall>g \<in> set (on_groups n). length g \<le> MAX_GROUP_NAME api - 1" and "on_groups n \<noteq> []"
    and "card (set (on_groups n)) \<le> SPREAD_MAX_GROUPS"
  shows "\<exists>w'. sendNotification ca api dbg n (b, w) = (Inr (), (b, w'))"
proof -
  let ?m0 = "setQOS (on_qos n) message_new"
  obtain m where m: "addGroups (MAX_GROUP_NAME api) (on_groups n) ?m0 = (Inr (), m)"
    and groups: "set (mgroups m) = set (on_groups n)"
    using addGroups_ok [of "on_groups n" "MAX_GROUP_NAME api" ?m0] assms(5)
    by (auto simp: message_accessors message_constructors)
  have wf: "message_wf (MAX_GROUP_NAME api) m" by (rule addGroups_wf [OF _ m]) (simp add: setQOS_def)
  then have "length (mgroups m) = card (set (on_groups n))"
    by (simp add: message_wf_def groups [symmetric] distinct_card)
  moreover have "mgroups m \<noteq> []" using groups assms(6) by auto
  ultimately obtain w' where "send_fragments ca api dbg (length (on_fragments n)) (on_fragments n) m (connection b, w)
      = (Inr (), (connection b, w'))"
    using send_fragments_ok [OF assms(1-4) wf] assms(7) by fastforce
  then show ?thesis using m by (simp add: sendNotification_def)
qed

section \<open>Publishing returns\<close>

text \<open>The scope of the event has at most 100 groups, one at least.\<close>

definition groups_fit :: "'sc scope_api \<Rightarrow> nat \<Rightarrow> 'sc \<Rightarrow> bool" where
  "groups_fit sa maxg scope \<longleftrightarrow> superScopes sa scope \<noteq> []
     \<and> card (set (groups_of sa maxg scope)) \<le> SPREAD_MAX_GROUPS"

lemma oc_handle_ok:
  assumes "delivering api" and "connected (connection b)" and "0 < MAX_GROUP_NAME api"
    and "\<And>f. serialize ca f \<noteq> None" and "connectors_ok ie z"
    and "\<And>al sc. distinct (disp_sinks da al sc (scopeDispatcher b))"
    and "cache_inv sa (MAX_GROUP_NAME api) (oc_cache oc)" and "e = setSendTime ea now event"
    and "publishable sa ca ea (maxFragmentSize oc) (minDataSpace oc) e"
    and "groups_fit sa (MAX_GROUP_NAME api) (getScope ea e)"
  shows "\<exists>oc' w' z'. oc_handle sa (MAX_GROUP_NAME api) ca ea dbg
      (bus_handleOutgoing ca api dbg da (connector_sinks ie time)) now event (oc, (b, w, z))
    = (Inr (), (e, oc', (b, w', z')))
    \<and> cache_inv sa (MAX_GROUP_NAME api) (oc_cache oc') \<and> maxFragmentSize oc' = maxFragmentSize oc
    \<and> minDataSpace oc' = minDataSpace oc \<and> connectors_ok ie z'"
proof -
  let ?g = "MAX_GROUP_NAME api"
  obtain schema wire where wire: "to_wire ea e = Inr (schema, wire)"
    and fit: "headers_fit ca ea (maxFragmentSize oc) (minDataSpace oc) e schema"
      "length wire + unat (maxFragmentSize oc) < 2 ^ 32"
    using assms(9) by (auto simp: publishable_def split: sum.splits)
  obtain groups cache' where groups: "scopeToGroups sa ?g (getScope ea e) (oc_cache oc) = (groups, cache')"
    by (metis surj_pair)
  note step = scopeToGroups_step [OF assms(7) groups]
  obtain fragments where frs: "make_fragments ca ea dbg (maxFragmentSize oc) (minDataSpace oc) e schema wire 0 0 []
      = Inr fragments"
    using make_fragments_result [OF fit, of dbg] by metis
  let ?n = "\<lparr>nf_scope = getScope ea e, nf_wireSchema = schema, nf_serializedPayload = wire,
      nf_notification = fn_notification (fragments ! 0), on_qos = messageQOS oc,
      on_groups = groups, on_fragments = fragments\<rparr>"
  have g: "\<forall>g \<in> set (on_groups ?n). length g \<le> ?g - 1" "on_groups ?n \<noteq> []"
    "card (set (on_groups ?n)) \<le> SPREAD_MAX_GROUPS"
    using step assms(10) by (auto simp: groups_of_def groups_fit_def scopeToGroup_def)
  obtain w' where send: "sendNotification ca api dbg ?n (b, w) = (Inr (), (b, w'))"
    using sendNotification_ok [OF assms(1-4) g] by blast
  have scope: "nf_scope (as_notification ?n) = getScope ea e" by (simp add: transport_notification.defs)
  note sinks = map_sinks_addressed [OF assms(5,6), of time "as_notification ?n", unfolded scope]
  let ?z = "\<lambda>k. take_all ie time (addressed da (scopeDispatcher b) z k [as_notification ?n]) (z k)"
  have handled: "bus_handleOutgoing ca api dbg da (connector_sinks ie time) ?n (b, w, z) = (Inr (), (b, w', ?z))"
    using send sinks by (simp add: bus_handleOutgoing_def)
  have "connectors_ok ie ?z" by (rule connectors_ok_take [OF assms(5), of _ time]) blast
  moreover have "oc_handle sa ?g ca ea dbg (bus_handleOutgoing ca api dbg da (connector_sinks ie time)) now event
      (oc, (b, w, z)) = (Inr (), (e, oc\<lparr>oc_cache := cache'\<rparr>, (b, w', ?z)))"
    using groups wire frs handled by (simp add: oc_handle_def assms(8) [symmetric])
  ultimately show ?thesis using step
    by (intro exI [of _ "oc\<lparr>oc_cache := cache'\<rparr>"] exI [of _ w'] exI [of _ ?z]) simp
qed

text \<open>C7 Publishing succeeds: on an active bus whose library takes every message, a sequence of events
  whose headers leave room for data and whose scopes have at most 100 groups is published without an
  exception, a failed assertion or undefined behaviour, in debug and release builds: every call of
  \<open>OutConnector::handle\<close> returns, whatever the handlers of local connectors throw, the connection and
  the memberships of the bus are as before, and the group cache is correct afterwards.\<close>

theorem publishing_succeeds:
  assumes "delivering api" and "connected (connection b)" and "0 < MAX_GROUP_NAME api"
    and "\<forall>f. serialize ca f \<noteq> None" and "connectors_ok ie z"
    and "\<And>al sc. distinct (disp_sinks da al sc (scopeDispatcher b))"
    and "cache_inv sa (MAX_GROUP_NAME api) (oc_cache oc)"
    and "es = map (\<lambda>(now, event). setSendTime ea now event) evs"
    and "\<forall>e \<in> set es. publishable sa ca ea (maxFragmentSize oc) (minDataSpace oc) e
      \<and> groups_fit sa (MAX_GROUP_NAME api) (getScope ea e)"
  shows "\<exists>oc' w' z'. publish_all sa (MAX_GROUP_NAME api) ca ea dbg
      (bus_handleOutgoing ca api dbg da (connector_sinks ie time)) evs (oc, (b, w, z))
    = (Inr (), (es, oc', (b, w', z')))
    \<and> cache_inv sa (MAX_GROUP_NAME api) (oc_cache oc')"
  using assms(5,7-9)
proof (induction evs arbitrary: oc w z es)
  case Nil
  then show ?case by simp
next
  case (Cons ev evs)
  obtain now event where ev: "ev = (now, event)" by (cases ev)
  let ?e = "setSendTime ea now event"
  let ?es = "map (\<lambda>(now, event). setSendTime ea now event) evs"
  have es: "es = ?e # ?es" using Cons.prems(3) ev by simp
  have codec: "\<And>f. serialize ca f \<noteq> None" using assms(4) by blast
  have fit: "publishable sa ca ea (maxFragmentSize oc) (minDataSpace oc) ?e"
    "groups_fit sa (MAX_GROUP_NAME api) (getScope ea ?e)" using Cons.prems(4) es by simp_all
  obtain oc1 w1 z1 where one: "oc_handle sa (MAX_GROUP_NAME api) ca ea dbg
      (bus_handleOutgoing ca api dbg da (connector_sinks ie time)) now event (oc, (b, w, z))
      = (Inr (), (?e, oc1, (b, w1, z1)))"
    and oc1: "cache_inv sa (MAX_GROUP_NAME api) (oc_cache oc1)" "maxFragmentSize oc1 = maxFragmentSize oc"
      "minDataSpace oc1 = minDataSpace oc" and z1: "connectors_ok ie z1"
    using oc_handle_ok [OF assms(1-3) codec Cons.prems(1) assms(6) Cons.prems(2) refl fit] by blast
  have "\<forall>e \<in> set ?es. publishable sa ca ea (maxFragmentSize oc1) (minDataSpace oc1) e
      \<and> groups_fit sa (MAX_GROUP_NAME api) (getScope ea e)"
    using Cons.prems(4) unfolding es oc1 by simp
  then obtain oc' w' z' where "publish_all sa (MAX_GROUP_NAME api) ca ea dbg
      (bus_handleOutgoing ca api dbg da (connector_sinks ie time)) evs (oc1, (b, w1, z1)) = (Inr (), (?es, oc', (b, w', z')))"
    "cache_inv sa (MAX_GROUP_NAME api) (oc_cache oc')"
    using Cons.IH [OF z1 oc1(1) refl] by blast
  with one show ?case unfolding es ev by (intro exI [of _ oc'] exI [of _ w'] exI [of _ z']) simp
qed

theorem publishing_succeeds_witness:
  "\<exists>oc' w' z'. publish_all sample_scopes (MAX_GROUP_NAME pubsub_api) sample_codec scoped_events True
      (bus_handleOutgoing sample_codec pubsub_api True scope_dispatcher (connector_sinks sample_in_events 0))
      (map (Pair 0) published_events) (oc_new 13, (local_bus, [], listening_connectors))
    = (Inr (), (published_events, oc', (local_bus, w', z')))
    \<and> cache_inv sample_scopes (MAX_GROUP_NAME pubsub_api) (oc_cache oc')"
proof -
  have api: "delivering pubsub_api" "0 < MAX_GROUP_NAME pubsub_api"
    by (simp_all add: delivering_def pubsub_api_def sample_api_def)
  have bus: "connected (connection local_bus)" by (simp add: local_bus_def open_conn_def)
  have codec: "\<forall>f. serialize sample_codec f \<noteq> None" by (simp add: sample_codec_def)
  have once: "distinct (disp_sinks scope_dispatcher al sc (scopeDispatcher local_bus))" for al sc
    by (simp add: scope_dispatcher_def)
  have cache: "cache_inv sample_scopes (MAX_GROUP_NAME pubsub_api) (oc_cache (oc_new 13))"
    by (simp add: oc_new_def)
  have es: "published_events = map (\<lambda>(now, event). setSendTime scoped_events now event) (map (Pair 0) published_events)"
    by (simp add: scoped_events_def)
  have "groups_fit sample_scopes maxg s" for maxg s
    by (simp add: groups_fit_def groups_of_def sample_scopes_def SPREAD_MAX_GROUPS_def card_insert_if)
  then have fit: "\<forall>e \<in> set published_events. publishable sample_scopes sample_codec scoped_events
      (maxFragmentSize (oc_new 13 :: string out_connector)) (minDataSpace (oc_new 13 :: string out_connector)) e
      \<and> groups_fit sample_scopes (MAX_GROUP_NAME pubsub_api) (getScope scoped_events e)"
    using scoped_events_facts(2) by (simp add: oc_new_def)
  show ?thesis
    by (rule publishing_succeeds [OF api(1) bus api(2) codec listening_ok once cache es fit])
qed

end
