(* ===== verification/Pruning.thy ===== *)
theory Pruning
  imports PoolSafety
begin

text \<open>
  The pruning of old assemblies: which entries one execution of the task removes, what a clock that
  is set back does to the age, and the life of the task object behind \<open>setPruning\<close>.
\<close>

section \<open>Age\<close>

text \<open>One million microseconds are a second; ages below \<open>2 ^ 32\<close> seconds fit the result.\<close>

lemma age_nonneg:
  assumes "birthTime a \<le> now" and "(now - birthTime a) div 1000000 < 2 ^ 32"
  shows "uint (age now a) = (now - birthTime a) div 1000000"
proof -
  have "0 \<le> (now - birthTime a) div 1000000"
    using assms(1) by (simp add: pos_imp_zdiv_nonneg_iff)
  with assms show ?thesis
    by (simp add: age_def cpp_quot_nonneg uint_word_of_int_eq take_bit_int_eq_self_iff)
qed

section \<open>What pruning removes\<close>

lemma prune_from_entry:
  assumes "distinct_keys pl" and "map_of pl key = Some a"
  shows "\<exists>j. map_of (prune_from clock i m pl) key
    = (if age (clock j) a > m then None else Some a)"
  using assms
proof (induction clock i m pl rule: prune_from.induct)
  case (1 clock i m)
  then show ?case by simp
next
  case (2 clock i m k b rest)
  show ?case
  proof (cases "k = key")
    case True
    then have "map_of (prune_from clock (Suc i) m rest) key = None"
      using 2(3) prune_from_subset [of clock "Suc i" m rest]
      by (fastforce simp: map_of_eq_None_iff)
    then show ?thesis using True 2(4) by (intro exI [of _ i]) auto
  next
    case False
    with 2 show ?thesis by (cases "age (clock i) b > m") auto
  qed
qed

text \<open>Pruning is exact up to the time one execution takes. When the task of a pool runs between the
  instants \<open>t0\<close> and \<open>t1\<close>, an entry that is at most \<open>maxAge\<close> seconds old at \<open>t1\<close> stays as it is,
  and an entry that is more than \<open>maxAge\<close> seconds old at \<open>t0\<close> is removed.\<close>

lemma pruning_removes_old_entries:
  assumes "pool_reachable dbg N p" and "pruningTask p = Some t" and "\<not> cancelled t"
    and "map_of (pool p) key = Some a" and "birthTime a \<le> t0"
    and "\<forall>i. t0 \<le> clock i \<and> clock i \<le> t1" and "(t1 - birthTime a) div 1000000 < 2 ^ 32"
  shows "((t1 - birthTime a) div 1000000 \<le> uint (maxAge t)
        \<longrightarrow> map_of (pool (prune_tick clock p)) key = Some a)
    \<and> ((t0 - birthTime a) div 1000000 > uint (maxAge t)
        \<longrightarrow> map_of (pool (prune_tick clock p)) key = None)"
proof -
  have "distinct_keys (pool p)" using pool_reachable_inv [OF assms(1)] by (simp add: pool_inv_def)
  then obtain j where j: "map_of (prune_from clock 0 (maxAge t) (pool p)) key
      = (if age (clock j) a > maxAge t then None else Some a)"
    using prune_from_entry assms(4) by blast
  have low: "(t0 - birthTime a) div 1000000 \<le> (clock j - birthTime a) div 1000000"
    and high: "(clock j - birthTime a) div 1000000 \<le> (t1 - birthTime a) div 1000000"
    using assms(6) by (simp_all add: zdiv_mono1)
  have "birthTime a \<le> clock j" using assms(5,6) order.trans by blast
  then have "uint (age (clock j) a) = (clock j - birthTime a) div 1000000"
    using assms(7) high by (intro age_nonneg) linarith+
  then have "age (clock j) a > maxAge t \<longleftrightarrow> (clock j - birthTime a) div 1000000 > uint (maxAge t)"
    by (simp add: word_less_alt)
  then show ?thesis using j low high assms(2,3) by (auto simp: prune_tick_def)
qed

definition pruning_sample :: "unit assembly_pool" where
  "pruning_sample = pool_apply True (PAdd 0 (sample_part 1 0 ''ab'' 2))
     (pool_apply True (PSetPruning True) sample_pool)"

lemma pruning_sample_facts:
  "pool_reachable True (\<lambda>key. 2) pruning_sample"
  "pruningTask pruning_sample = Some \<lparr>maxAge = 20, intervalMs = 4000, cancelled = False\<rparr>"
  "map_of (pool pruning_sample) (pool_key (sample_part 1 0 ''ab'' 2))
    = Some \<lparr>receivedParts = 1, store = [Some (sample_part 1 0 ''ab'' 2), None], birthTime = 0\<rparr>"
proof -
  show "pool_reachable True (\<lambda>key. 2) pruning_sample"
    unfolding pruning_sample_def
    by (rule pool_reachable.step, rule pool_reachable.step,
        rule pool_reachable.created [OF sample_pool_new])
      (simp_all only: op_ok.simps sample_frag_ok)
qed (simp_all add: pruning_sample_def pool_add_def finish_assembly_def assembly_new_def
    assembly_add_def isComplete_def sample_pool_def replicate_two sample_part_def setPruning_def
    isPruning_def Let_def)

theorem pruning_removes_old_entries_witness:
  "map_of (pool (prune_tick (\<lambda>i. 21000000) pruning_sample)) (pool_key (sample_part 1 0 ''ab'' 2))
     = None
   \<and> map_of (pool (prune_tick (\<lambda>i. 20000000) pruning_sample)) (pool_key (sample_part 1 0 ''ab'' 2))
     \<noteq> None"
proof -
  note old = pruning_removes_old_entries
    [OF pruning_sample_facts(1,2) _ pruning_sample_facts(3), where ?t0.0 = x and ?t1.0 = x and clock = "\<lambda>i. x" for x]
  show ?thesis using old [of 21000000] old [of 20000000] by simp
qed

text \<open>The age is taken from the local wall clock: when the clock is set back by a second or more
  (and at most \<open>2 ^ 31\<close> seconds, about 68 years) after a fragment arrived, the negative age becomes
  an unsigned number of at least \<open>2 ^ 31\<close> seconds, and the next execution of the pruning task removes
  the entry, however young it is (for any maximal age below \<open>2 ^ 31\<close> seconds).\<close>

lemma clock_set_back_prunes:
  assumes "distinct_keys (pool p)" and "pruningTask p = Some t" and "\<not> cancelled t"
    and "map_of (pool p) key = Some a" and "uint (maxAge t) < 2 ^ 31"
    and "\<forall>i. clock i \<le> birthTime a - 1000000"
    and "\<forall>i. birthTime a - clock i \<le> 2 ^ 31 * 1000000"
  shows "map_of (pool (prune_tick clock p)) key = None"
proof -
  obtain j where j: "map_of (prune_from clock 0 (maxAge t) (pool p)) key
      = (if age (clock j) a > maxAge t then None else Some a)"
    using prune_from_entry assms(1,4) by blast
  define d where "d = birthTime a - clock j"
  define q where "q = d div 1000000"
  have d: "1000000 \<le> d" "d \<le> 2 ^ 31 * 1000000"
    using spec [OF assms(6), of j] spec [OF assms(7), of j] by (auto simp: d_def)
  have q: "1 \<le> q" "q \<le> 2 ^ 31"
    using d by (auto simp: q_def)
  have "cpp_quot (clock j - birthTime a) 1000000 = - q"
    using d by (simp add: cpp_quot_def q_def d_def)
  then have "uint (age (clock j) a) = (- q) mod 2 ^ 32"
    unfolding age_def by (simp only: uint_word_of_int_eq take_bit_eq_mod) simp
  also have "\<dots> = 2 ^ 32 - q" using q by (simp add: zmod_zminus1_eq_if)
  finally have "uint (maxAge t) < uint (age (clock j) a)" using q(2) assms(5) by simp
  then have "age (clock j) a > maxAge t" by (simp add: word_less_alt)
  then show ?thesis using j assms(2,3) by (simp add: prune_tick_def)
qed

theorem clock_set_back_prunes_witness:
  "map_of (pool (prune_tick (\<lambda>i. - 3600000000) pruning_sample))
     (pool_key (sample_part 1 0 ''ab'' 2)) = None"
proof -
  have d: "distinct_keys (pool pruning_sample)"
    using pool_reachable_inv [OF pruning_sample_facts(1)] by (simp add: pool_inv_def)
  show ?thesis
    by (rule clock_set_back_prunes [OF d pruning_sample_facts(2) _ pruning_sample_facts(3)]) simp_all
qed

section \<open>Switching pruning on and off\<close>

text \<open>Pruning can be switched off but never on again: \<open>setPruning(false)\<close> cancels the task and
  keeps the pointer, so \<open>isPruning\<close> stays true and no later \<open>setPruning(true)\<close> starts a new task;
  the pool never prunes any more.\<close>

lemma pruning_never_restarts:
  assumes "pruningTask p \<noteq> None"
  shows "isPruning (foldl (\<lambda>q b. setPruning b q) (setPruning False p) bs)
    \<and> prune_tick clock (foldl (\<lambda>q b. setPruning b q) (setPruning False p) bs)
        = foldl (\<lambda>q b. setPruning b q) (setPruning False p) bs"
proof -
  let ?off = "\<lambda>p. \<exists>t. pruningTask p = Some t \<and> cancelled t"
  have start: "?off (setPruning False p)" using assms by (auto simp: setPruning_def isPruning_def)
  have step: "?off (setPruning b q)" if "?off q" for b and q :: "'a assembly_pool"
    using that by (auto simp: setPruning_def isPruning_def)
  have "?off (foldl (\<lambda>q b. setPruning b q) q bs)" if "?off q" for q :: "'a assembly_pool"
    using that by (induction bs arbitrary: q) (simp_all add: step)
  from this [OF start] show ?thesis by (auto simp: isPruning_def prune_tick_def)
qed

lemma pruning_never_restarts_witness:
  "isPruning (setPruning True (setPruning False (setPruning True sample_pool)))
    \<and> prune_tick (\<lambda>i. 0) (setPruning True (setPruning False (setPruning True sample_pool)))
      = setPruning True (setPruning False (setPruning True sample_pool))"
proof -
  have "pruningTask (setPruning True sample_pool) \<noteq> None"
    by (simp add: setPruning_def isPruning_def sample_pool_def)
  from pruning_never_restarts [OF this, of "[True]" "\<lambda>i. 0"] show ?thesis by simp
qed

end
