(* ===== verification/PrunedReceiver.thy ===== *)
theory PrunedReceiver
  imports DeserializingHandler Pruning
begin

text \<open>
  The deserialising handler while the pruning task runs beside it: messages, executions of the task and
  \<open>setPruning\<close> in any order (the mutex of the pool makes each of them atomic). Pruning may lose an event
  that stays incomplete for too long. It never makes a wrong one, never delivers one twice, never
  throws, and it does not touch an event whose parts arrive within the maximal age. It bounds the pool by
  the messages of the recent past; without it every incomplete event stays.
\<close>

section \<open>Messages and the pruning task\<close>

datatype dh_op = Handle int spread_message | PruneTick "nat \<Rightarrow> int" | SwitchPruning bool

fun dh_ops ::
  "'m codec_api \<Rightarrow> 'sc scope_api \<Rightarrow> bool \<Rightarrow> dh_op list \<Rightarrow> 'm assembly_pool \<Rightarrow>
     (exn + ('sc, 'm) transport_notification option) list \<times> 'm assembly_pool" where
  "dh_ops ca sa dbg [] p = ([], p)"
| "dh_ops ca sa dbg (Handle now m # ops) p =
     (case handleMessage ca sa dbg now m p of (r, p1) \<Rightarrow>
        (case dh_ops ca sa dbg ops p1 of (rs, p2) \<Rightarrow> (r # rs, p2)))"
| "dh_ops ca sa dbg (PruneTick clock # ops) p = dh_ops ca sa dbg ops (prune_tick clock p)"
| "dh_ops ca sa dbg (SwitchPruning b # ops) p = dh_ops ca sa dbg ops (dh_setPruning b p)"

text \<open>The messages of a run, and the parts of the event of a key among them.\<close>

fun handled :: "dh_op list \<Rightarrow> (int \<times> spread_message) list" where
  "handled [] = []"
| "handled (Handle now m # ops) = (now, m) # handled ops"
| "handled (PruneTick clock # ops) = handled ops"
| "handled (SwitchPruning b # ops) = handled ops"

definition parts_for :: "'m codec_api \<Rightarrow> string \<Rightarrow> dh_op list \<Rightarrow> 'm fragmented list" where
  "parts_for ca key ops = map (\<lambda>x. the (message_fragment ca (snd x))) (messages_for ca key (handled ops))"

lemma parts_for_simps [simp]:
  "parts_for ca key [] = []"
  "message_fragment ca m = Some f \<Longrightarrow> pool_key f = key \<Longrightarrow>
     parts_for ca key (Handle now m # ops) = f # parts_for ca key ops"
  "\<not> carries_key ca key m \<Longrightarrow> parts_for ca key (Handle now m # ops) = parts_for ca key ops"
  "parts_for ca key (PruneTick clock # ops) = parts_for ca key ops"
  "parts_for ca key (SwitchPruning b # ops) = parts_for ca key ops"
  by (auto simp: parts_for_def carries_key_def)

text \<open>Without executions of the task the run is the one of the messages alone.\<close>

lemma dh_ops_messages: "dh_ops ca sa dbg (map (\<lambda>(now, m). Handle now m) ms) p = dh_run ca sa dbg ms p"
  by (induction ms arbitrary: p) auto

lemma dh_ops_length: "dh_ops ca sa dbg ops p = (rs, p') \<Longrightarrow> length rs = length (handled ops)"
  by (induction ca sa dbg ops p arbitrary: rs rule: dh_ops.induct) (auto split: prod.splits)

section \<open>The pool during a run\<close>

text \<open>What is needed of the pool: a map, and a task with the maximal age of the pool.\<close>

definition pool_ready :: "'m assembly_pool \<Rightarrow> bool" where
  "pool_ready p \<longleftrightarrow> distinct_keys (pool p) \<and> (\<forall>t. pruningTask p = Some t \<longrightarrow> maxAge t = pruningAgeS p)"

lemma pool_ready_new: "pool_new ageS interval = Inr p \<Longrightarrow> pool_ready p \<and> pool p = [] \<and> pruningAgeS p = ageS"
  by (auto simp: pool_new_def pool_ready_def split: if_splits)

lemma pool_ready_setPruning:
  "pool_ready p \<Longrightarrow> pool_ready (dh_setPruning b p) \<and> pool (dh_setPruning b p) = pool p
     \<and> pruningAgeS (dh_setPruning b p) = pruningAgeS p"
  by (auto simp: dh_setPruning_def pool_ready_def setPruning_def isPruning_def)

lemma pool_ready_tick:
  "pool_ready p \<Longrightarrow> pool_ready (prune_tick clock p) \<and> pruningAgeS (prune_tick clock p) = pruningAgeS p"
  by (auto simp: pool_ready_def prune_tick_def prune_from_distinct split: option.splits)

lemma pool_add_settings:
  "pruningTask (snd (pool_add dbg now f p)) = pruningTask p"
  "pruningAgeS (snd (pool_add dbg now f p)) = pruningAgeS p"
  by (auto simp: pool_add_def finish_assembly_def Let_def split: option.splits prod.splits sum.splits)

lemma handleMessage_pool:
  "snd (handleMessage ca sa dbg now m p) = p
    \<or> (\<exists>f. message_fragment ca m = Some f
        \<and> snd (handleMessage ca sa dbg now m p) = snd (pool_add dbg now f p))"
proof (cases "message_fragment ca m")
  case (Some f)
  then show ?thesis
    by (auto simp: handleMessage_fragment maybeJoinFragments_def split: prod.splits)
qed (simp add: handleMessage_no_fragment)

lemma pool_ready_handle:
  assumes "pool_ready p" and "handleMessage ca sa dbg now m p = (r, p1)"
  shows "pool_ready p1 \<and> pruningAgeS p1 = pruningAgeS p"
  using handleMessage_pool [of ca sa dbg now m p] assms pool_add_distinct
  by (auto simp: pool_ready_def pool_add_settings)

lemma pool_ready_run:
  "pool_ready p \<Longrightarrow> dh_ops ca sa dbg ops p = (rs, p') \<Longrightarrow>
     pool_ready p' \<and> pruningAgeS p' = pruningAgeS p"
proof (induction ca sa dbg ops p arbitrary: rs rule: dh_ops.induct)
  case (2 ca sa dbg now m ops p)
  obtain r p1 where h: "handleMessage ca sa dbg now m p = (r, p1)" by (metis surj_pair)
  obtain rs1 where "dh_ops ca sa dbg ops p1 = (rs1, p')" using 2(3) h by (auto split: prod.splits)
  from 2(1) [OF h [symmetric] _ this] pool_ready_handle [OF 2(2) h] show ?case by simp
qed (auto simp: pool_ready_tick pool_ready_setPruning)

text \<open>A message that carries no part of the event leaves its slot alone, a part steps it.\<close>

lemma handle_other_key:
  assumes "\<not> carries_key ca key m" and "handleMessage ca sa dbg now m p = (r, p1)"
  shows "map_of (pool p1) key = map_of (pool p) key"
  using dh_run_slot [of ca sa dbg "[(now, m)]" p "[r]" p1 key] assms by (simp add: fragments_of_def)

lemma handle_part:
  assumes "message_fragment ca m = Some f" and "handleMessage ca sa dbg now m p = (r, p1)"
    and "frag_step dbg now f (map_of (pool p) (pool_key f)) = (q, s)"
  shows "r = incoming_result sa q \<and> map_of (pool p1) (pool_key f) = s"
  using maybeJoin_slot(1) [of dbg now f p] assms
  by (auto simp: handleMessage_fragment split: prod.splits)

lemma prune_tick_slot:
  assumes "pool_ready p"
  shows "map_of (pool (prune_tick clock p)) key = map_of (pool p) key
    \<or> map_of (pool (prune_tick clock p)) key = None"
proof (cases "map_of (pool p) key")
  case None
  then show ?thesis
    using prune_from_subset [of clock 0 "maxAge t" "pool p" for t]
    by (auto simp: prune_tick_def map_of_eq_None_iff split: option.splits)
next
  case (Some a)
  have "distinct_keys (pool p)" using assms by (simp add: pool_ready_def)
  from prune_from_entry [OF this Some]
  have entry: "map_of (prune_from clock 0 m (pool p)) key \<in> {None, Some a}" for m
    by (metis insertCI)
  show ?thesis
  proof (cases "pruningTask p")
    case (Some t)
    with entry [of "maxAge t"] \<open>map_of (pool p) key = Some a\<close> show ?thesis
      by (cases "cancelled t") (auto simp: prune_tick_def)
  qed (simp add: prune_tick_def)
qed

section \<open>One event\<close>

text \<open>The slot of an event holds a set of its parts, and is empty when it holds none.\<close>

definition part_slot :: "'m fragmented list \<Rightarrow> 'm fragmented set \<Rightarrow> 'm assembly option \<Rightarrow> bool" where
  "part_slot frs P s \<longleftrightarrow> (case s of
     None \<Rightarrow> P = {}
   | Some a \<Rightarrow> P \<noteq> {} \<and> P \<subset> set frs \<and> asm_inv a \<and> length (store a) = length frs
       \<and> asm_parts a = (\<lambda>i. if i < length frs \<and> frs ! i \<in> P then Some (frs ! i) else None))"

text \<open>An assembly with a set of parts is complete exactly if the set is everything.\<close>

lemma finish_parts:
  assumes "is_split frs" and "P \<subseteq> set frs" and "P \<noteq> {}" and "asm_inv a" and "length (store a) = length frs"
    and "asm_parts a = (\<lambda>i. if i < length frs \<and> frs ! i \<in> P then Some (frs ! i) else None)"
  shows "P = set frs \<and> slot_finish dbg a = (Inr (Some (join_parts frs)), None)
    \<or> P \<noteq> set frs \<and> slot_finish dbg a = (Inr None, Some a) \<and> part_slot frs P (Some a)"
proof (cases "P = set frs")
  case True
  then have parts: "asm_parts a i = Some (frs ! i)" if "i < length frs" for i
    using that assms(6) by simp
  have "frs ! i \<in> P" if "i < length frs" for i using True that by simp
  then have "dom (asm_parts a) = {..<length (store a)}"
    unfolding assms(5,6) by (auto simp: dom_def)
  then have complete: "isComplete a" using isComplete_iff [OF assms(4)] by simp
  have "frs \<noteq> []" using assms(1) by (simp add: is_split_def)
  from complete_notification [OF complete store_eq_parts [OF assms(5) parts] this, of dbg]
  obtain a' where "getCompleteNotification dbg a = (Inr (join_parts frs), a')" by auto
  with True complete show ?thesis by (simp add: slot_finish_def)
next
  case False
  then obtain i where i: "i < length frs" "frs ! i \<notin> P"
    using assms(2) by (metis in_set_conv_nth subsetI subset_antisym)
  then have "i \<notin> dom (asm_parts a)" using assms(6) by auto
  then have "\<not> isComplete a" using isComplete_iff [OF assms(4)] i(1) assms(5) by auto
  then show ?thesis using False assms(2-6) by (auto simp: slot_finish_def part_slot_def)
qed

lemma slot_add_part:
  assumes split: "is_split frs" and f: "f \<in> set frs" "f \<notin> P" and slot: "part_slot frs P s"
    and add: "slot_add dbg now f s = (r, s')"
  shows "insert f P = set frs \<and> r = Inr (Some (join_parts frs)) \<and> s' = None
    \<or> insert f P \<noteq> set frs \<and> r = Inr None \<and> part_slot frs (insert f P) s'
      \<and> map_option birthTime s' = Some (case s of None \<Rightarrow> now | Some a \<Rightarrow> birthTime a)"
proof -
  note fm = is_split_mem [OF split f(1)]
  have index: "frs ! i = f \<longleftrightarrow> i = frag_index f" if "i < length frs" for i
    using that split fm(3) by (auto simp: is_split_def)
  have grown: "m(frag_index f \<mapsto> f) = (\<lambda>i. if i < length frs \<and> frs ! i \<in> insert f P then Some (frs ! i) else None)"
    if "m = (\<lambda>i. if i < length frs \<and> frs ! i \<in> P then Some (frs ! i) else None)" for m
  proof (rule ext)
    show "(m(frag_index f \<mapsto> f)) i
        = (if i < length frs \<and> frs ! i \<in> insert f P then Some (frs ! i) else None)" for i
    proof (cases "i = frag_index f")
      case True
      then show ?thesis using fm(1) by (simp add: fm(3))
    next
      case False
      then show ?thesis using index [of i] that by auto
    qed
  qed
  obtain a where a: "slot_finish dbg a = (r, s')" "asm_inv a" "length (store a) = length frs"
      "asm_parts a = (\<lambda>i. if i < length frs \<and> frs ! i \<in> insert f P then Some (frs ! i) else None)"
      "birthTime a = (case s of None \<Rightarrow> now | Some a \<Rightarrow> birthTime a)" "insert f P \<subseteq> set frs"
  proof (cases s)
    case None
    have "frag_index f < frag_total f" using fm(1,2) by simp
    from assembly_new_ok [OF this, of dbg now]
    obtain a where a: "assembly_new dbg now f = Inr a" "asm_inv a" "length (store a) = frag_total f"
      "asm_parts a = [frag_index f \<mapsto> f]" "birthTime a = now" by blast
    have P: "P = {}" using None slot by (simp add: part_slot_def)
    have "asm_parts a = (\<lambda>i. if i < length frs \<and> frs ! i \<in> insert f P then Some (frs ! i) else None)"
      using grown [of Map.empty] a(4) P by simp
    then show thesis using that [of a] a add None P fm(2) f(1) by (simp add: slot_add_def)
  next
    case (Some b)
    then have b: "asm_inv b" "length (store b) = length frs" "P \<subset> set frs"
        "asm_parts b = (\<lambda>i. if i < length frs \<and> frs ! i \<in> P then Some (frs ! i) else None)"
      using slot by (simp_all add: part_slot_def)
    have "asm_parts b (frag_index f) = None" using b(4) fm(3) f(2) by simp
    from assembly_add_new [OF b(1) _ _ this, of dbg]
    obtain a where a: "assembly_add dbg f b = (Inr (isComplete a), a)" "asm_inv a"
        "length (store a) = length (store b)" "asm_parts a = (asm_parts b)(frag_index f \<mapsto> f)"
        "birthTime a = birthTime b"
      using fm(1,2) b(2) by metis
    show thesis using that [of a] a add Some b grown [OF b(4)] f(1) by (simp add: slot_add_def)
  qed
  from finish_parts [OF split a(6) _ a(2-4), of dbg] a(1,5) show ?thesis by auto
qed

text \<open>A part that is alone never enters the pool; the others do.\<close>

lemma frag_step_part:
  assumes split: "is_split frs" and f: "f \<in> set frs" "f \<notin> P" and slot: "part_slot frs P s"
    and step: "frag_step dbg now f s = (r, s')"
  shows "insert f P = set frs \<and> r = Inr (Some (join_parts frs)) \<and> s' = None
    \<or> insert f P \<noteq> set frs \<and> r = Inr None \<and> part_slot frs (insert f P) s'
      \<and> map_option birthTime s' = Some (case s of None \<Rightarrow> now | Some a \<Rightarrow> birthTime a)"
proof (cases "fn_num_data_parts f > 1")
  case True
  then show ?thesis using step slot_add_part [OF split f slot] by (simp add: frag_step_def)
next
  case False
  have "frag_total f = length frs" and pos: "frag_index f < length frs"
    by (rule is_split_mem [OF split f(1)])+
  then have "length frs = 1" using False by (simp add: frag_total_def word_less_nat_alt)
  then have frs: "frs = [f]" using f(1) by (cases frs) auto
  then have "P = {}" "s = None" using slot f(2) by (auto simp: part_slot_def split: option.splits)
  then show ?thesis using frs step False by (simp add: frag_step_def join_parts_def)
qed

lemma part_slot_lost: "part_slot frs {} None"
  by (simp add: part_slot_def)

text \<open>The step of the run for a message with a part that is new.\<close>

lemma handle_new_part:
  assumes split: "is_split frs" and f: "f \<in> set frs" "f \<notin> P" and key: "pool_key (frs ! 0) = key"
    and slot: "part_slot frs P (map_of (pool p) key)" and m: "message_fragment ca m = Some f"
    and h: "handleMessage ca sa dbg now m p = (r, p1)"
  shows "insert f P = set frs \<and> r = incoming_notification sa (join_parts frs) \<and> map_of (pool p1) key = None
    \<or> insert f P \<noteq> set frs \<and> r = Inr None \<and> part_slot frs (insert f P) (map_of (pool p1) key)
      \<and> map_option birthTime (map_of (pool p1) key)
        = Some (case map_of (pool p) key of None \<Rightarrow> now | Some a \<Rightarrow> birthTime a)"
proof -
  have k: "pool_key f = key" using is_split_mem(4) [OF split f(1)] key by simp
  obtain q s where step: "frag_step dbg now f (map_of (pool p) key) = (q, s)" by (metis surj_pair)
  from handle_part [OF m h, of q s] step k
  have "r = incoming_result sa q" "map_of (pool p1) key = s" by simp_all
  with frag_step_part [OF split f slot step] show ?thesis by auto
qed

section \<open>Pruning loses events, it never makes wrong ones\<close>

definition answers_to ::
  "'m codec_api \<Rightarrow> string \<Rightarrow> dh_op list \<Rightarrow> 'r list \<Rightarrow> 'r list" where
  "answers_to ca key ops rs = answers_for ca key (handled ops) rs"

lemma answers_to_simps [simp]:
  "answers_to ca key [] rs = []"
  "answers_to ca key (Handle now m # ops) (r # rs)
    = (if carries_key ca key m then r # answers_to ca key ops rs else answers_to ca key ops rs)"
  "answers_to ca key (PruneTick clock # ops) rs = answers_to ca key ops rs"
  "answers_to ca key (SwitchPruning b # ops) rs = answers_to ca key ops rs"
  by (simp_all add: answers_to_def)

lemma handle_cases:
  obtains (part) f where "message_fragment ca m = Some f" "pool_key f = key" "carries_key ca key m"
  | (other) "\<not> carries_key ca key m"
  by (auto simp: carries_key_def)

text \<open>With the parts \<open>P\<close> in the pool and the parts \<open>seen\<close> received so far, some of which may have been
  pruned. Each part arrives at most once.\<close>

lemma pruned_answers:
  assumes split: "is_split frs" and key: "pool_key (frs ! 0) = key"
    and "P \<subseteq> seen" and "part_slot frs P (map_of (pool p) key)" and "pool_ready p"
    and "distinct (parts_for ca key ops)" and "set (parts_for ca key ops) \<subseteq> set frs - seen"
    and "dh_ops ca sa dbg ops p = (rs, p')"
  shows "answers_to ca key ops rs = replicate (length (parts_for ca key ops)) (Inr None)
    \<or> set frs \<subseteq> seen \<union> set (parts_for ca key ops) \<and> parts_for ca key ops \<noteq> []
      \<and> answers_to ca key ops rs = replicate (length (parts_for ca key ops) - 1) (Inr None)
          @ [incoming_notification sa (join_parts frs)]"
  using assms(3-)
proof (induction ops arbitrary: P seen p rs)
  case Nil
  then show ?case by simp
next
  case (Cons op ops)
  show ?case
  proof (cases op)
    case (PruneTick clock)
    have ready: "pool_ready (prune_tick clock p)" using pool_ready_tick [OF Cons.prems(3)] by simp
    have "\<exists>P'. P' \<subseteq> seen \<and> part_slot frs P' (map_of (pool (prune_tick clock p)) key)"
      using prune_tick_slot [OF Cons.prems(3), of clock key] Cons.prems(1,2) part_slot_lost
      by (metis empty_subsetI)
    then show ?thesis using Cons.IH [OF _ _ ready, of _ seen rs] Cons.prems PruneTick by auto
  next
    case (SwitchPruning b)
    then show ?thesis
      using Cons.IH [of P seen "dh_setPruning b p" rs] Cons.prems pool_ready_setPruning [OF Cons.prems(3), of b]
      by simp
  next
    case (Handle now m)
    obtain r p1 where h: "handleMessage ca sa dbg now m p = (r, p1)" by (metis surj_pair)
    obtain rs1 where rest: "dh_ops ca sa dbg ops p1 = (rs1, p')" and rs: "rs = r # rs1"
      using Cons.prems(6) Handle h by (auto split: prod.splits)
    have ready: "pool_ready p1" using pool_ready_handle [OF Cons.prems(3) h] by simp
    show ?thesis
    proof (cases rule: handle_cases [where ca = ca and m = m and key = key])
      case other
      then have "part_slot frs P (map_of (pool p1) key)"
        using handle_other_key [OF other h] Cons.prems(2) by simp
      from Cons.IH [OF Cons.prems(1) this ready _ _ rest] Cons.prems(4,5) other Handle rs
      show ?thesis by simp
    next
      case (part f)
      have gs: "parts_for ca key (op # ops) = f # parts_for ca key ops" using part Handle by simp
      have f: "f \<in> set frs" "f \<notin> P" "f \<notin> seen" using Cons.prems(1,5) gs by auto
      have more: "distinct (parts_for ca key ops)" "set (parts_for ca key ops) \<subseteq> set frs - insert f seen"
        using Cons.prems(4,5) gs by auto
      have answers: "answers_to ca key (op # ops) rs = r # answers_to ca key ops rs1"
        using part Handle rs by simp
      from handle_new_part [OF split f(1,2) key Cons.prems(2) part(1) h] show ?thesis
      proof
        assume full: "insert f P = set frs \<and> r = incoming_notification sa (join_parts frs)
            \<and> map_of (pool p1) key = None"
        then have "set frs \<subseteq> insert f seen" using Cons.prems(1) by auto
        then have "set frs - insert f seen = {}" by (simp only: Diff_eq_empty_iff)
        with more(2) have "set (parts_for ca key ops) \<subseteq> {}" by (simp only:)
        then have none: "parts_for ca key ops = []" by simp
        from Cons.IH [of "{}" "insert f seen" p1 rs1] full part_slot_lost [of frs] ready more rest
        have "answers_to ca key ops rs1 = []" using none by simp
        then show ?thesis using gs none answers full Cons.prems(1) by auto
      next
        assume "insert f P \<noteq> set frs \<and> r = Inr None \<and> part_slot frs (insert f P) (map_of (pool p1) key)
            \<and> map_option birthTime (map_of (pool p1) key)
              = Some (case map_of (pool p) key of None \<Rightarrow> now | Some a \<Rightarrow> birthTime a)"
        then have r: "r = Inr None" and slot: "part_slot frs (insert f P) (map_of (pool p1) key)" by simp_all
        have "insert f P \<subseteq> insert f seen" using Cons.prems(1) by blast
        from Cons.IH [OF this slot ready more rest] show ?thesis
          using gs answers r by (cases "parts_for ca key ops") auto
      qed
    qed
  qed
qed

section \<open>Pruning does not touch a fresh event\<close>

text \<open>
  Readings of the clock lie between \<open>lo\<close> and \<open>hi\<close> and are never before a message that has been handled.
\<close>

fun timely :: "int \<Rightarrow> int \<Rightarrow> dh_op list \<Rightarrow> bool" where
  "timely lo hi [] = True"
| "timely lo hi (Handle now m # ops) = (lo \<le> now \<and> now \<le> hi \<and> timely now hi ops)"
| "timely lo hi (PruneTick clock # ops) = ((\<forall>i. lo \<le> clock i \<and> clock i \<le> hi) \<and> timely lo hi ops)"
| "timely lo hi (SwitchPruning b # ops) = timely lo hi ops"

lemma timely_append: "timely lo hi (xs @ ys) \<Longrightarrow> timely lo hi xs"
  by (induction lo hi xs rule: timely.induct) auto

definition never_pruned :: "dh_op list \<Rightarrow> bool" where
  "never_pruned ops \<longleftrightarrow> (\<forall>op \<in> set ops. case op of PruneTick clock \<Rightarrow> False | _ \<Rightarrow> True)"

lemma never_pruned_simps [simp]:
  "never_pruned []" "never_pruned (Handle now m # ops) = never_pruned ops"
  "never_pruned (PruneTick clock # ops) = False" "never_pruned (SwitchPruning b # ops) = never_pruned ops"
  by (simp_all add: never_pruned_def)

lemma age_within:
  assumes "birthTime a \<le> x" and "x - birthTime a \<le> d" and "d div 1000000 \<le> uint (m :: 32 word)"
  shows "\<not> age x a > m"
proof -
  have "(x - birthTime a) div 1000000 \<le> d div 1000000" using assms(2) by (rule zdiv_mono1) simp
  then have le: "(x - birthTime a) div 1000000 \<le> uint m" using assms(3) by simp
  moreover have "uint m < 2 ^ 32" using uint_lt2p [of m] by simp
  ultimately have "uint (age x a) = (x - birthTime a) div 1000000"
    by (intro age_nonneg assms(1)) linarith
  with le show ?thesis by (simp add: word_less_alt)
qed

lemma tick_keeps_fresh:
  assumes "pool_ready p" and "map_of (pool p) key = Some a" and "t0 \<le> birthTime a"
    and "\<forall>i. birthTime a \<le> clock i \<and> clock i \<le> hi" and "(hi - t0) div 1000000 \<le> uint (pruningAgeS p)"
  shows "map_of (pool (prune_tick clock p)) key = Some a"
proof (cases "pruningTask p")
  case (Some t)
  then have m: "maxAge t = pruningAgeS p" "distinct_keys (pool p)" using assms(1) by (simp_all add: pool_ready_def)
  obtain j where j: "map_of (prune_from clock 0 (maxAge t) (pool p)) key
      = (if age (clock j) a > maxAge t then None else Some a)"
    using prune_from_entry [OF m(2) assms(2)] by blast
  have "\<not> age (clock j) a > maxAge t"
    using assms(3,4) by (intro age_within [OF _ _ assms(5) [folded m(1)]]) (simp_all add: diff_mono)
  then show ?thesis using j Some assms(2) by (simp add: prune_tick_def)
qed (simp add: prune_tick_def assms(2))

text \<open>When nothing is pruned, or everything happens within the maximal age, the slot of the event holds
  all the parts received.\<close>

lemma kept_answers:
  assumes split: "is_split frs" and key: "pool_key (frs ! 0) = key"
    and "part_slot frs P (map_of (pool p) key)" and "pool_ready p"
    and "distinct (parts_for ca key ops)" and "set (parts_for ca key ops) \<subseteq> set frs - P"
    and "never_pruned ops \<or> timely lo hi ops \<and> (hi - t0) div 1000000 \<le> uint (pruningAgeS p)
      \<and> t0 \<le> lo \<and> (\<forall>a. map_of (pool p) key = Some a \<longrightarrow> t0 \<le> birthTime a \<and> birthTime a \<le> lo)"
    and "dh_ops ca sa dbg ops p = (rs, p')"
  shows "if P \<union> set (parts_for ca key ops) = set frs
    then parts_for ca key ops \<noteq> []
      \<and> answers_to ca key ops rs = replicate (length (parts_for ca key ops) - 1) (Inr None)
          @ [incoming_notification sa (join_parts frs)]
    else answers_to ca key ops rs = replicate (length (parts_for ca key ops)) (Inr None)
      \<and> part_slot frs (P \<union> set (parts_for ca key ops)) (map_of (pool p') key)"
  using assms(3-)
proof (induction ops arbitrary: P lo p rs)
  case Nil
  have "P \<noteq> set frs" using Nil.prems(1) split by (auto simp: part_slot_def is_split_def split: option.splits)
  then show ?case using Nil.prems by simp
next
  case (Cons op ops)
  show ?case
  proof (cases op)
    case (PruneTick clock)
    then have timely: "\<forall>i. lo \<le> clock i \<and> clock i \<le> hi" "timely lo hi ops" "t0 \<le> lo"
      and age: "(hi - t0) div 1000000 \<le> uint (pruningAgeS p)"
      and births: "\<And>a. map_of (pool p) key = Some a \<Longrightarrow> t0 \<le> birthTime a \<and> birthTime a \<le> lo"
      using Cons.prems(5) by simp_all
    note ready = pool_ready_tick [OF Cons.prems(2), of clock]
    have "map_of (pool (prune_tick clock p)) key = map_of (pool p) key"
    proof (cases "map_of (pool p) key")
      case None
      then show ?thesis using prune_tick_slot [OF Cons.prems(2), of clock key] by simp
    next
      case (Some a)
      then show ?thesis
        using tick_keeps_fresh [OF Cons.prems(2) Some _ _ age, of clock] births timely(1)
        by (metis order.trans)
    qed
    then show ?thesis
      using Cons.IH [of P "prune_tick clock p" lo rs] Cons.prems PruneTick ready timely age births by simp
  next
    case (SwitchPruning b)
    then show ?thesis
      using Cons.IH [of P "dh_setPruning b p" lo rs] Cons.prems pool_ready_setPruning [OF Cons.prems(2), of b]
      by simp
  next
    case (Handle now m)
    obtain r p1 where h: "handleMessage ca sa dbg now m p = (r, p1)" by (metis surj_pair)
    obtain rs1 where rest: "dh_ops ca sa dbg ops p1 = (rs1, p')" and rs: "rs = r # rs1"
      using Cons.prems(6) Handle h by (auto split: prod.splits)
    note ready = pool_ready_handle [OF Cons.prems(2) h]
    have time: "never_pruned ops \<or> timely now hi ops \<and> (hi - t0) div 1000000 \<le> uint (pruningAgeS p1)
        \<and> t0 \<le> now \<and> (\<forall>a. map_of (pool p1) key = Some a \<longrightarrow> t0 \<le> birthTime a \<and> birthTime a \<le> now)"
      if born: "map_of (pool p1) key = None \<or> map_option birthTime (map_of (pool p1) key)
          \<in> {Some now, map_option birthTime (map_of (pool p) key)}"
    proof (cases "never_pruned ops")
      case False
      then have "timely now hi ops" "t0 \<le> now" "lo \<le> now" "(hi - t0) div 1000000 \<le> uint (pruningAgeS p)"
        and births: "\<And>a. map_of (pool p) key = Some a \<Longrightarrow> t0 \<le> birthTime a \<and> birthTime a \<le> lo"
        using Cons.prems(5) Handle by auto
      moreover have "t0 \<le> birthTime a \<and> birthTime a \<le> now" if a: "map_of (pool p1) key = Some a" for a
      proof (cases "birthTime a = now")
        case False
        then obtain b where "map_of (pool p) key = Some b" "birthTime b = birthTime a"
          using born a by (cases "map_of (pool p) key") auto
        then show ?thesis using births \<open>lo \<le> now\<close> by fastforce
      qed (simp add: \<open>t0 \<le> now\<close>)
      ultimately show ?thesis using ready by simp
    qed simp
    show ?thesis
    proof (cases rule: handle_cases [where ca = ca and m = m and key = key])
      case other
      then have same: "map_of (pool p1) key = map_of (pool p) key" by (rule handle_other_key [OF _ h])
      then have slot: "part_slot frs P (map_of (pool p1) key)" using Cons.prems(1) by simp
      from Cons.IH [OF this conjunct1 [OF ready] _ _ time rest] Cons.prems(3,4) other Handle rs same
      show ?thesis by simp
    next
      case (part f)
      have gs: "parts_for ca key (op # ops) = f # parts_for ca key ops" using part Handle by simp
      have f: "f \<in> set frs" "f \<notin> P" using Cons.prems(4) gs by auto
      have more: "distinct (parts_for ca key ops)" "set (parts_for ca key ops) \<subseteq> set frs - insert f P"
        using Cons.prems(3,4) gs by auto
      have answers: "answers_to ca key (op # ops) rs = r # answers_to ca key ops rs1"
        using part Handle rs by simp
      have union: "P \<union> set (parts_for ca key (op # ops)) = insert f P \<union> set (parts_for ca key ops)"
        using gs by auto
      from handle_new_part [OF split f key Cons.prems(1) part(1) h] show ?thesis
      proof
        assume full: "insert f P = set frs \<and> r = incoming_notification sa (join_parts frs)
            \<and> map_of (pool p1) key = None"
        then have none: "parts_for ca key ops = []" using more(2) by auto
        then have "answers_to ca key ops rs1 = []"
          using dh_ops_length [OF rest] by (auto simp: parts_for_def answers_to_def answers_for_def
              messages_for_def filter_empty_conv dest: set_zip_leftD)
        then show ?thesis using union none full answers gs by simp
      next
        assume part_step: "insert f P \<noteq> set frs \<and> r = Inr None
            \<and> part_slot frs (insert f P) (map_of (pool p1) key)
            \<and> map_option birthTime (map_of (pool p1) key)
              = Some (case map_of (pool p) key of None \<Rightarrow> now | Some a \<Rightarrow> birthTime a)"
        then have born: "map_option birthTime (map_of (pool p1) key)
            \<in> {Some now, map_option birthTime (map_of (pool p) key)}"
          by (cases "map_of (pool p) key") auto
        from part_step have slot: "part_slot frs (insert f P) (map_of (pool p1) key)" and r: "r = Inr None"
          by simp_all
        note IH = Cons.IH [OF slot conjunct1 [OF ready] more time [OF disjI2 [OF born]] rest]
        show ?thesis
        proof (cases "insert f P \<union> set (parts_for ca key ops) = set frs")
          case True
          then have "parts_for ca key ops \<noteq> []"
            and ans: "answers_to ca key ops rs1 = replicate (length (parts_for ca key ops) - 1) (Inr None)
              @ [incoming_notification sa (join_parts frs)]"
            using IH by (simp_all only: simp_thms if_True)
          then obtain k where "length (parts_for ca key ops) = Suc k" by (cases "parts_for ca key ops") auto
          with True ans show ?thesis by (simp only: union if_True) (simp add: gs answers r)
        next
          case False
          then show ?thesis using IH by (simp only: union if_False) (simp add: gs answers r)
        qed
      qed
    qed
  qed
qed

lemma dh_ops_append:
  "dh_ops ca sa dbg (xs @ ys) p = (rs, p') \<Longrightarrow> \<exists>rs1 rs2 p1. dh_ops ca sa dbg xs p = (rs1, p1)
     \<and> dh_ops ca sa dbg ys p1 = (rs2, p') \<and> rs = rs1 @ rs2"
proof (induction ca sa dbg xs p arbitrary: rs rule: dh_ops.induct)
  case (2 ca sa dbg now m ops p)
  obtain r p1 where h: "handleMessage ca sa dbg now m p = (r, p1)" by (metis surj_pair)
  with 2(2) obtain rs0 where rest: "dh_ops ca sa dbg (ops @ ys) p1 = (rs0, p')" and "rs = r # rs0"
    by (auto split: prod.splits)
  with 2(1) [OF h [symmetric] rest] h show ?case by (auto split: prod.splits)
qed auto

lemma handled_append [simp]: "handled (xs @ ys) = handled xs @ handled ys"
  by (induction xs rule: handled.induct) auto

lemma parts_for_append [simp]: "parts_for ca key (xs @ ys) = parts_for ca key xs @ parts_for ca key ys"
  by (simp add: parts_for_def messages_for_def)

lemma answers_to_append:
  "length rs1 = length (handled xs) \<Longrightarrow>
     answers_to ca key (xs @ ys) (rs1 @ rs2) = answers_to ca key xs rs1 @ answers_to ca key ys rs2"
  by (simp add: answers_to_def answers_for_def)

text \<open>A run without parts of the event gives no answers to it and keeps its slot empty.\<close>

lemma no_parts:
  assumes "pool_ready p" and "parts_for ca key ops = []" and "dh_ops ca sa dbg ops p = (rs, p')"
  shows "answers_to ca key ops rs = [] \<and> (map_of (pool p) key = None \<longrightarrow> map_of (pool p') key = None)"
  using assms
proof (induction ops arbitrary: p rs)
  case (Cons op ops)
  show ?case
  proof (cases op)
    case (PruneTick clock)
    then show ?thesis
      using Cons.IH [of "prune_tick clock p" rs] Cons.prems pool_ready_tick [OF Cons.prems(1), of clock]
        prune_tick_slot [OF Cons.prems(1), of clock key] by auto
  next
    case (SwitchPruning b)
    then show ?thesis
      using Cons.IH [of "dh_setPruning b p" rs] Cons.prems pool_ready_setPruning [OF Cons.prems(1), of b] by simp
  next
    case (Handle now m)
    obtain r p1 where h: "handleMessage ca sa dbg now m p = (r, p1)" by (metis surj_pair)
    obtain rs1 where rest: "dh_ops ca sa dbg ops p1 = (rs1, p')" and rs: "rs = r # rs1"
      using Cons.prems(3) Handle h by (auto split: prod.splits)
    have other: "\<not> carries_key ca key m"
      using Cons.prems(2) Handle by (auto simp: carries_key_def)
    with Cons.IH [OF conjunct1 [OF pool_ready_handle [OF Cons.prems(1) h]] _ rest]
      handle_other_key [OF other h] Cons.prems(2) Handle rs show ?thesis by simp
  qed
qed simp

text \<open>What is said of the parts of one event: each arrives at most once.\<close>

definition parts_once :: "'m codec_api \<Rightarrow> 'm fragmented list \<Rightarrow> dh_op list \<Rightarrow> bool" where
  "parts_once ca frs ops \<longleftrightarrow> distinct (parts_for ca (pool_key (frs ! 0)) ops)
     \<and> set (parts_for ca (pool_key (frs ! 0)) ops) \<subseteq> set frs"

lemma parts_once_all:
  assumes "is_split frs" and "parts_once ca frs ops"
    and "set (parts_for ca (pool_key (frs ! 0)) ops) = set frs"
  shows "length (parts_for ca (pool_key (frs ! 0)) ops) = length frs"
  using assms is_split_index_distinct(2) [OF assms(1)] distinct_card
  unfolding parts_once_def by metis

text \<open>The answers to the parts of an event are nothing, and at last possibly the event.\<close>

definition joined_answers ::
  "'sc scope_api \<Rightarrow> 'm fragmented list \<Rightarrow> (exn + ('sc, 'm) transport_notification option) list" where
  "joined_answers sa frs = replicate (length frs - 1) (Inr None) @ [incoming_notification sa (join_parts frs)]"

text \<open>C12 Pruning only drops what is stale. A handler starts with an empty pool and runs with messages,
  executions of the pruning task and \<open>setPruning\<close> in any order and at any times. When each part of a split
  event arrives at most once, all answers to its parts are empty, except that the last one may be the
  joined event, and only if all parts have arrived: never a wrong or incomplete event, never one twice,
  never an exception. And when all parts arrive within the maximal age of the pool, by a clock that is
  not set back, the event is joined however often the task executes.\<close>

theorem pruning_drops_only_stale:
  assumes "pool_new ageS interval = Inr p" and "is_split frs" and "parts_once ca frs ops"
    and "dh_ops ca sa dbg ops p = (rs, p')"
  shows "(answers_to ca (pool_key (frs ! 0)) ops rs
        = replicate (length (parts_for ca (pool_key (frs ! 0)) ops)) (Inr None)
      \<or> set (parts_for ca (pool_key (frs ! 0)) ops) = set frs
        \<and> answers_to ca (pool_key (frs ! 0)) ops rs = joined_answers sa frs)
    \<and> (\<forall>before during after t0 t1. ops = before @ during @ after
        \<and> set (parts_for ca (pool_key (frs ! 0)) during) = set frs
        \<and> timely t0 t1 during \<and> (t1 - t0) div 1000000 \<le> uint ageS
      \<longrightarrow> answers_to ca (pool_key (frs ! 0)) ops rs = joined_answers sa frs)"
proof -
  let ?k = "pool_key (frs ! 0)"
  have p: "pool_ready p" "pool p = []" "pruningAgeS p = ageS" using pool_ready_new [OF assms(1)] by simp_all
  have once: "distinct (parts_for ca ?k ops)" "set (parts_for ca ?k ops) \<subseteq> set frs - {}"
    using assms(3) by (simp_all add: parts_once_def)
  have "part_slot frs {} (map_of (pool p) ?k)" using p(2) by (simp add: part_slot_lost)
  from pruned_answers [OF assms(2) refl _ this p(1) once assms(4)]
  have safe: "answers_to ca ?k ops rs = replicate (length (parts_for ca ?k ops)) (Inr None)
    \<or> set (parts_for ca ?k ops) = set frs \<and> answers_to ca ?k ops rs = joined_answers sa frs"
    using once parts_once_all [OF assms(2,3)] by (auto simp: joined_answers_def)
  have "answers_to ca ?k ops rs = joined_answers sa frs"
    if ops: "ops = before @ during @ after" and all: "set (parts_for ca ?k during) = set frs"
      and time: "timely t0 t1 during" "(t1 - t0) div 1000000 \<le> uint ageS" for before during after t0 t1
  proof -
    obtain rs1 rs2 p1 where b: "dh_ops ca sa dbg before p = (rs1, p1)"
      and "dh_ops ca sa dbg (during @ after) p1 = (rs2, p')" and rs: "rs = rs1 @ rs2"
      using dh_ops_append assms(4) unfolding ops by blast
    then obtain rs3 rs4 p2 where d: "dh_ops ca sa dbg during p1 = (rs3, p2)"
      and a: "dh_ops ca sa dbg after p2 = (rs4, p')" and rs2: "rs2 = rs3 @ rs4"
      using dh_ops_append by blast
    have none: "parts_for ca ?k before = []" "parts_for ca ?k after = []"
      using once all unfolding ops by (cases "parts_for ca ?k before"; cases "parts_for ca ?k after"; auto)+
    note r1 = pool_ready_run [OF p(1) b] and r2 = pool_ready_run [OF _ d]
    have slot: "part_slot frs {} (map_of (pool p1) ?k)"
      using no_parts [OF p(1) none(1) b] p(2) by (simp add: part_slot_lost)
    have "map_of (pool p1) ?k = None" using slot by (auto simp: part_slot_def split: option.splits)
    then have "(never_pruned during \<or> timely t0 t1 during \<and> (t1 - t0) div 1000000 \<le> uint (pruningAgeS p1)
      \<and> t0 \<le> t0 \<and> (\<forall>a. map_of (pool p1) ?k = Some a \<longrightarrow> t0 \<le> birthTime a \<and> birthTime a \<le> t0))"
      using time r1 p(3) by simp
    from kept_answers [OF assms(2) refl slot _ _ _ this d] r1 all once
    have "answers_to ca ?k during rs3 = replicate (length (parts_for ca ?k during) - 1) (Inr None)
        @ [incoming_notification sa (join_parts frs)]"
      unfolding ops by simp
    moreover have "length (parts_for ca ?k during) = length frs"
      using parts_once_all [OF assms(2,3)] none all unfolding ops by simp
    ultimately show ?thesis
      using no_parts [OF p(1) none(1) b] no_parts [OF _ none(2) a] r1 r2 dh_ops_length [OF b]
        dh_ops_length [OF d]
      by (simp add: ops rs rs2 answers_to_append joined_answers_def)
  qed
  with safe show ?thesis by blast
qed

text \<open>Two parts that arrive 20 seconds apart while the task executes.\<close>

definition two_parts :: "unit fragmented list" where
  "two_parts = [sample_part 1 0 ''ab'' 2, sample_part 1 1 ''cd'' 2]"

definition slow_ops :: "dh_op list" where
  "slow_ops = [Handle 0 (fragment_message (sample_part 1 1 ''cd'' 2)), PruneTick (\<lambda>i. 19000000),
     Handle 20000000 (fragment_message (sample_part 1 0 ''ab'' 2))]"

lemma two_parts_facts:
  "pool_key (sample_part 1 1 ''cd'' 2) = pool_key (sample_part 1 0 ''ab'' 2)" "is_split two_parts"
  "parts_for sample_codec (pool_key (two_parts ! 0)) slow_ops = [two_parts ! 1, two_parts ! 0]"
proof -
  show k: "pool_key (sample_part 1 1 ''cd'' 2) = pool_key (sample_part 1 0 ''ab'' 2)"
    by (simp add: pool_key_def sample_defs)
  then show "is_split two_parts"
    by (auto simp: two_parts_def is_split_def less_Suc_eq frag_defs sample_defs)
  show "parts_for sample_codec (pool_key (two_parts ! 0)) slow_ops = [two_parts ! 1, two_parts ! 0]"
    using k by (simp add: slow_ops_def two_parts_def)
qed

theorem pruning_drops_only_stale_witness:
  "answers_to sample_codec (pool_key (two_parts ! 0)) ([SwitchPruning True] @ slow_ops @ [PruneTick (\<lambda>i. 99000000)])
     (fst (dh_ops sample_codec sample_scopes True
       ([SwitchPruning True] @ slow_ops @ [PruneTick (\<lambda>i. 99000000)]) sample_pool))
   = joined_answers sample_scopes two_parts"
proof -
  let ?ops = "[SwitchPruning True] @ slow_ops @ [PruneTick (\<lambda>i. 99000000)]"
  obtain rs p' where run: "dh_ops sample_codec sample_scopes True ?ops sample_pool = (rs, p')"
    by (metis surj_pair)
  have neq: "two_parts ! 1 \<noteq> two_parts ! 0" by (simp add: two_parts_def sample_defs)
  have all: "set (parts_for sample_codec (pool_key (two_parts ! 0)) slow_ops) = set two_parts"
    unfolding two_parts_facts(3) by (auto simp: two_parts_def)
  have once: "parts_once sample_codec two_parts ?ops"
    using neq all by (simp only: parts_once_def parts_for_append parts_for_simps two_parts_facts(3)) auto
  from conjunct2 [OF pruning_drops_only_stale [OF sample_pool_new two_parts_facts(2) once run]]
  have "?ops = [SwitchPruning True] @ slow_ops @ [PruneTick (\<lambda>i. 99000000)]
      \<and> set (parts_for sample_codec (pool_key (two_parts ! 0)) slow_ops) = set two_parts
      \<and> timely 0 20000000 slow_ops \<and> (20000000 - 0) div 1000000 \<le> uint (20 :: 32 word)
    \<longrightarrow> answers_to sample_codec (pool_key (two_parts ! 0)) ?ops rs = joined_answers sample_scopes two_parts"
    by - (elim allE, assumption)
  moreover have "timely 0 20000000 slow_ops" by (simp add: slow_ops_def)
  ultimately have "answers_to sample_codec (pool_key (two_parts ! 0)) ?ops rs
      = joined_answers sample_scopes two_parts"
    using all by simp
  then show ?thesis unfolding run by simp
qed

end
