(* ===== verification/PoolSize.thy ===== *)
theory PoolSize
  imports PrunedReceiver
begin

text \<open>
  How many incomplete events the pool of a receiver holds: with the pruning task at most the messages of
  the recent past, without it all events that have lost a part.
\<close>

section \<open>The size of the pool\<close>

text \<open>Every entry goes back to a message of its event, handled when the entry was born.\<close>

lemma assembly_add_birth: "birthTime (snd (assembly_add dbg f a)) = birthTime a"
  by (simp add: assembly_add_def Let_def)

lemma assembly_new_birth: "assembly_new dbg now f = Inr a \<Longrightarrow> birthTime a = now"
  by (auto simp: assembly_new_def assembly_add_def Let_def split: outcome_splits)

lemma slot_finish_birth: "snd (slot_finish dbg a) = Some b \<Longrightarrow> birthTime b = birthTime a"
  by (auto simp: slot_finish_def getCompleteNotification_def Let_def
      split: outcome_splits list.splits option.splits)

lemma slot_add_birth:
  assumes "snd (slot_add dbg now f s) = Some a"
  shows "birthTime a = (case s of None \<Rightarrow> now | Some b \<Rightarrow> birthTime b)"
proof (cases s)
  case None
  then show ?thesis using assms slot_finish_birth assembly_new_birth
    by (fastforce simp: slot_add_def split: sum.splits)
next
  case (Some b)
  obtain q b' where add: "assembly_add dbg f b = (q, b')" by (metis surj_pair)
  have "birthTime b' = birthTime b" using assembly_add_birth [of dbg f b] add by simp
  then show ?thesis using assms Some add slot_finish_birth [of dbg b' a]
    by (auto simp: slot_add_def split: sum.splits)
qed

definition born_of :: "'m codec_api \<Rightarrow> (int \<times> spread_message) list \<Rightarrow> 'm assembly_pool \<Rightarrow> bool" where
  "born_of ca ms p \<longleftrightarrow> (\<forall>key a. map_of (pool p) key = Some a \<longrightarrow>
     (\<exists>m f. (birthTime a, m) \<in> set ms \<and> message_fragment ca m = Some f \<and> pool_key f = key))"

lemma born_of_handle:
  assumes "born_of ca ms p" and "handleMessage ca sa dbg now m p = (r, p1)"
  shows "born_of ca (ms @ [(now, m)]) p1"
proof -
  have old: "born_of ca (ms @ [(now, m)]) p" using assms(1) by (fastforce simp: born_of_def)
  from handleMessage_pool [of ca sa dbg now m p] assms(2) show ?thesis
  proof (elim disjE exE conjE)
    fix f
    assume f: "message_fragment ca m = Some f"
      and "snd (handleMessage ca sa dbg now m p) = snd (pool_add dbg now f p)"
    then have p1: "map_of (pool p1) = (map_of (pool p))
        (pool_key f := snd (slot_add dbg now f (map_of (pool p) (pool_key f))))"
      using assms(2) pool_add_slot [of dbg now f p "fst (pool_add dbg now f p)" "snd (pool_add dbg now f p)"]
      by simp
    show ?thesis
      unfolding born_of_def
    proof (intro allI impI)
      fix key a
      assume a: "map_of (pool p1) key = Some a"
      show "\<exists>m' f'. (birthTime a, m') \<in> set (ms @ [(now, m)]) \<and> message_fragment ca m' = Some f'
          \<and> pool_key f' = key"
      proof (cases "key = pool_key f")
        case True
        then have birth: "birthTime a = (case map_of (pool p) key of None \<Rightarrow> now | Some b \<Rightarrow> birthTime b)"
          using slot_add_birth a p1 by fastforce
        show ?thesis
        proof (cases "map_of (pool p) key")
          case None
          then show ?thesis using birth f True by auto
        next
          case (Some b)
          then show ?thesis using old birth unfolding born_of_def by auto
        qed
      next
        case False
        then show ?thesis using old a p1 unfolding born_of_def by auto
      qed
    qed
  qed (use old in simp)
qed

lemma born_of_run:
  "born_of ca ms p \<Longrightarrow> pool_ready p \<Longrightarrow> dh_ops ca sa dbg ops p = (rs, p') \<Longrightarrow>
     born_of ca (ms @ handled ops) p'"
proof (induction ca sa dbg ops p arbitrary: ms rs rule: dh_ops.induct)
  case (2 ca sa dbg now m ops p)
  obtain r p1 where h: "handleMessage ca sa dbg now m p = (r, p1)" by (metis surj_pair)
  obtain rs1 where rest: "dh_ops ca sa dbg ops p1 = (rs1, p')" using 2(4) h by (auto split: prod.splits)
  from 2(1) [OF h [symmetric] born_of_handle [OF 2(2) h] conjunct1 [OF pool_ready_handle [OF 2(3) h]] rest]
  show ?case by simp
next
  case (3 ca sa dbg clock ops p)
  have "born_of ca ms (prune_tick clock p)"
    using 3(2) prune_tick_slot [OF 3(3), of clock] unfolding born_of_def by (metis option.distinct(1))
  then show ?case using 3(1,4) pool_ready_tick [OF 3(3), of clock] by simp
next
  case (4 ca sa dbg b ops p)
  then show ?case using pool_ready_setPruning [OF 4(3), of b] by (simp add: born_of_def)
qed simp

lemma timely_times:
  assumes "timely lo hi (ops @ [PruneTick clock])"
  shows "lo \<le> clock i \<and> clock i \<le> hi \<and> (\<forall>now m. (now, m) \<in> set (handled ops) \<longrightarrow> lo \<le> now \<and> now \<le> clock i)"
  using assms by (induction lo hi ops rule: timely.induct) (auto intro: order.trans)

lemma micros_less: "x div 1000000 \<le> m \<Longrightarrow> x < (m + 1) * (1000000 :: int)"
  using mult_div_mod_eq [of 1000000 x] pos_mod_bound [of 1000000 x]
  by (simp add: distrib_right)

text \<open>C23 Pruning bounds the pool: after an execution of the task, the number of pending events is at most
  the number of messages of the last \<open>ageS + 1\<close> seconds, whatever has been received before (lost parts,
  garbage, parts that are not well formed). The readings of the clock do not go back and span less than
  \<open>2 ^ 32\<close> seconds.\<close>

theorem pruning_bounds_pool:
  assumes "pool_new ageS interval = Inr p" and "timely lo hi (ops @ [PruneTick clock])"
    and "(hi - lo) div 1000000 < 2 ^ 32" and "dh_ops ca sa dbg ops p = (rs, p1)"
    and "pruningTask p1 = Some t" and "\<not> cancelled t" and "\<forall>i. t0 \<le> clock i"
  shows "length (pool (prune_tick clock p1))
    \<le> length (filter (\<lambda>(now, m). t0 - (uint ageS + 1) * 1000000 < now) (handled ops))"
proof -
  let ?recent = "filter (\<lambda>(now, m). t0 - (uint ageS + 1) * 1000000 < now) (handled ops)"
  let ?q = "prune_tick clock p1"
  have p: "pool_ready p" "pool p = []" "pruningAgeS p = ageS" using pool_ready_new [OF assms(1)] by simp_all
  then have "born_of ca [] p" by (simp add: born_of_def)
  from born_of_run [OF this p(1) assms(4)] have born: "born_of ca (handled ops) p1" by simp
  have ready: "pool_ready p1" "pruningAgeS p1 = ageS" using pool_ready_run [OF p(1) assms(4)] p(3) by simp_all
  then have age: "maxAge t = ageS" and keys: "distinct_keys (pool p1)"
    using assms(5) by (simp_all add: pool_ready_def)
  have "fst ` set (pool ?q) \<subseteq> set (map (\<lambda>(now, m). pool_key (the (message_fragment ca m))) ?recent)"
  proof
    fix key
    assume "key \<in> fst ` set (pool ?q)"
    then have some: "map_of (pool ?q) key \<noteq> None" by (simp add: map_of_eq_None_iff)
    then obtain a where a: "map_of (pool p1) key = Some a"
      using prune_tick_slot [OF ready(1), of clock key] by auto
    obtain j where "map_of (prune_from clock 0 (maxAge t) (pool p1)) key
        = (if age (clock j) a > maxAge t then None else Some a)"
      using prune_from_entry [OF keys a] by blast
    with some have young: "\<not> age (clock j) a > ageS"
      using age assms(5,6) by (auto simp: prune_tick_def split: if_splits)
    from born a obtain m f where m: "(birthTime a, m) \<in> set (handled ops)" "message_fragment ca m = Some f"
        "pool_key f = key" unfolding born_of_def by blast
    have times: "lo \<le> birthTime a" "birthTime a \<le> clock j" "clock j \<le> hi"
      using timely_times [OF assms(2), of j] m(1) by auto
    have "(clock j - birthTime a) div 1000000 \<le> (hi - lo) div 1000000"
      using times by (intro zdiv_mono1) simp_all
    then have "uint (age (clock j) a) = (clock j - birthTime a) div 1000000"
      using assms(3) by (intro age_nonneg times(2)) linarith
    then have "(clock j - birthTime a) div 1000000 \<le> uint ageS"
      using young by (simp add: word_less_alt)
    then have "clock j - birthTime a < (uint ageS + 1) * 1000000" by (rule micros_less)
    moreover have "t0 \<le> clock j" using assms(7) by simp
    ultimately have "t0 - (uint ageS + 1) * 1000000 < birthTime a" by linarith
    then show "key \<in> set (map (\<lambda>(now, m). pool_key (the (message_fragment ca m))) ?recent)"
      using m by force
  qed
  then have "card (fst ` set (pool ?q)) \<le> card (set (map (\<lambda>(now, m). pool_key (the (message_fragment ca m))) ?recent))"
    by (intro card_mono) simp_all
  also have "\<dots> \<le> length ?recent" using card_length [of "map (\<lambda>(now, m). pool_key (the (message_fragment ca m))) ?recent"]
    by simp
  finally have "card (fst ` set (pool ?q)) \<le> length ?recent" .
  moreover have "distinct (map fst (pool ?q))"
    using conjunct1 [OF pool_ready_tick [OF ready(1), of clock]] by (simp add: pool_ready_def)
  then have "card (fst ` set (pool ?q)) = length (pool ?q)" using distinct_card by fastforce
  ultimately show ?thesis by simp
qed

definition lost_part_ops :: "dh_op list" where
  "lost_part_ops = [SwitchPruning True, Handle 0 (fragment_message (sample_part 1 0 ''ab'' 2))]"

lemma lost_part_run: "dh_ops sample_codec sample_scopes True lost_part_ops sample_pool = ([Inr None], pruning_sample)"
proof -
  let ?f = "sample_part 1 0 ''ab'' 2"
  have "fn_num_data_parts ?f > 1" by (simp add: sample_part_def)
  moreover have "fst (pool_add True 0 ?f (setPruning True sample_pool)) = Inr None"
    by (simp add: pool_add_def finish_assembly_def assembly_new_def assembly_add_def isComplete_def
        sample_pool_def replicate_two sample_part_def setPruning_def isPruning_def Let_def)
  ultimately show ?thesis
    by (auto simp: lost_part_ops_def dh_setPruning_def pruning_sample_def
        handleMessage_fragment [OF fragment_message_carries(1)] maybeJoinFragments_def split: prod.splits)
qed

theorem pruning_bounds_pool_witness:
  "length (pool (prune_tick (\<lambda>i. 30000000) pruning_sample)) \<le> 0"
proof -
  have "timely 0 30000000 (lost_part_ops @ [PruneTick (\<lambda>i. 30000000)])" by (simp add: lost_part_ops_def)
  from pruning_bounds_pool [OF sample_pool_new this _ lost_part_run pruning_sample_facts(2), of 30000000]
  show ?thesis by (simp add: lost_part_ops_def)
qed

text \<open>The entry of an event of which some parts are missing.\<close>

lemma part_slot_entry:
  assumes "part_slot frs P (Some a)"
  shows "length (store a) = length frs \<and> \<not> isComplete a \<and> ran (asm_parts a) = P
    \<and> (\<forall>i f. asm_parts a i = Some f \<longrightarrow> f = frs ! i)"
proof -
  have a: "P \<subset> set frs" "asm_inv a" "length (store a) = length frs"
    "asm_parts a = (\<lambda>i. if i < length frs \<and> frs ! i \<in> P then Some (frs ! i) else None)"
    using assms by (simp_all add: part_slot_def)
  obtain i where "i < length frs" "frs ! i \<notin> P" using a(1) by (metis in_set_conv_nth psubset_imp_ex_mem DiffE)
  then have "i \<notin> dom (asm_parts a)" "i < length (store a)" using a(3,4) by auto
  then have "\<not> isComplete a" using isComplete_iff [OF a(2)] by blast
  moreover have "ran (asm_parts a) = P"
    using a(1) unfolding a(4) ran_def by (auto simp: in_set_conv_nth subset_iff psubset_eq)
  ultimately show ?thesis using a(3,4) by simp
qed

text \<open>C38 Without the pruning task an event that loses a part stays in the pool for ever: after any run
  without executions of the task the pool holds, for each event of which some but not all parts have arrived,
  an entry of its key with exactly the parts that have arrived. The entries are different ones, so the pool
  grows with every event that loses a part. Nothing in the library starts the task.\<close>

theorem incomplete_events_stay:
  assumes "pool_new ageS interval = Inr p" and "dh_ops ca sa dbg ops p = (rs, p')" and "never_pruned ops"
    and "distinct (map (\<lambda>frs. pool_key (frs ! 0)) lost)"
    and "\<forall>frs \<in> set lost. is_split frs \<and> parts_once ca frs ops
      \<and> set (parts_for ca (pool_key (frs ! 0)) ops) \<notin> {{}, set frs}"
  shows "(\<forall>frs \<in> set lost. \<exists>a. map_of (pool p') (pool_key (frs ! 0)) = Some a
      \<and> length (store a) = length frs \<and> \<not> isComplete a
      \<and> ran (asm_parts a) = set (parts_for ca (pool_key (frs ! 0)) ops)
      \<and> (\<forall>i f. asm_parts a i = Some f \<longrightarrow> f = frs ! i))
    \<and> length lost \<le> length (pool p')"
proof -
  have p: "pool_ready p" "pool p = []" using pool_ready_new [OF assms(1)] by simp_all
  have stays: "\<exists>a. map_of (pool p') (pool_key (frs ! 0)) = Some a
      \<and> length (store a) = length frs \<and> \<not> isComplete a
      \<and> ran (asm_parts a) = set (parts_for ca (pool_key (frs ! 0)) ops)
      \<and> (\<forall>i f. asm_parts a i = Some f \<longrightarrow> f = frs ! i)" if "frs \<in> set lost" for frs
  proof -
    let ?k = "pool_key (frs ! 0)"
    from that assms(5) have frs: "is_split frs" "set (parts_for ca ?k ops) \<noteq> {}" "set (parts_for ca ?k ops) \<noteq> set frs"
      and once: "distinct (parts_for ca ?k ops)" "set (parts_for ca ?k ops) \<subseteq> set frs - {}"
      by (auto simp: parts_once_def)
    have "part_slot frs {} (map_of (pool p) ?k)" using p(2) by (simp add: part_slot_lost)
    from kept_answers [OF frs(1) refl this p(1) once disjI1 [OF assms(3)] assms(2)] frs(3)
    have slot: "part_slot frs (set (parts_for ca ?k ops)) (map_of (pool p') ?k)" by simp
    then obtain a where "map_of (pool p') ?k = Some a"
      using frs(2) by (auto simp: part_slot_def split: option.splits)
    then show ?thesis using part_slot_entry [of frs _ a] slot by simp
  qed
  have "pool_key (frs ! 0) \<in> fst ` set (pool p')" if "frs \<in> set lost" for frs
    using stays [OF that] map_of_eq_None_iff [of "pool p'" "pool_key (frs ! 0)"] by auto
  then have "set (map (\<lambda>frs. pool_key (frs ! 0)) lost) \<subseteq> set (map fst (pool p'))" by auto
  then have "card (set (map (\<lambda>frs. pool_key (frs ! 0)) lost)) \<le> card (set (map fst (pool p')))"
    by (intro card_mono) simp_all
  also have "\<dots> \<le> length (pool p')" using card_length [of "map fst (pool p')"] by simp
  finally show ?thesis using distinct_card [OF assms(4)] stays by simp
qed

theorem incomplete_events_stay_witness:
  "(\<exists>a. map_of (pool pruning_sample) (pool_key (two_parts ! 0)) = Some a
      \<and> length (store a) = 2 \<and> \<not> isComplete a \<and> ran (asm_parts a) = {two_parts ! 0})
    \<and> 1 \<le> length (pool pruning_sample)"
proof -
  let ?k = "pool_key (two_parts ! 0)"
  have parts: "parts_for sample_codec ?k lost_part_ops = [two_parts ! 0]"
    by (simp add: lost_part_ops_def two_parts_def)
  have two: "set two_parts = {two_parts ! 0, two_parts ! 1}" "two_parts ! 0 \<noteq> two_parts ! 1" "length two_parts = 2"
    by (simp_all add: two_parts_def sample_defs)
  have lost: "\<forall>frs \<in> set [two_parts]. is_split frs \<and> parts_once sample_codec frs lost_part_ops
      \<and> set (parts_for sample_codec (pool_key (frs ! 0)) lost_part_ops) \<notin> {{}, set frs}"
    using two two_parts_facts(2) parts by (auto simp: parts_once_def)
  have never: "never_pruned lost_part_ops" by (simp add: lost_part_ops_def)
  show ?thesis
    using incomplete_events_stay [OF sample_pool_new lost_part_run never _ lost] parts two(3) by auto
qed

end
