(* ===== verification/Malformed.thy ===== *)
theory Malformed
  imports PoolSize
begin

text \<open>
  What the receiving path does with parts that are not well formed: for every message, after any messages
  and any pruning, which of them are undefined behaviour, fail an assertion or are refused. Nothing checks
  the part number of a fragment before it indexes the vector; apart from that the path is safe.
\<close>

section \<open>One slot\<close>

text \<open>An entry is never complete, whatever has been added to it.\<close>

definition slot_open :: "'m assembly option \<Rightarrow> bool" where
  "slot_open s \<longleftrightarrow> (\<forall>a. s = Some a \<longrightarrow> asm_inv a \<and> \<not> isComplete a)"

text \<open>The size of the vector a part is stored in: the first part of an event determines it.\<close>

definition slot_size :: "'m fragmented \<Rightarrow> 'm assembly option \<Rightarrow> nat" where
  "slot_size f s = (case s of None \<Rightarrow> frag_total f | Some a \<Rightarrow> length (store a))"

definition slot_has :: "nat \<Rightarrow> 'm assembly option \<Rightarrow> bool" where
  "slot_has i s \<longleftrightarrow> (\<exists>a. s = Some a \<and> asm_parts a i \<noteq> None)"

lemma slot_finish_open:
  assumes "asm_inv a" and "store a \<noteq> []"
  shows "\<exists>x. fst (slot_finish dbg a) = Inr x \<and> slot_open (snd (slot_finish dbg a))"
  using slot_finish_ok [OF assms, of dbg] assms(1) by (auto simp: slot_open_def)

text \<open>An assembly takes every part whose place is there and free, also one that disagrees about the number
  of parts, as long as no assertion is compiled in.\<close>

lemma assembly_add_free:
  assumes "asm_inv a" and "frag_index f < length (store a)" and "asm_parts a (frag_index f) = None"
    and "dbg \<Longrightarrow> frag_total f = length (store a)"
  obtains a' b where "assembly_add dbg f a = (Inr b, a')" and "asm_inv a'" and "store a' \<noteq> []"
proof -
  let ?a = "a\<lparr>store := (store a)[frag_index f := Some f], receivedParts := receivedParts a + 1\<rparr>"
  have none: "store a ! frag_index f = None" using assms(2,3) by (simp add: asm_parts_def)
  show thesis
  proof (rule that [of _ ?a])
    show "assembly_add dbg f a = (Inr (isComplete ?a), ?a)"
      using assms(2,4) none by (auto simp: assembly_add_def frag_defs Let_def)
    show "asm_inv ?a" by (rule asm_inv_store [OF assms(1,2) none])
    show "store ?a \<noteq> []" using assms(2) by auto
  qed
qed

text \<open>Everything a fragment can do to the slot of its event.\<close>

lemma slot_add_table:
  assumes "slot_open s"
  shows "if dbg \<and> frag_total f \<noteq> slot_size f s then slot_add dbg now f s = (Inl AssertionFailure, s)
    else if slot_size f s \<le> frag_index f then slot_add dbg now f s = (Inl UndefinedBehaviour, s)
    else if slot_has (frag_index f) s
      then slot_add dbg now f s = (Inl (ProtocolException (twice_text f)), s)
    else (\<exists>x. fst (slot_add dbg now f s) = Inr x) \<and> slot_open (snd (slot_add dbg now f s))"
proof (cases s)
  case None
  show ?thesis
  proof (cases "frag_total f \<le> frag_index f")
    case True
    then have "assembly_new dbg now f = Inl UndefinedBehaviour"
      by (simp add: assembly_new_def assembly_add_def frag_defs Let_def)
    then show ?thesis using None True by (simp add: slot_add_def slot_size_def)
  next
    case False
    then have "frag_index f < frag_total f" by simp
    then obtain a where a: "assembly_new dbg now f = Inr a" "asm_inv a" "length (store a) = frag_total f"
      by (rule assembly_new_ok)
    then have "store a \<noteq> []" using False by auto
    from slot_finish_open [OF a(2) this, of dbg] show ?thesis
      using None False a(1) by (simp add: slot_add_def slot_size_def slot_has_def)
  qed
next
  case (Some a)
  have inv: "asm_inv a" using assms Some by (simp add: slot_open_def)
  consider (mismatch) "dbg" "frag_total f \<noteq> length (store a)"
    | (behind) "dbg \<Longrightarrow> frag_total f = length (store a)" "length (store a) \<le> frag_index f"
    | (twice) "dbg \<Longrightarrow> frag_total f = length (store a)" "frag_index f < length (store a)"
        "asm_parts a (frag_index f) \<noteq> None"
    | (free) "dbg \<Longrightarrow> frag_total f = length (store a)" "frag_index f < length (store a)"
        "asm_parts a (frag_index f) = None"
    by fastforce
  then show ?thesis
  proof cases
    case mismatch
    then show ?thesis using Some
      by (simp add: slot_add_def slot_size_def assembly_add_def frag_defs Let_def)
  next
    case behind
    then have "assembly_add dbg f a = (Inl UndefinedBehaviour, a)"
      by (auto simp: assembly_add_def frag_defs Let_def)
    then show ?thesis using Some behind by (auto simp: slot_add_def slot_size_def)
  next
    case twice
    from assembly_add_twice [OF twice(2,3,1)] show ?thesis
      using Some twice by (auto simp: slot_add_def slot_size_def slot_has_def)
  next
    case free
    then obtain a' b where a': "assembly_add dbg f a = (Inr b, a')" "asm_inv a'" "store a' \<noteq> []"
      using assembly_add_free [OF inv free(2,3), of dbg] by metis
    from slot_finish_open [OF a'(2,3), of dbg] show ?thesis
      using Some free a'(1) by (auto simp: slot_add_def slot_size_def slot_has_def)
  qed
qed

section \<open>The pool during a run\<close>

definition pool_open :: "'m assembly_pool \<Rightarrow> bool" where
  "pool_open p \<longleftrightarrow> pool_ready p \<and> (\<forall>key. slot_open (map_of (pool p) key))"

lemma pool_open_add:
  assumes "pool_open p"
  shows "pool_open (snd (pool_add dbg now f p))"
proof -
  let ?s = "map_of (pool p) (pool_key f)"
  have "slot_open ?s" using assms by (simp add: pool_open_def)
  then have "slot_open (snd (slot_add dbg now f ?s))"
    using slot_add_table [of ?s dbg f now] by (auto split: if_splits)
  then show ?thesis
    using assms pool_add_refines_slot [of dbg now f p] pool_add_distinct [of p dbg now f]
    by (auto simp: pool_open_def pool_ready_def pool_add_settings)
qed

lemma pool_open_handle:
  "pool_open p \<Longrightarrow> pool_open (snd (handleMessage ca sa dbg now m p))"
  using handleMessage_pool [of ca sa dbg now m p] pool_open_add by metis

lemma pool_open_tick: "pool_open p \<Longrightarrow> pool_open (prune_tick clock p)"
  using prune_tick_slot [of p clock] pool_ready_tick [of p clock]
  unfolding pool_open_def slot_open_def by (metis option.distinct(1))

lemma pool_open_run:
  "pool_open p \<Longrightarrow> dh_ops ca sa dbg ops p = (rs, p') \<Longrightarrow> pool_open p'"
proof (induction ca sa dbg ops p arbitrary: rs rule: dh_ops.induct)
  case (2 ca sa dbg now m ops p)
  obtain r p1 where h: "handleMessage ca sa dbg now m p = (r, p1)" by (metis surj_pair)
  obtain rs1 where "dh_ops ca sa dbg ops p1 = (rs1, p')" using 2(3) h by (auto split: prod.splits)
  then show ?case using 2(1) [OF h [symmetric]] pool_open_handle [OF 2(2), of ca sa dbg now m] h by simp
next
  case (4 ca sa dbg b ops p)
  then show ?case using pool_ready_setPruning [of p b] by (simp add: pool_open_def)
qed (simp_all add: pool_open_tick)

section \<open>Messages\<close>

text \<open>The parsing constructor of \<open>Scope\<close> throws \<open>std::invalid_argument\<close> only.\<close>

definition scopes_throw :: "'sc scope_api \<Rightarrow> bool" where
  "scopes_throw sa \<longleftrightarrow> (\<forall>s ex. scope_parse sa s = Inl ex \<longrightarrow> (\<exists>t. ex = InvalidArgument t))"

text \<open>C29 Which messages break the receiving path. After any messages (also malformed ones), executions of
  the pruning task and calls of \<open>setPruning\<close>, handling a message is undefined behaviour exactly if it
  carries a part of several whose number is behind the vector of its event (of the size the event's first
  part has given, or the part itself if it is the first), and, where assertions are compiled in, does not
  disagree about the number of parts; disagreeing is exactly what fails the assertion. Handling throws a
  \<open>ProtocolException\<close> exactly for a part that is there already. In these cases the pool stays as it was; no
  other message, and no null pointer in a vector, can break it.\<close>

theorem part_number_out_of_range:
  fixes ca :: "'m codec_api"
  assumes "pool_new ageS interval = Inr p0" and "dh_ops ca sa dbg ops p0 = (rs, p)" and "scopes_throw sa"
    and "handleMessage ca sa dbg now m p = (r, p')"
  shows "(r = Inl UndefinedBehaviour \<longleftrightarrow> (\<exists>f. message_fragment ca m = Some f \<and> 1 < frag_total f
        \<and> slot_size f (map_of (pool p) (pool_key f)) \<le> frag_index f
        \<and> (dbg \<longrightarrow> frag_total f = slot_size f (map_of (pool p) (pool_key f)))))
    \<and> (r = Inl AssertionFailure \<longleftrightarrow> (\<exists>f. message_fragment ca m = Some f \<and> 1 < frag_total f
        \<and> dbg \<and> frag_total f \<noteq> slot_size f (map_of (pool p) (pool_key f))))
    \<and> ((\<exists>t. r = Inl (ProtocolException t)) \<longleftrightarrow> (\<exists>f. message_fragment ca m = Some f \<and> 1 < frag_total f
        \<and> frag_index f < slot_size f (map_of (pool p) (pool_key f))
        \<and> slot_has (frag_index f) (map_of (pool p) (pool_key f))
        \<and> (dbg \<longrightarrow> frag_total f = slot_size f (map_of (pool p) (pool_key f)))))
    \<and> (r \<in> {Inl UndefinedBehaviour, Inl AssertionFailure} \<or> (\<exists>t. r = Inl (ProtocolException t)) \<longrightarrow>
        map_of (pool p') = map_of (pool p))"
proof (cases "message_fragment ca m")
  case None
  then show ?thesis using assms(4) by (auto simp: handleMessage_no_fragment split: if_splits)
next
  case (Some f)
  let ?s = "map_of (pool p) (pool_key f)"
  have "pool_open p0" using pool_ready_new [OF assms(1)] by (simp add: pool_open_def slot_open_def)
  from pool_open_run [OF this assms(2)] have opened: "slot_open ?s" by (simp add: pool_open_def)
  have many: "fn_num_data_parts f > 1 \<longleftrightarrow> 1 < frag_total f" by (simp add: frag_total_def word_less_nat_alt)
  have scope: "incoming_notification sa n \<noteq> Inl UndefinedBehaviour" "incoming_notification sa n \<noteq> Inl AssertionFailure"
    "incoming_notification sa n \<noteq> Inl (ProtocolException t)" for n :: "'m notification" and t
    using assms(3) by (auto simp: incoming_notification_def scopes_throw_def split: sum.splits)
  show ?thesis
  proof (cases "1 < frag_total f")
    case False
    then have "r = incoming_notification sa (fn_notification f)"
      using assms(4) many by (auto simp: handleMessage_fragment [OF Some] maybeJoinFragments_def)
    then show ?thesis using Some False scope by simp
  next
    case True
    obtain q s' where add: "slot_add dbg now f ?s = (q, s')" by (metis surj_pair)
    have r: "r = incoming_result sa q" "map_of (pool p') = (map_of (pool p))(pool_key f := s')"
      using assms(4) True many add pool_add_refines_slot [of dbg now f p]
      by (auto simp: handleMessage_fragment [OF Some] maybeJoinFragments_def split: prod.splits)
    have fine: "incoming_result sa (Inr x) \<notin> {Inl UndefinedBehaviour, Inl AssertionFailure}"
      "incoming_result sa (Inr x) \<noteq> Inl (ProtocolException t)" for x :: "'m notification option" and t
      using scope by (cases x; simp)+
    show ?thesis
      using slot_add_table [OF opened, of dbg f now] True Some r fine unfolding add
      by (auto split: if_splits)
  qed
qed

text \<open>A part 7 of 2 arrives for an event of which part 0 is pending.\<close>

theorem part_number_out_of_range_witness:
  "fst (handleMessage sample_codec sample_scopes True 1 (fragment_message (sample_part 1 7 ''cd'' 2)) pruning_sample)
    = Inl UndefinedBehaviour"
proof -
  let ?f = "sample_part 1 7 ''cd'' 2"
  obtain r p' where h: "handleMessage sample_codec sample_scopes True 1 (fragment_message ?f) pruning_sample = (r, p')"
    by (metis surj_pair)
  have throws: "scopes_throw sample_scopes" by (simp add: scopes_throw_def sample_scopes_def)
  have "message_fragment sample_codec (fragment_message ?f) = Some ?f" by (rule fragment_message_carries)
  moreover have "slot_size ?f (map_of (pool pruning_sample) (pool_key ?f)) = 2"
    using pruning_sample_facts(3) by (simp add: slot_size_def pool_key_def sample_part_def)
  ultimately show ?thesis
    using part_number_out_of_range [OF sample_pool_new lost_part_run throws h] h
    by (simp add: frag_defs sample_part_def)
qed

end
