(* ===== verification/Contracts.thy ===== *)
theory Contracts
  imports SpreadConnection PoolSafety
begin

text \<open>
  The contracts the headers document, as specifications, and that the code refines them.

  \<open>SpreadConnection.h\<close>: a connection is active or not and is a member of groups; each member function
  says which exceptions it throws and when. \<open>Assembly.h\<close>: the pool collects the parts of each event;
  a part received twice is refused, the part that completes an event returns the joined event and
  removes it.
\<close>

section \<open>The contract of a connection\<close>

text \<open>What a client sees: whether the connection is active, its groups, and the messages it has sent.\<close>

record conn_view =
  v_active :: bool
  v_groups :: "string set"
  v_sent :: "(string list \<times> string) list"

definition see_conn :: "conn_state \<Rightarrow> conn_view" where
  "see_conn s = \<lparr>v_active = connected (fst s), v_groups = conn_members s,
     v_sent = map (\<lambda>(gs, service, d). (gs, d)) (sent (snd s))\<rparr>"

definition fresh_view :: conn_view where
  "fresh_view = \<lparr>v_active = False, v_groups = {}, v_sent = []\<rparr>"

text \<open>The exceptions by the names the documentation uses.\<close>

fun illegal_state :: "exn \<Rightarrow> bool" where
  "illegal_state (IllegalStateException t) = True"
| "illegal_state e = False"

fun comm_error :: "exn \<Rightarrow> bool" where
  "comm_error (CommException t) = True"
| "comm_error e = False"

text \<open>
  The contract of a call with its result: \<open>activate\<close> throws \<open>IllegalStateException\<close> when already active,
  every other operation when not active, and then nothing has changed. Otherwise an operation succeeds with
  its effect or, where this is documented, throws \<open>CommException\<close> without it, \<open>receive\<close> also
  \<open>boost::thread_interrupted\<close>. The messages are those of \<open>send\<close>, apart from the empty ones
  \<open>interruptReceive\<close> sends to the private group.
\<close>

fun conn_contract :: "conn_op \<Rightarrow> conn_view \<Rightarrow> exn + unit \<Rightarrow> conn_view \<Rightarrow> bool" where
  "conn_contract CActivate v r v' = (case r of
     Inl e \<Rightarrow> v' = v \<and> (if v_active v then illegal_state e else comm_error e)
   | Inr _ \<Rightarrow> \<not> v_active v \<and> v' = v\<lparr>v_active := True\<rparr>)"
| "conn_contract CDeactivate v r v' = (case r of
     Inl e \<Rightarrow> v' = v \<and> \<not> v_active v \<and> illegal_state e
   | Inr _ \<Rightarrow> v_active v \<and> v' = v\<lparr>v_active := False, v_groups := {}\<rparr>)"
| "conn_contract (CJoin g) v r v' = (case r of
     Inl e \<Rightarrow> v' = v \<and> (if v_active v then comm_error e else illegal_state e)
   | Inr _ \<Rightarrow> v_active v \<and> v' = v\<lparr>v_groups := insert g (v_groups v)\<rparr>)"
| "conn_contract (CLeave g) v r v' = (case r of
     Inl e \<Rightarrow> v' = v \<and> (if v_active v then comm_error e else illegal_state e)
   | Inr _ \<Rightarrow> v_active v \<and> v' = v\<lparr>v_groups := v_groups v - {g}\<rparr>)"
| "conn_contract (CReceive m) v r v' = (v' = v \<and> (case r of
     Inl e \<Rightarrow> (if v_active v then comm_error e \<or> e = ThreadInterrupted else illegal_state e)
   | Inr _ \<Rightarrow> v_active v))"
| "conn_contract (CSend m) v r v' = (case r of
     Inl e \<Rightarrow> v' = v \<and> (if v_active v then comm_error e else illegal_state e)
   | Inr _ \<Rightarrow> v_active v \<and> v' = v\<lparr>v_sent := (mgroups m, mdata m) # v_sent v\<rparr>)"
| "conn_contract CInterrupt v r v' = (case r of
     Inl e \<Rightarrow> v' = v \<and> \<not> v_active v \<and> illegal_state e
   | Inr _ \<Rightarrow> v_active v \<and> (v' = v \<or> (\<exists>private. v' = v\<lparr>v_sent := ([private], []) # v_sent v\<rparr>)))"

text \<open>What the contract expects of the client: names the C library can read, and a message with 1 to
  100 groups that fit.\<close>

fun conn_pre :: "nat \<Rightarrow> conn_op \<Rightarrow> bool" where
  "conn_pre maxg (CJoin g) = nul_free g"
| "conn_pre maxg (CLeave g) = nul_free g"
| "conn_pre maxg (CSend m) = (message_wf maxg m \<and> mgroups m \<noteq> []
     \<and> length (mgroups m) \<le> SPREAD_MAX_GROUPS \<and> (\<forall>g \<in> set (mgroups m). nul_free g))"
| "conn_pre maxg op = True"

text \<open>What the manual of the library says of \<open>SP_receive\<close> with arrays of the sizes \<open>receive\<close> passes:
  a message is regular or about membership, and the groups fit.\<close>

definition spread_receives :: "spread_api \<Rightarrow> bool" where
  "spread_receives api \<longleftrightarrow> 0 < MAX_GROUP_NAME api \<and> (\<forall>w mb. let rc = SP_receive api w mb in 0 \<le> rc_ret rc \<longrightarrow>
     (Is_regular_mess api (rc_service rc) \<or> Is_membership_mess api (rc_service rc))
     \<and> nat (rc_numGroups rc) \<le> SPREAD_MAX_GROUPS
     \<and> (\<forall>i < nat (rc_numGroups rc). length (c_str (rc_groups rc i)) \<le> MAX_GROUP_NAME api - 1))"

text \<open>The result of a call; \<open>receive\<close> also fills its argument.\<close>

fun conn_result :: "spread_api \<Rightarrow> bool \<Rightarrow> conn_op \<Rightarrow> conn_state \<Rightarrow> exn + unit" where
  "conn_result api dbg CActivate s = fst (conn_activate api s)"
| "conn_result api dbg CDeactivate s = fst (conn_deactivate s)"
| "conn_result api dbg (CJoin g) s = fst (conn_join api g s)"
| "conn_result api dbg (CLeave g) s = fst (conn_leave api g s)"
| "conn_result api dbg (CReceive m) s = fst (conn_receive api dbg m s)"
| "conn_result api dbg (CSend m) s = fst (conn_send api dbg m s)"
| "conn_result api dbg CInterrupt s = fst (conn_interruptReceive api s)"

section \<open>The connection refines its contract\<close>

text \<open>An inactive connection is in no group.\<close>

lemma inactive_no_groups: "conn_reachable api dbg s \<Longrightarrow> \<not> connected (fst s) \<Longrightarrow> conn_members s = {}"
proof (induction rule: conn_reachable.induct)
  case (created win32 junk h p)
  then show ?case by (simp add: conn_members_def)
next
  case (step s op)
  then show ?case
    by (cases s; cases op) (auto simp: conn_members_def conn_defs Let_def split: outcome_splits)
qed

lemma see_conn_simps:
  "see_conn (c, w) = \<lparr>v_active = connected c, v_groups = joined (mailbox c) w,
     v_sent = map (\<lambda>(gs, service, d). (gs, d)) (sent w)\<rparr>"
  by (simp add: see_conn_def conn_members_def)

lemma send_contract:
  assumes "spread_receives api" and "conn_pre (MAX_GROUP_NAME api) (CSend m)"
  shows "conn_contract (CSend m) (see_conn (c, w)) (conn_result api dbg (CSend m) (c, w))
    (see_conn (conn_apply api dbg (CSend m) (c, w)))"
proof (cases "connected c")
  case True
  have maxg: "0 < MAX_GROUP_NAME api" using assms(1) by (simp add: spread_receives_def)
  have pre: "message_wf (MAX_GROUP_NAME api) m" "mgroups m \<noteq> []" "length (mgroups m) \<le> SPREAD_MAX_GROUPS"
    "\<forall>g \<in> set (mgroups m). nul_free g" using assms(2) by simp_all
  have fill: "fill_groupNames (MAX_GROUP_NAME api) dbg 0 (mgroups m) = Inr (mgroups m)"
    using fill_groupNames_ok [of 0 "mgroups m" "MAX_GROUP_NAME api" dbg] pre
      message_wf_less [OF pre(1) maxg] map_c_str_nul_free [of "mgroups m"] by simp
  show ?thesis
  proof (cases "length (mgroups m) = 1")
    case one: True
    then obtain g where "mgroups m = [g]" by (auto simp: length_Suc_conv)
    with True pre message_wf_less [OF pre(1) maxg, of g] show ?thesis
      by (auto simp: conn_send_def send_result_def message_accessors Let_def see_conn_simps)
  next
    case False
    with True pre(2) fill show ?thesis
      by (auto simp: conn_send_def send_result_def message_accessors Let_def see_conn_simps)
  qed
qed (simp add: conn_send_def see_conn_simps)

lemma spread_receivesD:
  assumes "spread_receives api" and "0 \<le> rc_ret (SP_receive api w mb)"
  shows "Is_regular_mess api (rc_service (SP_receive api w mb))
      \<or> Is_membership_mess api (rc_service (SP_receive api w mb))"
    and "nat (rc_numGroups (SP_receive api w mb)) \<le> SPREAD_MAX_GROUPS"
    and "\<forall>i < nat (rc_numGroups (SP_receive api w mb)).
      length (c_str (rc_groups (SP_receive api w mb) i)) \<le> MAX_GROUP_NAME api - 1"
proof -
  from spec [OF spec [OF conjunct2 [OF assms(1) [unfolded spread_receives_def]], of w], of mb] assms(2)
  show "Is_regular_mess api (rc_service (SP_receive api w mb))
      \<or> Is_membership_mess api (rc_service (SP_receive api w mb))"
    and "nat (rc_numGroups (SP_receive api w mb)) \<le> SPREAD_MAX_GROUPS"
    and "\<forall>i < nat (rc_numGroups (SP_receive api w mb)).
      length (c_str (rc_groups (SP_receive api w mb) i)) \<le> MAX_GROUP_NAME api - 1"
    by (simp_all add: Let_def)
qed

lemma receive_contract:
  assumes "spread_receives api"
  shows "conn_contract (CReceive m) (see_conn (c, w)) (conn_result api dbg (CReceive m) (c, w))
    (see_conn (conn_apply api dbg (CReceive m) (c, w)))"
proof -
  define rc where "rc = SP_receive api w (mailbox c)"
  define m0 where "m0 = setData (take (nat (rc_ret rc)) (rc_buf rc)) (setType REGULAR m)"
  define gs where "gs = map (\<lambda>i. c_str (rc_groups rc i)) [0..<nat (rc_numGroups rc)]"
  obtain r m1 where groups: "receive_groups (MAX_GROUP_NAME api) (nat (rc_numGroups rc)) 0 (rc_groups rc) m0 = (r, m1)"
    by (metis surj_pair)
  have r: "r = Inr ()" if ret: "0 \<le> rc_ret rc"
  proof -
    note lib = spread_receivesD [OF assms ret [unfolded rc_def], folded rc_def]
    have "(r, m1) = addGroups (MAX_GROUP_NAME api) gs m0"
      using receive_groups_ok [of 0 "nat (rc_numGroups rc)" "MAX_GROUP_NAME api" "rc_groups rc" m0] lib(2) groups
      by (simp add: gs_def)
    moreover have "length g \<le> MAX_GROUP_NAME api - 1" if "g \<in> set gs" for g
      using that lib(3) by (auto simp: gs_def)
    from addGroups_ok [OF this, of _ m0] have "\<exists>m'. addGroups (MAX_GROUP_NAME api) gs m0 = (Inr (), m')"
      by blast
    ultimately show ?thesis by auto
  qed
  have result: "conn_receive api dbg m (c, w) = (if \<not> connected c
      then (Inl (IllegalStateException ''Connection is not active.''), (m, c, w))
      else if rc_ret rc < 0 then (Inl (CommException (''Spread receive error: ''
        @ spreadErrorString api (rc_ret rc))), (m, c, SpReceive (mailbox c) rc # w))
      else if Is_regular_mess api (rc_service rc) then
        (if rc_numGroups rc = 1 \<and> c_str (rc_groups rc 0) = privateGroup c
         then (Inl ThreadInterrupted, (m, c, SpReceive (mailbox c) rc # w))
         else (r, (m1, c, SpReceive (mailbox c) rc # w)))
      else (Inr (), (setType MEMBERSHIP m, c, SpReceive (mailbox c) rc # w)))"
    using spread_receivesD(1) [OF assms, of w "mailbox c", folded rc_def] groups
    by (auto simp: conn_receive_def Let_def rc_def m0_def)
  have see: "see_conn (c, SpReceive (mailbox c) rc # w) = see_conn (c, w)" by (simp add: see_conn_simps)
  have active: "v_active (see_conn (c, w)) = connected c" by (simp add: see_conn_simps)
  show ?thesis using r by (simp add: result see active split: sum.splits)
qed

lemma conn_step_contract:
  assumes "spread_receives api" and "conn_reachable api dbg (c, w)" and "conn_pre (MAX_GROUP_NAME api) op"
  shows "conn_contract op (see_conn (c, w)) (conn_result api dbg op (c, w)) (see_conn (conn_apply api dbg op (c, w)))"
proof -
  have none: "joined (mailbox c) w = {}" if "\<not> connected c"
    using inactive_no_groups [OF assms(2)] that by (simp add: conn_members_def)
  show ?thesis
  proof (cases op)
    case (CSend m)
    then show ?thesis using send_contract [OF assms(1)] assms(3) by simp
  next
    case (CReceive m)
    then show ?thesis using receive_contract [OF assms(1)] by simp
  qed (use none assms(3) in \<open>auto simp: conn_activate_def conn_deactivate_def conn_join_def conn_leave_def
      conn_interruptReceive_def see_conn_simps Let_def split: prod.splits\<close>)
qed

text \<open>C8 A connection refines the contract of its header. A new connection is inactive, in no group and has
  sent nothing. In every state a client can bring it into, each call that meets the expectations has a
  result and an effect the documentation allows: \<open>IllegalStateException\<close> exactly in the wrong state and
  without effect, \<open>CommException\<close> or the interruption only where they are documented and without effect on
  groups and sent messages, otherwise success with the documented effect, in debug and release builds. And
  it calls the library only inside a session.\<close>

theorem connection_refines_contract:
  assumes "spread_receives api" and "conn_reachable api dbg s" and "conn_pre (MAX_GROUP_NAME api) op"
  shows "see_conn (conn_new win32 junk h p, []) = fresh_view
    \<and> conn_contract op (see_conn s) (conn_result api dbg op s) (see_conn (conn_apply api dbg op s))
    \<and> well_used (ACCEPT_SESSION api) (snd s)"
proof -
  obtain c w where s: "s = (c, w)" by (cases s)
  have "see_conn (conn_new win32 junk h p, []) = fresh_view"
    by (simp add: see_conn_simps fresh_view_def conn_new_def)
  then show ?thesis
    using conn_step_contract [OF assms(1) assms(2) [unfolded s] assms(3)]
      conn_reachable_inv [OF assms(2)] by (simp add: s conn_inv_def)
qed

theorem connection_refines_contract_witness:
  "conn_contract (CJoin ''g'') (fresh_view\<lparr>v_active := True\<rparr>) (Inr ())
     (see_conn (conn_apply sample_api True (CJoin ''g'')
       (conn_apply sample_api True CActivate (conn_new False 0 ''localhost'' 4803, []))))"
proof -
  let ?s = "conn_apply sample_api True CActivate (conn_new False 0 ''localhost'' 4803, [])"
  have lib: "spread_receives sample_api"
    by (simp add: spread_receives_def sample_api_def sample_message_def SPREAD_MAX_GROUPS_def c_str_def Let_def)
  have reach: "conn_reachable sample_api True ?s" by (intro conn_reachable.intros)
  have pre: "conn_pre (MAX_GROUP_NAME sample_api) (CJoin ''g'')" by (simp add: nul_free_def)
  have "see_conn ?s = fresh_view\<lparr>v_active := True\<rparr>"
    by (simp add: conn_activate_def sample_api_def conn_new_def see_conn_simps fresh_view_def)
  moreover have "conn_result sample_api True (CJoin ''g'') ?s = Inr ()"
    by (simp add: conn_activate_def conn_join_def sample_api_def conn_new_def)
  ultimately show ?thesis
    using connection_refines_contract [OF lib reach pre, of False 0 "''h''" 1] by (simp del: conn_contract.simps)
qed

section \<open>The contract of the pool\<close>

text \<open>What the pool has collected: the parts of each event, by the key of the event.\<close>

type_synonym 'm parts_view = "string \<Rightarrow> nat \<Rightarrow> 'm fragmented option"

definition see_pool :: "'m assembly_pool \<Rightarrow> 'm parts_view" where
  "see_pool p = (\<lambda>key. case map_of (pool p) key of None \<Rightarrow> Map.empty | Some a \<Rightarrow> asm_parts a)"

text \<open>A part the pool already has is refused; the last missing part returns the parts joined in order and
  removes them; any other part is kept.\<close>

definition pool_contract ::
  "'m fragmented \<Rightarrow> 'm parts_view \<Rightarrow> (exn + 'm notification option) \<times> 'm parts_view" where
  "pool_contract f V =
     (let key = pool_key f; parts = (V key)(frag_index f \<mapsto> f) in
      if V key (frag_index f) \<noteq> None then (Inl (ProtocolException (twice_text f)), V)
      else if \<forall>i < frag_total f. parts i \<noteq> None
        then (Inr (Some (join_parts (map (\<lambda>i. the (parts i)) [0..<frag_total f]))), V(key := Map.empty))
      else (Inr None, V(key := parts)))"

lemma slot_finish_contract:
  assumes "asm_inv a" and "store a \<noteq> []"
  shows "slot_finish dbg a = (if \<forall>i < length (store a). asm_parts a i \<noteq> None
    then (Inr (Some (join_parts (map (\<lambda>i. the (asm_parts a i)) [0..<length (store a)]))), None)
    else (Inr None, Some a))"
proof -
  have "isComplete a \<longleftrightarrow> (\<forall>i < length (store a). asm_parts a i \<noteq> None)"
    using isComplete_iff [OF assms(1)] by (auto simp: dom_def asm_parts_def split: if_splits)
  moreover have "map the (store a) = map (\<lambda>i. the (asm_parts a i)) [0..<length (store a)]"
    by (intro nth_equalityI) (simp_all add: asm_parts_def)
  ultimately show ?thesis using slot_finish_ok [OF assms, of dbg] by auto
qed

definition see_slot :: "'m assembly option \<Rightarrow> nat \<Rightarrow> 'm fragmented option" where
  "see_slot s = (case s of None \<Rightarrow> Map.empty | Some a \<Rightarrow> asm_parts a)"

lemma see_slot_simps [simp]: "see_slot None = Map.empty" "see_slot (Some a) = asm_parts a"
  by (simp_all add: see_slot_def)

lemma slot_add_contract:
  assumes ok: "frag_ok N f" and inv: "\<And>a. s = Some a \<Longrightarrow> slot_inv N (pool_key f) a"
  shows "map_prod id see_slot (slot_add dbg now f s) =
    (let parts = (see_slot s)(frag_index f \<mapsto> f) in
     if see_slot s (frag_index f) \<noteq> None then (Inl (ProtocolException (twice_text f)), see_slot s)
     else if \<forall>i < frag_total f. parts i \<noteq> None
       then (Inr (Some (join_parts (map (\<lambda>i. the (parts i)) [0..<frag_total f]))), Map.empty)
     else (Inr None, parts))"
proof -
  have lt: "frag_index f < frag_total f" and N: "frag_total f = N (pool_key f)"
    using ok by (simp_all add: frag_ok_def)
  have finish: "map_prod id see_slot (slot_finish dbg a) = (if \<forall>i < frag_total f. asm_parts a i \<noteq> None
      then (Inr (Some (join_parts (map (\<lambda>i. the (asm_parts a i)) [0..<frag_total f]))), Map.empty)
      else (Inr None, asm_parts a))" if "asm_inv a" and "length (store a) = frag_total f" for a
  proof -
    have "store a \<noteq> []" using lt that(2) by auto
    then show ?thesis using slot_finish_contract [OF that(1), of dbg] that(2) by simp
  qed
  show ?thesis
  proof (cases s)
    case None
    from assembly_new_ok [OF lt, of dbg now]
    obtain a where "assembly_new dbg now f = Inr a" "asm_inv a" "length (store a) = frag_total f"
      "asm_parts a = [frag_index f \<mapsto> f]" by blast
    with finish [of a] None show ?thesis by (simp add: slot_add_def Let_def)
  next
    case (Some a)
    then have a: "asm_inv a" "length (store a) = frag_total f" using inv N by (auto simp: slot_inv_def)
    show ?thesis
    proof (cases "asm_parts a (frag_index f) = None")
      case True
      from assembly_add_new [OF a(1) _ _ True, of dbg] lt a(2)
      obtain b where "assembly_add dbg f a = (Inr (isComplete b), b)" "asm_inv b"
        "length (store b) = length (store a)" "asm_parts b = (asm_parts a)(frag_index f \<mapsto> f)" by metis
      with finish [of b] Some True a show ?thesis by (simp add: slot_add_def Let_def)
    next
      case False
      then have "assembly_add dbg f a = (Inl (ProtocolException (twice_text f)), a)"
        using lt a(2) by (intro assembly_add_twice) simp_all
      then show ?thesis using Some False by (simp add: slot_add_def Let_def)
    qed
  qed
qed

text \<open>C13 The pool refines the contract of \<open>AssemblyPool::add\<close>. Seen as the parts it has collected, every
  reachable pool does with a well-formed part exactly what the header says: a part received twice throws
  \<open>ProtocolException\<close> and changes nothing, the part that completes an event returns the joined event and
  removes all its parts, any other part is kept and nothing is returned; the other events are untouched.
  This holds in debug and release builds, whether or not pruning is on, at any time.\<close>

theorem pool_refines_contract:
  assumes "pool_reachable dbg N p" and "frag_ok N f"
  shows "map_prod id see_pool (pool_add dbg now f p) = pool_contract f (see_pool p)"
proof -
  let ?s = "map_of (pool p) (pool_key f)"
  obtain r p' where add: "pool_add dbg now f p = (r, p')" by (metis surj_pair)
  obtain q s' where slot: "slot_add dbg now f ?s = (q, s')" by (metis surj_pair)
  from pool_add_slot [OF add] slot
  have r: "r = q" and p': "map_of (pool p') = (map_of (pool p))(pool_key f := s')" by simp_all
  have see: "see_pool p = (\<lambda>key. see_slot (map_of (pool p) key))"
    and see': "see_pool p' = (see_pool p)(pool_key f := see_slot s')"
    by (auto simp: see_pool_def see_slot_def p' fun_eq_iff)
  have "slot_inv N (pool_key f) a" if "?s = Some a" for a
    using pool_reachable_inv [OF assms(1)] that by (simp add: pool_inv_def)
  from slot_add_contract [OF assms(2) this, where s = ?s and dbg = dbg and now = now]
  have "(q, see_slot s') = (let parts = (see_pool p (pool_key f))(frag_index f \<mapsto> f) in
     if see_pool p (pool_key f) (frag_index f) \<noteq> None
       then (Inl (ProtocolException (twice_text f)), see_pool p (pool_key f))
     else if \<forall>i < frag_total f. parts i \<noteq> None
       then (Inr (Some (join_parts (map (\<lambda>i. the (parts i)) [0..<frag_total f]))), Map.empty)
     else (Inr None, parts))" unfolding see slot by (simp only: map_prod_simp id_apply)
  then show ?thesis
    by (auto simp: add r see' pool_contract_def Let_def split: if_splits)
qed

theorem pool_refines_contract_witness:
  "map_prod id see_pool (pool_add True 3 (sample_part 1 0 ''ab'' 2) sample_pool)
     = (Inr None, (\<lambda>key. Map.empty)(pool_key (sample_part 1 0 ''ab'' 2) := [0 \<mapsto> sample_part 1 0 ''ab'' 2]))"
proof -
  have "see_pool sample_pool = (\<lambda>key. Map.empty)" by (simp add: see_pool_def sample_pool_def)
  with pool_refines_contract [OF pool_reachable.created [OF sample_pool_new] sample_frag_ok, of True 3]
  have "map_prod id see_pool (pool_add True 3 (sample_part 1 0 ''ab'' 2) sample_pool)
      = pool_contract (sample_part 1 0 ''ab'' 2) (\<lambda>key. Map.empty)" by simp
  moreover have "frag_index (sample_part 1 0 ''ab'' 2) = 0" "frag_total (sample_part 1 0 ''ab'' 2) = 2"
    by (simp_all add: frag_defs sample_part_def)
  moreover have "\<not> (\<forall>i < (2 :: nat). [0 \<mapsto> sample_part 1 0 ''ab'' 2] i \<noteq> None)"
    by (simp add: numeral_2_eq_2 All_less_Suc)
  ultimately show ?thesis by (simp only: pool_contract_def Let_def if_False simp_thms)
qed

end
