(* ===== verification/BusThreads.thy ===== *)
theory BusThreads
  imports BusSession
begin

text \<open>
  The threads around one \<open>BusImpl\<close>. The receiver's thread runs the loop of \<open>ReceiverTask\<close>, application
  threads use the bus and let go of it, and whoever drops the last \<open>shared_ptr\<close> runs the destructor,
  which ends the receiver (\<open>BusImpl::deactivate\<close>): it sets the flag of the task, wakes it with a
  message to the connection's own private group, waits for it and disconnects.

  Here these calls are taken apart into the steps between which another thread can run. What blocks
  is explicit: \<open>SP_receive\<close> while the mailbox is empty, \<open>waitDone\<close> while the task runs. The daemon
  is a thread of its own, which puts arbitrary messages into the mailbox. A schedule is a list of
  actors; an actor that is blocked does nothing, so every schedule can be run. A block under
  \<open>sinkMutex\<close> is one step.
\<close>

section \<open>State\<close>

text \<open>The parameters of the model in one record.\<close>

record ('sc, 'm, 'd, 'z) thread_env =
  te_codec :: "'m codec_api"
  te_scopes :: "'sc scope_api"
  te_spread :: spread_api
  te_debug :: bool
  te_is_comm :: "exn \<Rightarrow> bool"
  te_dispatcher :: "('d, 'sc) dispatcher_api"
  te_sinks :: "('sc, 'm, 'z) sink_ops"

text \<open>The two calls of \<open>WeakHandlerAdapter\<close>.\<close>

datatype ('sc, 'm) callback = Notify "('sc, 'm) transport_notification" | Report exn

text \<open>Where a thread is in \<open>~BusImpl\<close> and \<open>deactivate\<close>: what it does next.\<close>

datatype destructor_at =
  Entered | Cancelling | Interrupting | Waiting | Disconnecting | Destroyed | Thrown exn

text \<open>
  Where the receiver's thread is: at the test of the flag, in \<open>receive\<close>, in \<open>handleMessage\<close>, before the
  adapter locks its weak pointer, in the bus with a \<open>shared_ptr\<close> to it, before it drops this pointer,
  in the destructor of the bus or after its loop. \<open>Died ex\<close>: the process has ended, because an exception
  left \<open>execute\<close> or because some thread failed an assertion, reached undefined behaviour or called
  \<open>exit\<close>.
\<close>

datatype ('sc, 'm) receiver_at =
    Testing
  | Receiving
  | Handling spread_message
  | Calling "('sc, 'm) callback"
  | InBus "('sc, 'm) callback"
  | Leaving "('sc, 'm) callback" "exn option"
  | Destroying destructor_at
  | Ended
  | Died exn

text \<open>
  \<open>th_inbox\<close> holds what the daemon has put into the mailbox, \<open>th_posted\<close> counts the wake-up messages
  that are accepted and not there yet, \<open>th_owners\<close> the \<open>shared_ptr\<close>s of the application.
\<close>

record ('sc, 'm, 'd, 'z) threads =
  th_bus :: "('m, 'd) bus"
  th_calls :: history
  th_sinks :: "'z"
  th_inbox :: "sp_received list"
  th_posted :: nat
  th_owners :: nat
  th_receiver :: "('sc, 'm) receiver_at"
  th_destructor :: "destructor_at option"

section \<open>The destructor\<close>

text \<open>\<open>ended\<close>: the task is done, so \<open>waitDone\<close> returns.\<close>

fun destructor_step ::
  "spread_api \<Rightarrow> bool \<Rightarrow> destructor_at \<Rightarrow> ('m, 'd) bus \<times> history
     \<Rightarrow> destructor_at \<times> ('m, 'd) bus \<times> history" where
  "destructor_step api ended Entered (b, w) =
     (if bus_active b then Cancelling else Destroyed, (b, w))"
| "destructor_step api ended Cancelling (b, w) =
     (Interrupting, (b\<lparr>receiver := map_option rt_cancel (receiver b)\<rparr>, w))"
| "destructor_step api ended Interrupting (b, w) =
     (case conn_interruptReceive api (connection b, w) of
        (Inl ex, (c, w')) \<Rightarrow> (Thrown ex, (b\<lparr>connection := c\<rparr>, w'))
      | (Inr _, (c, w')) \<Rightarrow> (Waiting, (b\<lparr>connection := c\<rparr>, w')))"
| "destructor_step api ended Waiting (b, w) = (if ended then Disconnecting else Waiting, (b, w))"
| "destructor_step api ended Disconnecting (b, w) =
     (case bus_deactivate_end (b, w, ()) of
        (Inl ex, (b', w', _)) \<Rightarrow> (Thrown ex, (b', w'))
      | (Inr _, (b', w', _)) \<Rightarrow> (Destroyed, (b', w')))"
| "destructor_step api ended Destroyed s = (Destroyed, s)"
| "destructor_step api ended (Thrown ex) s = (Thrown ex, s)"

text \<open>
  The daemon hands a message to the group of a single connection to that connection. The result of
  \<open>SP_multicast\<close> says whether it has accepted the message.
\<close>

definition wakeup_message :: "spread_api \<Rightarrow> spread_connection \<Rightarrow> sp_received" where
  "wakeup_message api c = \<lparr>rc_ret = 0, rc_service = uint (RELIABLE_MESS api), rc_numGroups = 1,
     rc_groups = (\<lambda>i. if i = 0 then privateGroup c else []), rc_buf = []\<rparr>"

definition wakeups :: "spread_api \<Rightarrow> destructor_at \<Rightarrow> ('m, 'd) bus \<times> history \<Rightarrow> nat" where
  "wakeups api d s = (case s of (b, w) \<Rightarrow>
     if d = Interrupting \<and> connected (connection b)
        \<and> 0 \<le> SP_multicast api w (mailbox (connection b)) (RELIABLE_MESS api)
                (c_str (privateGroup (connection b))) []
     then 1 else 0)"

definition destructor_turn ::
  "spread_api \<Rightarrow> bool \<Rightarrow> destructor_at \<Rightarrow> ('sc, 'm, 'd, 'z) threads
     \<Rightarrow> destructor_at \<times> ('sc, 'm, 'd, 'z) threads" where
  "destructor_turn api ended d s =
     (case destructor_step api ended d (th_bus s, th_calls s) of
        (d', (b, w)) \<Rightarrow>
          (d', s\<lparr>th_bus := b, th_calls := w,
             th_posted := th_posted s + wakeups api d (th_bus s, th_calls s)\<rparr>))"

section \<open>The receiver's thread\<close>

text \<open>What ends the process on the spot, without unwinding the stack.\<close>

definition is_fault :: "exn \<Rightarrow> bool" where
  "is_fault ex \<longleftrightarrow> \<not> is_std_exception ex \<and> ex \<noteq> ThreadInterrupted"

text \<open>The \<open>catch\<close> clauses of \<open>execute\<close>, and what follows a call of the handler.\<close>

definition caught :: "(exn \<Rightarrow> bool) \<Rightarrow> exn \<Rightarrow> ('sc, 'm) receiver_at" where
  "caught is_comm ex =
     (if is_comm ex then Calling (Report ex) else if ex = ThreadInterrupted then Testing else Died ex)"

definition cancel_task :: "('m, 'd) bus \<Rightarrow> ('m, 'd) bus" where
  "cancel_task b = b\<lparr>receiver := map_option rt_cancel (receiver b)\<rparr>"

fun after_callback ::
  "(exn \<Rightarrow> bool) \<Rightarrow> ('sc, 'm) callback \<Rightarrow> exn option \<Rightarrow> ('sc, 'm, 'd, 'z) threads
     \<Rightarrow> ('sc, 'm, 'd, 'z) threads" where
  "after_callback is_comm (Notify n) None s = s\<lparr>th_receiver := Testing\<rparr>"
| "after_callback is_comm (Notify n) (Some ex) s = s\<lparr>th_receiver := caught is_comm ex\<rparr>"
| "after_callback is_comm (Report e) None s =
     s\<lparr>th_bus := cancel_task (th_bus s), th_receiver := Testing\<rparr>"
| "after_callback is_comm (Report e) (Some ex) s = s\<lparr>th_receiver := Died ex\<rparr>"

fun call_bus ::
  "('d, 'sc) dispatcher_api \<Rightarrow> ('sc, 'm, 'z) sink_ops \<Rightarrow> 'd \<Rightarrow> ('sc, 'm) callback \<Rightarrow> 'z
     \<Rightarrow> (unit, 'z) outcome" where
  "call_bus da so d (Notify n) z = bus_handleIncoming da so d n z"
| "call_bus da so d (Report ex) z = bus_handleError da so d ex z"

text \<open>
  \<open>SP_receive\<close> takes the first message of the mailbox. A connection that is not active throws
  before it calls the library.
\<close>

definition receive_turn ::
  "('sc, 'm, 'd, 'z) thread_env \<Rightarrow> ('sc, 'm, 'd, 'z) threads \<Rightarrow> ('sc, 'm, 'd, 'z) threads" where
  "receive_turn env s = (let b = th_bus s in
     if connected (connection b) \<and> th_inbox s = [] then s
     else
       (case conn_receive ((te_spread env)\<lparr>SP_receive := (\<lambda>w m. hd (th_inbox s))\<rparr>) (te_debug env)
               message_new (connection b, th_calls s) of
          (r, (m, (c, w))) \<Rightarrow>
            s\<lparr>th_bus := b\<lparr>connection := c\<rparr>, th_calls := w,
              th_inbox := if connected (connection b) then tl (th_inbox s) else th_inbox s,
              th_receiver := (case r of Inl ex \<Rightarrow> caught (te_is_comm env) ex | Inr _ \<Rightarrow> Handling m)\<rparr>))"

definition handle_turn ::
  "('sc, 'm, 'd, 'z) thread_env \<Rightarrow> int \<Rightarrow> spread_message \<Rightarrow> ('sc, 'm, 'd, 'z) threads
     \<Rightarrow> ('sc, 'm, 'd, 'z) threads" where
  "handle_turn env now m s = (case receiver (th_bus s) of
     None \<Rightarrow> s
   | Some t \<Rightarrow>
       (case handleMessage (te_codec env) (te_scopes env) (te_debug env) now m (messageHandler t) of
          (r, p) \<Rightarrow>
            s\<lparr>th_bus := (th_bus s)\<lparr>receiver := Some (t\<lparr>messageHandler := p\<rparr>)\<rparr>,
              th_receiver := (case r of
                 Inl ex \<Rightarrow> caught (te_is_comm env) ex
               | Inr None \<Rightarrow> Testing
               | Inr (Some n) \<Rightarrow> Calling (Notify n))\<rparr>))"

definition receiver_turn ::
  "('sc, 'm, 'd, 'z) thread_env \<Rightarrow> int \<Rightarrow> ('sc, 'm, 'd, 'z) threads \<Rightarrow> ('sc, 'm, 'd, 'z) threads" where
  "receiver_turn env now s = (case th_receiver s of
     Testing \<Rightarrow> (case receiver (th_bus s) of
        None \<Rightarrow> s
      | Some t \<Rightarrow> s\<lparr>th_receiver := if taskCancelled t then Ended else Receiving\<rparr>)
   | Receiving \<Rightarrow> receive_turn env s
   | Handling m \<Rightarrow> handle_turn env now m s
   | Calling cb \<Rightarrow>
       if th_owners s = 0 then after_callback (te_is_comm env) cb None s
       else s\<lparr>th_receiver := InBus cb\<rparr>
   | InBus cb \<Rightarrow>
       (case call_bus (te_dispatcher env) (te_sinks env) (scopeDispatcher (th_bus s)) cb (th_sinks s) of
          (r, z) \<Rightarrow> s\<lparr>th_sinks := z,
            th_receiver := (case r of
               Inl ex \<Rightarrow> if is_fault ex then Died ex else Leaving cb (Some ex)
             | Inr _ \<Rightarrow> Leaving cb None)\<rparr>)
   | Leaving cb r \<Rightarrow>
       if th_owners s = 0 then s\<lparr>th_receiver := Destroying Entered\<rparr>
       else after_callback (te_is_comm env) cb r s
   | Destroying d \<Rightarrow>
       (case destructor_turn (te_spread env) False d s of
          (d', s') \<Rightarrow> s'\<lparr>th_receiver := Destroying d'\<rparr>)
   | Ended \<Rightarrow> s
   | Died ex \<Rightarrow> s)"

section \<open>The application and the daemon\<close>

datatype ('sc, 'm) bus_use =
  AddSink "'sc" nat | RemoveSink "'sc" nat | Send "('sc, 'm) outgoing_notification"

fun bus_apply ::
  "('sc, 'm, 'd, 'z) thread_env \<Rightarrow> ('sc, 'm) bus_use \<Rightarrow> ('m, 'd, 'z) bus_state
     \<Rightarrow> (unit, ('m, 'd, 'z) bus_state) outcome" where
  "bus_apply env (AddSink scope k) st =
     bus_addSink (te_scopes env) (te_spread env) (te_dispatcher env) scope k st"
| "bus_apply env (RemoveSink scope k) st =
     bus_removeSink (te_scopes env) (te_spread env) (te_debug env) (te_dispatcher env) scope k st"
| "bus_apply env (Send n) st =
     bus_handleOutgoing (te_codec env) (te_spread env) (te_debug env) (te_dispatcher env)
       (te_sinks env) n st"

text \<open>
  \<open>Obtain\<close> is \<open>weak_ptr::lock\<close> of the factory, \<open>Drop\<close> an application thread that lets go of its
  pointer, \<open>Destructor\<close> the application thread that has dropped the last one.
\<close>

datatype ('sc, 'm) actor =
    Receiver int
  | Use "('sc, 'm) bus_use"
  | Obtain
  | Drop
  | Destructor
  | Daemon sp_received
  | Wakeup

fun holds_bus :: "('sc, 'm) receiver_at \<Rightarrow> bool" where
  "holds_bus (InBus cb) = True"
| "holds_bus (Leaving cb r) = True"
| "holds_bus _ = False"

text \<open>An exception that leaves a thread or a destructor ends the process.\<close>

fun process_over :: "('sc, 'm) receiver_at \<Rightarrow> destructor_at option \<Rightarrow> bool" where
  "process_over (Died ex) d = True"
| "process_over (Destroying (Thrown ex)) d = True"
| "process_over r (Some (Thrown ex)) = True"
| "process_over r d = False"

fun actor_turn ::
  "('sc, 'm, 'd, 'z) thread_env \<Rightarrow> ('sc, 'm) actor \<Rightarrow> ('sc, 'm, 'd, 'z) threads
     \<Rightarrow> ('sc, 'm, 'd, 'z) threads" where
  "actor_turn env (Receiver now) s = receiver_turn env now s"
| "actor_turn env (Use u) s =
     (if th_owners s = 0 then s
      else case bus_apply env u (th_bus s, th_calls s, th_sinks s) of
        (r, (b, w, z)) \<Rightarrow> s\<lparr>th_bus := b, th_calls := w, th_sinks := z,
          th_receiver := (case r of
             Inl ex \<Rightarrow> if is_fault ex then Died ex else th_receiver s
           | Inr _ \<Rightarrow> th_receiver s)\<rparr>)"
| "actor_turn env Obtain s =
     (if 0 < th_owners s \<or> holds_bus (th_receiver s) then s\<lparr>th_owners := Suc (th_owners s)\<rparr> else s)"
| "actor_turn env Drop s =
     (if th_owners s = 1 \<and> \<not> holds_bus (th_receiver s)
      then s\<lparr>th_owners := 0, th_destructor := Some Entered\<rparr>
      else s\<lparr>th_owners := th_owners s - 1\<rparr>)"
| "actor_turn env Destructor s = (case th_destructor s of
     None \<Rightarrow> s
   | Some d \<Rightarrow>
       (case destructor_turn (te_spread env) (th_receiver s = Ended) d s of
          (d', s') \<Rightarrow> s'\<lparr>th_destructor := Some d'\<rparr>))"
| "actor_turn env (Daemon rc) s = s\<lparr>th_inbox := th_inbox s @ [rc]\<rparr>"
| "actor_turn env Wakeup s =
     (if 0 < th_posted s
      then s\<lparr>th_posted := th_posted s - 1,
             th_inbox := th_inbox s @ [wakeup_message (te_spread env) (connection (th_bus s))]\<rparr>
      else s)"

definition thread_step ::
  "('sc, 'm, 'd, 'z) thread_env \<Rightarrow> ('sc, 'm) actor \<Rightarrow> ('sc, 'm, 'd, 'z) threads
     \<Rightarrow> ('sc, 'm, 'd, 'z) threads" where
  "thread_step env a s =
     (if process_over (th_receiver s) (th_destructor s) then s else actor_turn env a s)"

fun thread_run ::
  "('sc, 'm, 'd, 'z) thread_env \<Rightarrow> ('sc, 'm) actor list \<Rightarrow> ('sc, 'm, 'd, 'z) threads
     \<Rightarrow> ('sc, 'm, 'd, 'z) threads" where
  "thread_run env [] s = s"
| "thread_run env (a # as) s = thread_run env as (thread_step env a s)"

text \<open>
  The state \<open>create\<close> and \<open>activate\<close> leave behind: one owner, the scheduled task at its first test.
\<close>

definition threads_start ::
  "('sc, 'm, 'd, 'z) thread_env \<Rightarrow> spread_connection \<Rightarrow> history \<Rightarrow> 'z
     \<Rightarrow> exn + ('sc, 'm, 'd, 'z) threads" where
  "threads_start env c w z =
     (case bus_activate (te_spread env) (bus_create (te_dispatcher env) c, w, z) of
        (Inl ex, _) \<Rightarrow> Inl ex
      | (Inr _, (b, w', z')) \<Rightarrow>
          Inr \<lparr>th_bus = b, th_calls = w', th_sinks = z', th_inbox = [], th_posted = 0,
            th_owners = 1, th_receiver = Testing, th_destructor = None\<rparr>)"

lemma thread_run_append: "thread_run env (as @ bs) s = thread_run env bs (thread_run env as s)"
  by (induction as arbitrary: s) simp_all

end
