(* ===== verification/SinkMutex.thy ===== *)
theory SinkMutex
  imports BusThreads
begin

text \<open>
  \<open>sinkMutex\<close> of \<open>BusImpl\<close>. The other theories take each block under this mutex as one step; here the
  blocks are taken apart, down to the single call of a sink and of the connection, and the threads
  that are inside a bus interleave between these steps. A thread is a list of calls it still has to
  make and a stack of frames: the operation it is in, the operation whose sink has called this one,
  and so on. \<open>sendNotification\<close> runs without the mutex, one fragment per step. Locking the mutex is a
  step that is possible only while nobody holds it; \<open>boost::mutex\<close> is not recursive, so this includes
  the thread itself.
\<close>

section \<open>The steps of an operation\<close>

text \<open>What a thread calls: an operation of the application or a callback of the receiver.\<close>

datatype ('sc, 'm) bus_call = Used "('sc, 'm) bus_use" | Called "('sc, 'm) callback"

text \<open>The three kinds of blocks under the mutex.\<close>

datatype ('sc, 'm) locked_block =
  Adding "'sc" nat | Removing "'sc" nat | Dispatching "('sc, 'm) callback"

text \<open>
  Where an operation is. \<open>Mapping cb ks calls\<close>: in \<open>mapSinks\<close>, with the sinks still to be called and the
  calls of the bus which the sink that is being called still makes.
\<close>

datatype ('sc, 'm) frame =
    Begin "('sc, 'm) bus_call"
  | Posting "('sc, 'm) outgoing_notification" spread_message "'m fragmented list"
  | Locking "('sc, 'm) locked_block"
  | Joining "'sc" nat
  | Registering "'sc" nat
  | Unregistering "'sc" nat
  | Quitting "'sc"
  | Mapping "('sc, 'm) callback" "nat list" "('sc, 'm) bus_call list"
  | Unlocking "exn + unit"

datatype ('sc, 'm) next_frame =
  Goto "('sc, 'm) frame" | Invoke "('sc, 'm) bus_call" "('sc, 'm) frame" | Return "exn + unit"

fun sink_call :: "('sc, 'm, 'z) sink_ops \<Rightarrow> ('sc, 'm) callback \<Rightarrow> nat \<Rightarrow> 'z \<Rightarrow> (unit, 'z) outcome" where
  "sink_call so (Notify n) k z = sink_handleNotification so k n z"
| "sink_call so (Report ex) k z = sink_handleError so k ex z"

fun sinks_for ::
  "('d, 'sc) dispatcher_api \<Rightarrow> ('sc, 'm, 'z) sink_ops \<Rightarrow> 'd \<Rightarrow> ('sc, 'm) callback \<Rightarrow> 'z \<Rightarrow> nat list" where
  "sinks_for da so d (Notify n) z = disp_sinks da (sink_alive so z) (nf_scope n) d"
| "sinks_for da so d (Report ex) z = disp_allSinks da (sink_alive so z) d"

fun begin_call :: "('sc, 'm, 'd, 'z) thread_env \<Rightarrow> ('sc, 'm) bus_call \<Rightarrow> ('sc, 'm) next_frame" where
  "begin_call env (Used (AddSink scope k)) = Goto (Locking (Adding scope k))"
| "begin_call env (Used (RemoveSink scope k)) = Goto (Locking (Removing scope k))"
| "begin_call env (Used (Send n)) =
     (case addGroups (MAX_GROUP_NAME (te_spread env)) (on_groups n) (setQOS (on_qos n) message_new) of
        (Inl ex, m) \<Rightarrow> Return (Inl ex)
      | (Inr _, m) \<Rightarrow> Goto (Posting n m (on_fragments n)))"
| "begin_call env (Called cb) = Goto (Locking (Dispatching cb))"

fun enter_block ::
  "('sc, 'm, 'd, 'z) thread_env \<Rightarrow> ('sc, 'm) locked_block \<Rightarrow> 'd \<Rightarrow> 'z \<Rightarrow> ('sc, 'm) frame" where
  "enter_block env (Adding scope k) d z = Joining scope k"
| "enter_block env (Removing scope k) d z = Unregistering scope k"
| "enter_block env (Dispatching cb) d z =
     Mapping cb (sinks_for (te_dispatcher env) (te_sinks env) d cb z) []"

text \<open>
  One step of an operation. \<open>uses k cb\<close> are the calls of the bus which sink \<open>k\<close> makes while it handles
  \<open>cb\<close>: code of the application. \<open>Locking\<close> is the step that gets the mutex.
\<close>

fun frame_step ::
  "('sc, 'm, 'd, 'z) thread_env \<Rightarrow> (nat \<Rightarrow> ('sc, 'm) callback \<Rightarrow> ('sc, 'm) bus_call list)
     \<Rightarrow> ('sc, 'm) frame \<Rightarrow> ('m, 'd, 'z) bus_state \<Rightarrow> ('sc, 'm) next_frame \<times> ('m, 'd, 'z) bus_state" where
  "frame_step env uses (Begin call) st = (begin_call env call, st)"
| "frame_step env uses (Posting n m []) st = (Goto (Locking (Dispatching (Notify (as_notification n)))), st)"
| "frame_step env uses (Posting n m (f # fs)) (b, w, z) =
     (case serialize (te_codec env) (f\<lparr>fn_num_data_parts := of_nat (length (on_fragments n))\<rparr>) of
        None \<Rightarrow> (Return (Inl (ProtocolException ''Failed to write notification to stream'')), (b, w, z))
      | Some bytes \<Rightarrow>
          (case conn_send (te_spread env) (te_debug env) (setData bytes m) (connection b, w) of
             (r, (c, w')) \<Rightarrow>
               (case r of Inl ex \<Rightarrow> Return (Inl ex) | Inr _ \<Rightarrow> Goto (Posting n (setData bytes m) fs),
                (b\<lparr>connection := c\<rparr>, w', z))))"
| "frame_step env uses (Locking body) (b, w, z) =
     (Goto (enter_block env body (scopeDispatcher b) z), (b, w, z))"
| "frame_step env uses (Joining scope k) (b, w, z) =
     (case mm_join (conn_join (te_spread env))
             (scopeToGroup (te_scopes env) (MAX_GROUP_NAME (te_spread env)) scope)
             (memberships b, (connection b, w)) of
        (r, (gm, (c, w'))) \<Rightarrow>
          (case r of Inl ex \<Rightarrow> Goto (Unlocking (Inl ex)) | Inr _ \<Rightarrow> Goto (Registering scope k),
           (b\<lparr>memberships := gm, connection := c\<rparr>, w', z)))"
| "frame_step env uses (Registering scope k) (b, w, z) =
     (Goto (Unlocking (Inr ())),
      (b\<lparr>scopeDispatcher := disp_addSink (te_dispatcher env) scope k (scopeDispatcher b)\<rparr>, w, z))"
| "frame_step env uses (Unregistering scope k) (b, w, z) =
     (Goto (Quitting scope),
      (b\<lparr>scopeDispatcher := disp_removeSink (te_dispatcher env) scope k (scopeDispatcher b)\<rparr>, w, z))"
| "frame_step env uses (Quitting scope) (b, w, z) =
     (case mm_leave (te_debug env) (conn_leave (te_spread env))
             (scopeToGroup (te_scopes env) (MAX_GROUP_NAME (te_spread env)) scope)
             (memberships b, (connection b, w)) of
        (r, (gm, (c, w'))) \<Rightarrow> (Goto (Unlocking r), (b\<lparr>memberships := gm, connection := c\<rparr>, w', z)))"
| "frame_step env uses (Mapping cb ks (call # calls)) st = (Invoke call (Mapping cb ks calls), st)"
| "frame_step env uses (Mapping cb [] []) st = (Goto (Unlocking (Inr ())), st)"
| "frame_step env uses (Mapping cb (k # ks) []) (b, w, z) =
     (case sink_call (te_sinks env) cb k z of
        (r, z') \<Rightarrow>
          (case r of Inl ex \<Rightarrow> Goto (Unlocking (Inl ex)) | Inr _ \<Rightarrow> Goto (Mapping cb ks (uses k cb)),
           (b, w, z')))"
| "frame_step env uses (Unlocking r) st = (Return r, st)"

section \<open>The threads\<close>

record ('sc, 'm) caller =
  todo :: "('sc, 'm) bus_call list"
  frames :: "('sc, 'm) frame list"
  returned :: "(exn + unit) list"

text \<open>
  A call that returns to a sink lets the sink go on; an exception leaves the sink as it would leave
  the code of the application, and ends \<open>mapSinks\<close>.
\<close>

fun return_to :: "exn + unit \<Rightarrow> ('sc, 'm) frame list \<Rightarrow> ('sc, 'm) frame list" where
  "return_to (Inl ex) (Mapping cb ks calls # fs) = Unlocking (Inl ex) # fs"
| "return_to r fs = fs"

fun advance :: "('sc, 'm) next_frame \<Rightarrow> ('sc, 'm) frame list \<Rightarrow> ('sc, 'm) caller \<Rightarrow> ('sc, 'm) caller" where
  "advance (Goto f) fs c = c\<lparr>frames := f # fs\<rparr>"
| "advance (Invoke call f) fs c = c\<lparr>frames := Begin call # f # fs\<rparr>"
| "advance (Return r) [] c = c\<lparr>frames := [], returned := returned c @ [r]\<rparr>"
| "advance (Return r) (f # fs) c = c\<lparr>frames := return_to r (f # fs)\<rparr>"

record ('sc, 'm, 'd, 'z) mutex_state =
  mx_bus :: "('m, 'd, 'z) bus_state"
  mx_owner :: "nat option"
  mx_threads :: "nat \<Rightarrow> ('sc, 'm) caller"

fun owner_after :: "nat \<Rightarrow> ('sc, 'm) frame \<Rightarrow> nat option \<Rightarrow> nat option" where
  "owner_after i (Locking body) ow = Some i"
| "owner_after i (Unlocking r) ow = None"
| "owner_after i _ ow = ow"

fun blocked :: "nat option \<Rightarrow> ('sc, 'm) frame \<Rightarrow> bool" where
  "blocked (Some j) (Locking body) = True"
| "blocked _ _ = False"

definition mutex_turn ::
  "('sc, 'm, 'd, 'z) thread_env \<Rightarrow> (nat \<Rightarrow> ('sc, 'm) callback \<Rightarrow> ('sc, 'm) bus_call list) \<Rightarrow> nat
     \<Rightarrow> ('sc, 'm, 'd, 'z) mutex_state \<Rightarrow> ('sc, 'm, 'd, 'z) mutex_state" where
  "mutex_turn env uses i s = (let c = mx_threads s i in
     case frames c of
       [] \<Rightarrow> (case todo c of
           [] \<Rightarrow> s
         | call # calls \<Rightarrow>
             s\<lparr>mx_threads := (mx_threads s)(i := c\<lparr>todo := calls, frames := [Begin call]\<rparr>)\<rparr>)
     | f # fs \<Rightarrow>
         if blocked (mx_owner s) f then s
         else (case frame_step env uses f (mx_bus s) of
                 (nx, st) \<Rightarrow> s\<lparr>mx_bus := st, mx_owner := owner_after i f (mx_owner s),
                   mx_threads := (mx_threads s)(i := advance nx fs c)\<rparr>))"

fun mutex_run ::
  "('sc, 'm, 'd, 'z) thread_env \<Rightarrow> (nat \<Rightarrow> ('sc, 'm) callback \<Rightarrow> ('sc, 'm) bus_call list) \<Rightarrow> nat list
     \<Rightarrow> ('sc, 'm, 'd, 'z) mutex_state \<Rightarrow> ('sc, 'm, 'd, 'z) mutex_state" where
  "mutex_run env uses [] s = s"
| "mutex_run env uses (i # is) s = mutex_run env uses is (mutex_turn env uses i s)"

text \<open>All threads before their first call.\<close>

definition mutex_start ::
  "('m, 'd, 'z) bus_state \<Rightarrow> (nat \<Rightarrow> ('sc, 'm) bus_call list) \<Rightarrow> ('sc, 'm, 'd, 'z) mutex_state" where
  "mutex_start st calls = \<lparr>mx_bus = st, mx_owner = None,
     mx_threads = (\<lambda>i. \<lparr>todo = calls i, frames = [], returned = []\<rparr>)\<rparr>"

lemma mutex_run_append:
  "mutex_run env uses (as @ bs) s = mutex_run env uses bs (mutex_run env uses as s)"
  by (induction as arbitrary: s) simp_all

end
