(* ===== verification/Atomicity.thy ===== *)
theory Atomicity
  imports SinkMutex "HOL-Library.Sublist"
begin

text \<open>
  While no sink calls its own bus, a block under \<open>sinkMutex\<close> can be taken as one step: every
  interleaving of the small steps has an interleaving of whole blocks that ends in the same state.
  The point at which a block happens is its call of the connection (\<open>addSink\<close>, \<open>removeSink\<close>) or its
  beginning (\<open>mapSinks\<close>); the fragments that other threads send meanwhile change nothing the block
  uses. And the threads cannot block each other for good.
\<close>

section \<open>The machine with atomic blocks\<close>

fun block_run ::
  "('sc, 'm, 'd, 'z) thread_env \<Rightarrow> ('sc, 'm) locked_block \<Rightarrow> ('m, 'd, 'z) bus_state
     \<Rightarrow> (unit, ('m, 'd, 'z) bus_state) outcome" where
  "block_run env (Adding scope k) st = bus_apply env (AddSink scope k) st"
| "block_run env (Removing scope k) st = bus_apply env (RemoveSink scope k) st"
| "block_run env (Dispatching cb) (b, w, z) =
     (case call_bus (te_dispatcher env) (te_sinks env) (scopeDispatcher b) cb z of
        (r, z') \<Rightarrow> (r, (b, w, z')))"

abbreviation no_uses :: "nat \<Rightarrow> ('sc, 'm) callback \<Rightarrow> ('sc, 'm) bus_call list" where
  "no_uses \<equiv> \<lambda>k cb. []"

definition set_thread ::
  "nat \<Rightarrow> ('sc, 'm) caller \<Rightarrow> ('sc, 'm, 'd, 'z) mutex_state \<Rightarrow> ('sc, 'm, 'd, 'z) mutex_state" where
  "set_thread i c s = s\<lparr>mx_threads := (mx_threads s)(i := c)\<rparr>"

definition atomic_turn ::
  "('sc, 'm, 'd, 'z) thread_env \<Rightarrow> nat \<Rightarrow> ('sc, 'm, 'd, 'z) mutex_state
     \<Rightarrow> ('sc, 'm, 'd, 'z) mutex_state" where
  "atomic_turn env i s = (case frames (mx_threads s i) of
     Locking body # fs \<Rightarrow>
       (case block_run env body (mx_bus s) of
          (r, st) \<Rightarrow> set_thread i (advance (Return r) fs (mx_threads s i)) (s\<lparr>mx_bus := st\<rparr>))
   | _ \<Rightarrow> mutex_turn env no_uses i s)"

fun atomic_run ::
  "('sc, 'm, 'd, 'z) thread_env \<Rightarrow> nat list \<Rightarrow> ('sc, 'm, 'd, 'z) mutex_state
     \<Rightarrow> ('sc, 'm, 'd, 'z) mutex_state" where
  "atomic_run env [] s = s"
| "atomic_run env (i # is) s = atomic_run env is (atomic_turn env i s)"

lemma atomic_run_append: "atomic_run env (as @ bs) s = atomic_run env bs (atomic_run env as s)"
  by (induction as arbitrary: s) simp_all

section \<open>Who is inside\<close>

fun inside :: "('sc, 'm) frame \<Rightarrow> bool" where
  "inside (Begin call) = False"
| "inside (Posting n m fs) = False"
| "inside (Locking body) = False"
| "inside _ = True"

fun plain :: "('sc, 'm) frame \<Rightarrow> bool" where
  "plain (Mapping cb ks calls) = (calls = [])"
| "plain _ = True"

text \<open>A thread is in one operation at most, and inside a block iff it holds the mutex.\<close>

definition thread_ok :: "nat option \<Rightarrow> nat \<Rightarrow> ('sc, 'm) caller \<Rightarrow> bool" where
  "thread_ok ow i c = (case frames c of
     [] \<Rightarrow> ow \<noteq> Some i
   | [f] \<Rightarrow> plain f \<and> (inside f \<longleftrightarrow> ow = Some i)
   | _ \<Rightarrow> False)"

definition mutex_inv :: "('sc, 'm, 'd, 'z) mutex_state \<Rightarrow> bool" where
  "mutex_inv s \<longleftrightarrow> (\<forall>i. thread_ok (mx_owner s) i (mx_threads s i))"

lemma mutex_inv_start: "mutex_inv (mutex_start st calls)"
  by (simp add: mutex_inv_def mutex_start_def thread_ok_def)

lemma thread_cases:
  assumes "mutex_inv s"
  obtains (idle) "frames (mx_threads s i) = []" "mx_owner s \<noteq> Some i"
    | (outside) f where "frames (mx_threads s i) = [f]" "\<not> inside f" "mx_owner s \<noteq> Some i"
    | (inside) f where "frames (mx_threads s i) = [f]" "inside f" "plain f" "mx_owner s = Some i"
proof -
  have "thread_ok (mx_owner s) i (mx_threads s i)" using assms by (simp add: mutex_inv_def)
  then show thesis
    using that by (cases "frames (mx_threads s i)" rule: list.exhaust)
      (auto simp: thread_ok_def split: list.splits)
qed

lemma begin_call_cases:
  obtains (lock) body where "begin_call env call = Goto (Locking body)"
    | (fails) ex where "begin_call env call = Return (Inl ex)"
    | (posting) n m where "begin_call env call = Goto (Posting n m (on_fragments n))"
proof (cases "(env, call)" rule: begin_call.cases)
  case (3 env' n)
  then show thesis
    using that
    by (cases "addGroups (MAX_GROUP_NAME (te_spread env)) (on_groups n) (setQOS (on_qos n) message_new)";
        cases "fst (addGroups (MAX_GROUP_NAME (te_spread env)) (on_groups n) (setQOS (on_qos n) message_new))")
      auto
qed (use that in auto)

section \<open>What happens outside the mutex\<close>

text \<open>
  A step outside the mutex depends on the connection and the library only, changes the history of
  the library only, and leads to another step outside or to the end of the call.
\<close>

lemma outside_step:
  assumes "\<not> inside f" and "\<And>body. f \<noteq> Locking body"
  obtains nx w' where "\<And>b' z'. connection b' = connection b \<Longrightarrow>
      frame_step env no_uses f (b', w, z') = (nx, (b', w', z'))"
    and "(\<exists>ex. nx = Return (Inl ex)) \<or> (\<exists>f'. nx = Goto f' \<and> \<not> inside f' \<and> plain f')"
proof (cases f)
  case (Begin call)
  show thesis
  proof (rule that [of "begin_call env call" w])
    show "(\<exists>ex. begin_call env call = Return (Inl ex))
        \<or> (\<exists>f'. begin_call env call = Goto f' \<and> \<not> inside f' \<and> plain f')"
      by (cases rule: begin_call_cases [of env call]) auto
  qed (simp add: Begin)
next
  case (Posting n m fs)
  show thesis
  proof (cases fs)
    case Nil
    with Posting show thesis
      by (intro that [of "Goto (Locking (Dispatching (Notify (as_notification n))))" w]) auto
  next
    case (Cons fr frs)
    let ?ser = "serialize (te_codec env) (fr\<lparr>fn_num_data_parts := of_nat (length (on_fragments n))\<rparr>)"
    show thesis
    proof (cases ?ser)
      case None
      then show thesis
        using Posting Cons
        by (intro that [of "Return (Inl (ProtocolException ''Failed to write notification to stream''))" w]) auto
    next
      case (Some bytes)
      obtain r c w' where send: "conn_send (te_spread env) (te_debug env) (setData bytes m) (connection b, w)
          = (r, (c, w'))" by (metis surj_pair)
      from conn_send_frame [OF this] have c: "c = connection b" .
      have self: "b'\<lparr>connection := connection b\<rparr> = b'" if "connection b' = connection b" for b' :: "('b, 'c) bus"
        using that by (cases b') simp
      show thesis
        by (rule that [of "case r of Inl ex \<Rightarrow> Return (Inl ex) | Inr _ \<Rightarrow> Goto (Posting n (setData bytes m) frs)" w'])
          (use Posting Cons Some send c self in \<open>auto split: sum.splits\<close>)
    qed
  qed
qed (use assms in auto)

definition outside_update ::
  "nat \<Rightarrow> ('sc, 'm) caller \<Rightarrow> history \<Rightarrow> ('sc, 'm, 'd, 'z) mutex_state
     \<Rightarrow> ('sc, 'm, 'd, 'z) mutex_state" where
  "outside_update u c w s = s\<lparr>mx_bus := (case mx_bus s of (b, _, z) \<Rightarrow> (b, w, z)),
     mx_threads := (mx_threads s)(u := c)\<rparr>"

lemma outside_update_id:
  "fst (snd (mx_bus s)) = w \<Longrightarrow> mx_threads s u = c \<Longrightarrow> outside_update u c w s = s"
  by (cases s; cases "mx_bus s") (auto simp: outside_update_def fun_upd_idem)

text \<open>What two states have in common when thread \<open>u\<close> cannot tell them apart outside the mutex.\<close>

definition same_outside ::
  "nat \<Rightarrow> ('sc, 'm, 'd, 'z) mutex_state \<Rightarrow> ('sc, 'm, 'd, 'z) mutex_state \<Rightarrow> bool" where
  "same_outside u s s' \<longleftrightarrow> mx_threads s' u = mx_threads s u
     \<and> connection (fst (mx_bus s')) = connection (fst (mx_bus s))
     \<and> fst (snd (mx_bus s')) = fst (snd (mx_bus s))"

definition thread_outside :: "('sc, 'm) caller \<Rightarrow> bool" where
  "thread_outside c \<longleftrightarrow> frames c = [] \<or> (\<exists>f. frames c = [f] \<and> \<not> inside f \<and> plain f)"

lemma owner_after_outside:
  "\<not> inside f \<Longrightarrow> (\<And>body. f \<noteq> Locking body) \<Longrightarrow> owner_after u f ow = ow \<and> \<not> blocked ow f"
  by (cases f; cases ow) auto

lemma same_owner: "s\<lparr>mx_bus := st, mx_owner := mx_owner s, mx_threads := th\<rparr> = s\<lparr>mx_bus := st, mx_threads := th\<rparr>"
  by (cases s) simp

lemma outside_turn:
  fixes s :: "('sc, 'm, 'd, 'z) mutex_state"
  assumes "frames (mx_threads s u) = [] \<or> (\<exists>f. frames (mx_threads s u) = [f] \<and> \<not> inside f)"
    and "\<And>body. frames (mx_threads s u) \<noteq> [Locking body]"
  obtains c w where "thread_outside c" and "\<And>s' :: ('sc, 'm, 'd, 'z) mutex_state. same_outside u s s' \<Longrightarrow>
      mutex_turn env no_uses u s' = outside_update u c w s'
      \<and> atomic_turn env u s' = outside_update u c w s'"
proof (cases "frames (mx_threads s u)")
  case Nil
  let ?c = "mx_threads s u"
  let ?c' = "case todo ?c of [] \<Rightarrow> ?c | call # calls \<Rightarrow> ?c\<lparr>todo := calls, frames := [Begin call]\<rparr>"
  show thesis
  proof (rule that [of ?c' "fst (snd (mx_bus s))"])
    show "thread_outside ?c'"
      using Nil by (auto simp: thread_outside_def split: list.splits)
    fix s' :: "('sc, 'm, 'd, 'z) mutex_state"
    assume same: "same_outside u s s'"
    have "mutex_turn env no_uses u s' = outside_update u ?c' (fst (snd (mx_bus s))) s'"
      using same Nil by (cases "todo ?c"; cases "mx_bus s'")
        (auto simp: mutex_turn_def same_outside_def outside_update_id, simp add: outside_update_def)
    moreover have "atomic_turn env u s' = mutex_turn env no_uses u s'"
      using same Nil by (simp add: atomic_turn_def same_outside_def)
    ultimately show "mutex_turn env no_uses u s' = outside_update u ?c' (fst (snd (mx_bus s))) s'
        \<and> atomic_turn env u s' = outside_update u ?c' (fst (snd (mx_bus s))) s'" by simp
  qed
next
  case (Cons f fs)
  then have f: "frames (mx_threads s u) = [f]" "\<not> inside f" "\<And>body. f \<noteq> Locking body"
    using assms by auto
  obtain b w z where st: "mx_bus s = (b, w, z)" by (metis surj_pair)
  obtain nx w' where step: "\<And>b' z'. connection b' = connection b \<Longrightarrow>
      frame_step env no_uses f (b', w, z') = (nx, (b', w', z'))"
    and nx: "(\<exists>ex. nx = Return (Inl ex)) \<or> (\<exists>f'. nx = Goto f' \<and> \<not> inside f' \<and> plain f')"
    by (rule outside_step [where env = env and w = w, OF f(2,3)]) blast+
  let ?c = "advance nx [] (mx_threads s u)"
  show thesis
  proof (rule that [of ?c w'])
    show "thread_outside ?c" using nx by (auto simp: thread_outside_def)
    fix s' :: "('sc, 'm, 'd, 'z) mutex_state"
    assume same: "same_outside u s s'"
    then obtain b' z' where st': "mx_bus s' = (b', w, z')" and b': "connection b' = connection b"
      using st by (cases "mx_bus s'") (auto simp: same_outside_def)
    have u: "frames (mx_threads s' u) = [f]" "mx_threads s' u = mx_threads s u"
      using same f(1) by (simp_all add: same_outside_def)
    have "mutex_turn env no_uses u s' = outside_update u ?c w' s'"
      using owner_after_outside [OF f(2,3), of u "mx_owner s'"] step [OF b', of z']
      by (simp add: mutex_turn_def u st' outside_update_def f(1) Let_def same_owner)
    moreover have "atomic_turn env u s' = mutex_turn env no_uses u s'"
      using f(3) by (cases f) (auto simp: atomic_turn_def u(1))
    ultimately show "mutex_turn env no_uses u s' = outside_update u ?c w' s'
        \<and> atomic_turn env u s' = outside_update u ?c w' s'" by simp
  qed
qed

section \<open>The state the atomic machine is in\<close>

definition waiting ::
  "nat \<Rightarrow> ('sc, 'm) locked_block \<Rightarrow> ('sc, 'm, 'd, 'z) mutex_state \<Rightarrow> ('sc, 'm, 'd, 'z) mutex_state" where
  "waiting t body s = s\<lparr>mx_owner := None,
     mx_threads := (mx_threads s)(t := (mx_threads s t)\<lparr>frames := [Locking body]\<rparr>)\<rparr>"

definition finished ::
  "nat \<Rightarrow> exn + unit \<Rightarrow> ('sc, 'm, 'd, 'z) mutex_state \<Rightarrow> ('sc, 'm, 'd, 'z) mutex_state" where
  "finished t r s = s\<lparr>mx_owner := None,
     mx_threads := (mx_threads s)(t := (mx_threads s t)\<lparr>frames := [],
       returned := returned (mx_threads s t) @ [r]\<rparr>)\<rparr>"

definition with_dispatcher ::
  "('d \<Rightarrow> 'd) \<Rightarrow> ('sc, 'm, 'd, 'z) mutex_state \<Rightarrow> ('sc, 'm, 'd, 'z) mutex_state" where
  "with_dispatcher g s = s\<lparr>mx_bus := (case mx_bus s of
     (b, w, z) \<Rightarrow> (b\<lparr>scopeDispatcher := g (scopeDispatcher b)\<rparr>, w, z))\<rparr>"

definition with_sinks ::
  "'z \<Rightarrow> ('sc, 'm, 'd, 'z) mutex_state \<Rightarrow> ('sc, 'm, 'd, 'z) mutex_state" where
  "with_sinks z s = s\<lparr>mx_bus := (case mx_bus s of (b, w, _) \<Rightarrow> (b, w, z))\<rparr>"

text \<open>
  Thread \<open>t\<close> is in a block, at frame \<open>f\<close>: before its point the atomic machine has not done the block,
  after it the machine has done it to the end.
\<close>

fun block_sim ::
  "('sc, 'm, 'd, 'z) thread_env \<Rightarrow> nat \<Rightarrow> ('sc, 'm) frame \<Rightarrow> ('sc, 'm, 'd, 'z) mutex_state
     \<Rightarrow> ('sc, 'm, 'd, 'z) mutex_state \<Rightarrow> bool" where
  "block_sim env t (Joining scope k) s a = (a = waiting t (Adding scope k) s)"
| "block_sim env t (Registering scope k) s a =
     (a = finished t (Inr ()) (with_dispatcher (disp_addSink (te_dispatcher env) scope k) s))"
| "block_sim env t (Unregistering scope k) s a = (a = waiting t (Removing scope k) s)"
| "block_sim env t (Quitting scope) s a = (\<exists>k s0. a = waiting t (Removing scope k) s0
     \<and> s = with_dispatcher (disp_removeSink (te_dispatcher env) scope k) s0)"
| "block_sim env t (Mapping cb ks calls) s a =
     (case map_sinks (sink_call (te_sinks env) cb) ks (snd (snd (mx_bus s))) of
        (r, z) \<Rightarrow> a = finished t r (with_sinks z s))"
| "block_sim env t (Unlocking r) s a = (a = finished t r s)"
| "block_sim env t _ s a = False"

definition sim ::
  "('sc, 'm, 'd, 'z) thread_env \<Rightarrow> ('sc, 'm, 'd, 'z) mutex_state \<Rightarrow> ('sc, 'm, 'd, 'z) mutex_state \<Rightarrow> bool" where
  "sim env s a \<longleftrightarrow> mutex_inv s \<and> (case mx_owner s of
     None \<Rightarrow> a = s | Some t \<Rightarrow> block_sim env t (hd (frames (mx_threads s t))) s a)"

named_theorems commutes

lemma outside_commutes [commutes]:
  "with_dispatcher g (outside_update u c w s) = outside_update u c w (with_dispatcher g s)"
  "with_sinks z (outside_update u c w s) = outside_update u c w (with_sinks z s)"
  "t \<noteq> u \<Longrightarrow> waiting t body (outside_update u c w s) = outside_update u c w (waiting t body s)"
  "t \<noteq> u \<Longrightarrow> finished t r (outside_update u c w s) = outside_update u c w (finished t r s)"
  by (auto simp: outside_update_def with_dispatcher_def with_sinks_def waiting_def finished_def
      fun_upd_twist split: prod.splits)

lemma same_outside_intros:
  "same_outside u s (with_dispatcher g s)" "same_outside u s (with_sinks z s)"
  "u \<noteq> t \<Longrightarrow> same_outside u s (waiting t body s)" "u \<noteq> t \<Longrightarrow> same_outside u s (finished t r s)"
  "same_outside u s s"
  by (auto simp: same_outside_def with_dispatcher_def with_sinks_def waiting_def finished_def
      split: prod.splits)

lemma same_outside_trans:
  "same_outside u s s' \<Longrightarrow> same_outside u s' s'' \<Longrightarrow> same_outside u s s''"
  "same_outside u s s' \<Longrightarrow> same_outside u s' s"
  by (simp_all add: same_outside_def)

lemma sinks_outside_update [simp]: "snd (snd (mx_bus (outside_update u c w s))) = snd (snd (mx_bus s))"
  by (simp add: outside_update_def split: prod.splits)

lemma block_sim_same_outside:
  assumes "block_sim env t f s a" and "u \<noteq> t"
  shows "same_outside u s a"
proof (cases "\<exists>scope. f = Quitting scope")
  case True
  with assms obtain scope k s0 where "a = waiting t (Removing scope k) s0"
    and "s = with_dispatcher (disp_removeSink (te_dispatcher env) scope k) s0" by auto
  with assms(2) show ?thesis
    by (metis same_outside_intros(1,3) same_outside_trans)
next
  case False
  with assms show ?thesis
    by (cases "(env, t, f, s, a)" rule: block_sim.cases)
      (auto intro: same_outside_intros same_outside_trans split: prod.splits)
qed

lemma block_sim_outside_update:
  assumes "block_sim env t f s a" and "u \<noteq> t"
  shows "block_sim env t f (outside_update u c w s) (outside_update u c w a)"
proof (cases "\<exists>scope. f = Quitting scope")
  case True
  with assms obtain scope k s0 where f: "f = Quitting scope" and "a = waiting t (Removing scope k) s0"
    and "s = with_dispatcher (disp_removeSink (te_dispatcher env) scope k) s0" by auto
  with assms(2) have "outside_update u c w a = waiting t (Removing scope k) (outside_update u c w s0)"
    and "outside_update u c w s
      = with_dispatcher (disp_removeSink (te_dispatcher env) scope k) (outside_update u c w s0)"
    by (simp_all add: commutes)
  with f show ?thesis by auto
next
  case False
  with assms show ?thesis
    by (cases "(env, t, f, s, a)" rule: block_sim.cases) (auto simp: commutes split: prod.splits)
qed

section \<open>The simulation\<close>

lemma enter_block_inside [simp]: "inside (enter_block env body d z)" "plain (enter_block env body d z)"
  by (cases body; simp)+

lemma inside_step:
  assumes "inside f" and "plain f" and "frame_step env no_uses f st = (nx, st')"
  obtains (goes) f' where "nx = Goto f'" "inside f'" "plain f'" "owner_after i f ow = ow" "\<not> blocked ow f"
    | (leaves) r where "f = Unlocking r" "nx = Return r" "st' = st"
  using assms
  by (cases "(env, no_uses :: nat \<Rightarrow> ('a, 'b) callback \<Rightarrow> ('a, 'b) bus_call list, f, st)" rule: frame_step.cases;
      cases ow) (auto split: prod.splits sum.splits)

lemma thread_ok_owner: "(ow = Some j) = (ow' = Some j) \<Longrightarrow> thread_ok ow j c = thread_ok ow' j c"
  by (auto simp: thread_ok_def split: list.splits)

lemma mutex_inv_update:
  assumes "mutex_inv s" and "thread_ok ow i c" and "{mx_owner s, ow} \<subseteq> {None, Some i} \<or> ow = mx_owner s"
  shows "mutex_inv (s\<lparr>mx_bus := st, mx_owner := ow, mx_threads := (mx_threads s)(i := c)\<rparr>)"
proof -
  have "thread_ok ow j (mx_threads s j)" if "j \<noteq> i" for j
  proof -
    have "(ow = Some j) = (mx_owner s = Some j)" using assms(3) that by auto
    from thread_ok_owner [OF this, of "mx_threads s j"] assms(1) show ?thesis
      by (simp add: mutex_inv_def)
  qed
  with assms(2) show ?thesis by (simp add: mutex_inv_def)
qed

lemma mutex_inv_outside_update:
  assumes "mutex_inv s" and "thread_outside c" and "mx_owner s \<noteq> Some u"
  shows "mutex_inv (outside_update u c w s)"
proof -
  have "thread_ok (mx_owner s) u c"
    using assms(2,3) by (auto simp: thread_outside_def thread_ok_def)
  from mutex_inv_update [OF assms(1) this, of "mx_bus (outside_update u c w s)"] show ?thesis
    by (simp add: outside_update_def same_owner)
qed

lemma enter_turn:
  assumes "frames (mx_threads s u) = [Locking body]" and "mx_owner s = None" and "mx_bus s = (b, w, z)"
  shows "mutex_turn env no_uses u s = s\<lparr>mx_bus := (b, w, z), mx_owner := Some u,
    mx_threads := (mx_threads s)(u := (mx_threads s u)\<lparr>frames := [enter_block env body (scopeDispatcher b) z]\<rparr>)\<rparr>"
  using assms by (simp add: mutex_turn_def)

lemma inside_turn:
  assumes "mutex_inv s" and "mx_owner s = Some t"
  obtains f where "frames (mx_threads s t) = [f]" "inside f" "plain f"
    and "mutex_turn env no_uses t s = (case frame_step env no_uses f (mx_bus s) of
       (nx, st) \<Rightarrow> s\<lparr>mx_bus := st, mx_owner := owner_after t f (Some t),
          mx_threads := (mx_threads s)(t := advance nx [] (mx_threads s t))\<rparr>)"
proof -
  obtain f where f: "frames (mx_threads s t) = [f]" "inside f" "plain f"
    using assms by (cases rule: thread_cases [OF assms(1), of t]) auto
  then have "\<not> blocked (Some t) f" by (cases f) auto
  with f assms(2) that show thesis by (auto simp: mutex_turn_def)
qed

lemma mutex_inv_turn:
  assumes "mutex_inv s"
  shows "mutex_inv (mutex_turn env no_uses u s)"
proof (cases "mx_owner s = Some u")
  case True
  obtain f where f: "inside f" "plain f"
    and turn: "mutex_turn env no_uses u s = (case frame_step env no_uses f (mx_bus s) of
       (nx, st) \<Rightarrow> s\<lparr>mx_bus := st, mx_owner := owner_after u f (Some u),
          mx_threads := (mx_threads s)(u := advance nx [] (mx_threads s u))\<rparr>)"
    by (rule inside_turn [OF assms True]) blast
  obtain nx st where step: "frame_step env no_uses f (mx_bus s) = (nx, st)" by (metis surj_pair)
  have "thread_ok (owner_after u f (Some u)) u (advance nx [] (mx_threads s u))"
    by (cases rule: inside_step [OF f step, of u "Some u"]) (auto simp: thread_ok_def)
  moreover have "owner_after u f (Some u) \<in> {None, Some u}" by (cases f) auto
  ultimately show ?thesis
    using True unfolding turn step by (auto intro!: mutex_inv_update [OF assms])
next
  case False
  show ?thesis
  proof (cases "\<exists>body. frames (mx_threads s u) = [Locking body]")
    case True
    then obtain body where body: "frames (mx_threads s u) = [Locking body]" by blast
    show ?thesis
    proof (cases "mx_owner s")
      case None
      obtain b w z where "mx_bus s = (b, w, z)" by (metis surj_pair)
      from enter_turn [OF body None this] show ?thesis
        using None by (auto simp: thread_ok_def intro!: mutex_inv_update [OF assms])
    next
      case (Some v)
      then show ?thesis using assms body by (simp add: mutex_turn_def)
    qed
  next
    case no_lock: False
    have "frames (mx_threads s u) = [] \<or> (\<exists>f. frames (mx_threads s u) = [f] \<and> \<not> inside f)"
      by (cases rule: thread_cases [OF assms, of u]) (use False in auto)
    from outside_turn [OF this] no_lock obtain c w where "thread_outside c"
      and "\<And>s'. same_outside u s s' \<Longrightarrow> mutex_turn env no_uses u s' = outside_update u c w s'" by metis
    then show ?thesis
      using mutex_inv_outside_update [OF assms _ False] same_outside_intros(5) by metis
  qed
qed

text \<open>A turn of the holder of the mutex, and what the atomic machine does for it.\<close>

definition holder_at ::
  "nat \<Rightarrow> ('sc, 'm) frame \<Rightarrow> ('m, 'd, 'z) bus_state \<Rightarrow> ('sc, 'm, 'd, 'z) mutex_state
     \<Rightarrow> ('sc, 'm, 'd, 'z) mutex_state" where
  "holder_at t f st s = s\<lparr>mx_bus := st, mx_owner := Some t,
     mx_threads := (mx_threads s)(t := (mx_threads s t)\<lparr>frames := [f]\<rparr>)\<rparr>"

lemma holder_at_simps [simp]:
  "mx_owner (holder_at t f st s) = Some t" "mx_bus (holder_at t f st s) = st"
  "frames (mx_threads (holder_at t f st s) t) = [f]"
  by (simp_all add: holder_at_def)

lemma atomic_turn_waiting:
  assumes "block_run env body st = (r, st')"
  shows "atomic_turn env t (waiting t body (s\<lparr>mx_bus := st\<rparr>)) = finished t r (s\<lparr>mx_bus := st'\<rparr>)"
  using assms by (simp add: atomic_turn_def waiting_def finished_def set_thread_def)

lemma holder_goes:
  assumes "mx_bus s = st" and "frames (mx_threads s t) = [f]" and "mx_owner s = Some t"
    and "frame_step env no_uses f st = (Goto f', st')" and "inside f"
  shows "mutex_turn env no_uses t s = holder_at t f' st' s"
proof -
  have "\<not> blocked (Some t) f" "\<And>i ow. (\<forall>r. f \<noteq> Unlocking r) \<Longrightarrow> owner_after i f ow = ow"
    using assms(5) by (cases f; simp)+
  moreover have "f \<noteq> Unlocking r" for r using assms(4) by auto
  ultimately show ?thesis
    using assms by (simp add: mutex_turn_def holder_at_def)
qed

lemma sim_holder:
  assumes "mutex_inv s" and "mutex_turn env no_uses t s = holder_at t f st s"
    and "block_sim env t f (holder_at t f st s) a"
  shows "sim env (mutex_turn env no_uses t s) a"
  using mutex_inv_turn [OF assms(1), of env t] assms(2,3) by (simp add: sim_def)

lemma waiting_holder_at: "waiting t body (holder_at t f st s) = waiting t body (s\<lparr>mx_bus := st\<rparr>)"
  by (simp add: waiting_def holder_at_def)

lemma finished_holder_at: "finished t r (holder_at t f st s) = finished t r (s\<lparr>mx_bus := st\<rparr>)"
  by (simp add: finished_def holder_at_def)

lemma with_holder_at:
  "with_dispatcher g (holder_at t f (b, w, z) s) = holder_at t f (b\<lparr>scopeDispatcher := g (scopeDispatcher b)\<rparr>, w, z) s"
  "with_sinks z' (holder_at t f (b, w, z) s) = holder_at t f (b, w, z') s"
  by (simp_all add: with_dispatcher_def with_sinks_def holder_at_def)

lemma same_bus: "mx_bus s = st \<Longrightarrow> s\<lparr>mx_bus := st\<rparr> = s"
  by (cases s) simp

lemma sim_joining:
  assumes "mutex_inv s" and "mx_owner s = Some t" and "frames (mx_threads s t) = [Joining scope k]"
    and "a = waiting t (Adding scope k) s"
  shows "sim env (mutex_turn env no_uses t s) (atomic_turn env t a)"
proof -
  obtain b w z where st: "mx_bus s = (b, w, z)" by (metis surj_pair)
  let ?g = "scopeToGroup (te_scopes env) (MAX_GROUP_NAME (te_spread env)) scope"
  obtain r gm c w' where join: "mm_join (conn_join (te_spread env)) ?g (memberships b, (connection b, w))
      = (r, (gm, (c, w')))" by (metis surj_pair)
  let ?b = "b\<lparr>memberships := gm, connection := c\<rparr>"
  have a: "a = waiting t (Adding scope k) (s\<lparr>mx_bus := (b, w, z)\<rparr>)" using assms(4) same_bus [OF st] by simp
  show ?thesis
  proof (cases r)
    case (Inl ex)
    have turn: "mutex_turn env no_uses t s = holder_at t (Unlocking (Inl ex)) (?b, w', z) s"
      by (rule holder_goes [OF st assms(3,2)]) (simp_all add: join Inl)
    have at: "atomic_turn env t a = finished t (Inl ex) (s\<lparr>mx_bus := (?b, w', z)\<rparr>)"
      unfolding a by (rule atomic_turn_waiting) (simp add: bus_addSink_def join Inl)
    show ?thesis
      by (rule sim_holder [OF assms(1) turn]) (simp add: at finished_holder_at)
  next
    case (Inr x)
    have turn: "mutex_turn env no_uses t s = holder_at t (Registering scope k) (?b, w', z) s"
      by (rule holder_goes [OF st assms(3,2)]) (simp_all add: join Inr)
    have at: "atomic_turn env t a = finished t (Inr ()) (s\<lparr>mx_bus :=
        (?b\<lparr>scopeDispatcher := disp_addSink (te_dispatcher env) scope k (scopeDispatcher ?b)\<rparr>, w', z)\<rparr>)"
      unfolding a by (rule atomic_turn_waiting) (simp add: bus_addSink_def join Inr)
    show ?thesis
      by (rule sim_holder [OF assms(1) turn]) (simp add: at finished_holder_at with_holder_at)
  qed
qed

lemma sim_quitting:
  assumes "mutex_inv s" and "mx_owner s = Some t" and "frames (mx_threads s t) = [Quitting scope]"
    and "a = waiting t (Removing scope k) s0"
    and "s = with_dispatcher (disp_removeSink (te_dispatcher env) scope k) s0"
  shows "sim env (mutex_turn env no_uses t s) (atomic_turn env t a)"
proof -
  obtain b w z where st0: "mx_bus s0 = (b, w, z)" by (metis surj_pair)
  let ?b = "b\<lparr>scopeDispatcher := disp_removeSink (te_dispatcher env) scope k (scopeDispatcher b)\<rparr>"
  have st: "mx_bus s = (?b, w, z)" using assms(5) st0 by (simp add: with_dispatcher_def)
  let ?g = "scopeToGroup (te_scopes env) (MAX_GROUP_NAME (te_spread env)) scope"
  obtain r gm c w' where leave: "mm_leave (te_debug env) (conn_leave (te_spread env)) ?g
      (memberships b, (connection b, w)) = (r, (gm, (c, w')))" by (metis surj_pair)
  let ?st = "(?b\<lparr>memberships := gm, connection := c\<rparr>, w', z)"
  have a: "a = waiting t (Removing scope k) (s0\<lparr>mx_bus := (b, w, z)\<rparr>)"
    using assms(4) same_bus [OF st0] by simp
  have turn: "mutex_turn env no_uses t s = holder_at t (Unlocking r) ?st s"
    by (rule holder_goes [OF st assms(3,2)]) (simp_all add: leave)
  have at: "atomic_turn env t a = finished t r (s0\<lparr>mx_bus := ?st\<rparr>)"
    unfolding a by (rule atomic_turn_waiting) (simp add: bus_removeSink_def leave)
  have fin: "finished t r (s0\<lparr>mx_bus := ?st\<rparr>) = finished t r (s\<lparr>mx_bus := ?st\<rparr>)"
    using assms(5) by (simp add: finished_def with_dispatcher_def)
  show ?thesis
    by (rule sim_holder [OF assms(1) turn]) (simp add: at fin finished_holder_at)
qed

lemma sim_mapping:
  assumes "mutex_inv s" and "mx_owner s = Some t" and "frames (mx_threads s t) = [Mapping cb ks []]"
    and "block_sim env t (Mapping cb ks []) s a"
  shows "sim env (mutex_turn env no_uses t s) a"
proof -
  obtain b w z where st: "mx_bus s = (b, w, z)" by (metis surj_pair)
  have id: "with_sinks z s = s" using st by (cases s) (simp add: with_sinks_def)
  show ?thesis
  proof (cases ks)
    case Nil
    have turn: "mutex_turn env no_uses t s = holder_at t (Unlocking (Inr ())) (b, w, z) s"
      by (rule holder_goes [OF st assms(3,2)]) (simp_all add: Nil)
    show ?thesis
      using assms(4)
      by (intro sim_holder [OF assms(1) turn]) (simp add: Nil st id finished_holder_at same_bus [OF st])
  next
    case (Cons k ks')
    obtain r z' where call: "sink_call (te_sinks env) cb k z = (r, z')" by (metis surj_pair)
    show ?thesis
    proof (cases r)
      case (Inl ex)
      have turn: "mutex_turn env no_uses t s = holder_at t (Unlocking (Inl ex)) (b, w, z') s"
        by (rule holder_goes [OF st assms(3,2)]) (simp_all add: Cons call Inl)
      have "a = finished t (Inl ex) (with_sinks z' s)"
        using assms(4) by (simp add: Cons st call Inl)
      then show ?thesis
        by (intro sim_holder [OF assms(1) turn]) (simp add: finished_holder_at with_sinks_def st)
    next
      case (Inr x)
      have turn: "mutex_turn env no_uses t s = holder_at t (Mapping cb ks' []) (b, w, z') s"
        by (rule holder_goes [OF st assms(3,2)]) (simp_all add: Cons call Inr)
      obtain r' z'' where rest: "map_sinks (sink_call (te_sinks env) cb) ks' z' = (r', z'')"
        by (metis surj_pair)
      have "a = finished t r' (with_sinks z'' s)"
        using assms(4) by (simp add: Cons st call Inr rest)
      then show ?thesis
        by (intro sim_holder [OF assms(1) turn])
          (simp add: rest with_holder_at finished_holder_at, simp add: with_sinks_def st)
    qed
  qed
qed

lemma sim_unlocking:
  assumes "mutex_inv s" and "mx_owner s = Some t" and "frames (mx_threads s t) = [Unlocking r]"
  shows "mutex_turn env no_uses t s = finished t r s"
  using assms(2,3) by (cases s) (simp add: mutex_turn_def finished_def Let_def)

lemma holder_sim:
  assumes "sim env s a" and "mx_owner s = Some t"
  shows "sim env (mutex_turn env no_uses t s) a
    \<or> sim env (mutex_turn env no_uses t s) (atomic_turn env t a)"
proof -
  have inv: "mutex_inv s" using assms(1) by (simp add: sim_def)
  obtain f where f: "frames (mx_threads s t) = [f]" "inside f" "plain f"
    by (rule inside_turn [OF inv assms(2)]) blast
  then have bs: "block_sim env t f s a" using assms by (simp add: sim_def)
  obtain b w z where st: "mx_bus s = (b, w, z)" by (metis surj_pair)
  show ?thesis
  proof (cases f)
    case (Joining scope k)
    then show ?thesis using sim_joining [OF inv assms(2)] f bs by simp
  next
    case (Registering scope k)
    have turn: "mutex_turn env no_uses t s = holder_at t (Unlocking (Inr ()))
        (b\<lparr>scopeDispatcher := disp_addSink (te_dispatcher env) scope k (scopeDispatcher b)\<rparr>, w, z) s"
      by (rule holder_goes [OF st f(1) assms(2)]) (simp_all add: Registering)
    have "sim env (mutex_turn env no_uses t s) a"
      using bs by (intro sim_holder [OF inv turn])
        (simp add: Registering finished_holder_at with_dispatcher_def st)
    then show ?thesis ..
  next
    case (Unregistering scope k)
    have turn: "mutex_turn env no_uses t s = holder_at t (Quitting scope)
        (b\<lparr>scopeDispatcher := disp_removeSink (te_dispatcher env) scope k (scopeDispatcher b)\<rparr>, w, z) s"
      by (rule holder_goes [OF st f(1) assms(2)]) (simp_all add: Unregistering)
    have "a = waiting t (Removing scope k) (holder_at t f (b, w, z) s)"
      using bs by (simp add: Unregistering waiting_holder_at same_bus [OF st])
    moreover have "holder_at t (Quitting scope)
        (b\<lparr>scopeDispatcher := disp_removeSink (te_dispatcher env) scope k (scopeDispatcher b)\<rparr>, w, z) s
      = with_dispatcher (disp_removeSink (te_dispatcher env) scope k) (holder_at t (Quitting scope) (b, w, z) s)"
      by (simp add: with_holder_at)
    ultimately have "block_sim env t (Quitting scope) (holder_at t (Quitting scope)
        (b\<lparr>scopeDispatcher := disp_removeSink (te_dispatcher env) scope k (scopeDispatcher b)\<rparr>, w, z) s) a"
      unfolding block_sim.simps waiting_holder_at
      by (intro exI [of _ k] exI [of _ "holder_at t (Quitting scope) (b, w, z) s"])
        (simp add: waiting_holder_at)
    from sim_holder [OF inv turn this] show ?thesis ..
  next
    case (Quitting scope)
    with bs obtain k s0 where "a = waiting t (Removing scope k) s0"
      "s = with_dispatcher (disp_removeSink (te_dispatcher env) scope k) s0" by auto
    with sim_quitting [OF inv assms(2)] f Quitting show ?thesis by simp
  next
    case (Mapping cb ks calls)
    with f have "calls = []" by simp
    with sim_mapping [OF inv assms(2)] f bs Mapping show ?thesis by simp
  next
    case (Unlocking r)
    with sim_unlocking [OF inv assms(2), of r env] f bs mutex_inv_turn [OF inv, of env t]
    have "sim env (mutex_turn env no_uses t s) a" by (simp add: sim_def finished_def)
    then show ?thesis ..
  qed (use f in auto)
qed

lemma sink_call_fun:
  "sink_call so (Notify n) = (\<lambda>k. sink_handleNotification so k n)"
  "sink_call so (Report ex) = (\<lambda>k. sink_handleError so k ex)"
  by (simp_all add: fun_eq_iff)

lemma bystander_sim:
  assumes "sim env s a" and "mx_owner s \<noteq> Some u"
  shows "sim env (mutex_turn env no_uses u s) a
    \<or> sim env (mutex_turn env no_uses u s) (atomic_turn env u a)"
proof -
  have inv: "mutex_inv s" using assms(1) by (simp add: sim_def)
  show ?thesis
  proof (cases "\<exists>body. frames (mx_threads s u) = [Locking body]")
    case True
    then obtain body where body: "frames (mx_threads s u) = [Locking body]" by blast
    show ?thesis
    proof (cases "mx_owner s")
      case None
      then have a: "a = s" using assms(1) by (simp add: sim_def)
      obtain b w z where st: "mx_bus s = (b, w, z)" by (metis surj_pair)
      let ?f = "enter_block env body (scopeDispatcher b) z"
      have turn: "mutex_turn env no_uses u s = holder_at u ?f (b, w, z) s"
        using enter_turn [OF body None st] by (simp add: holder_at_def)
      have self: "waiting u body (s\<lparr>mx_bus := (b, w, z)\<rparr>) = s"
        using body None st by (cases s) (auto simp: waiting_def fun_upd_idem)
      show ?thesis
      proof (cases body)
        case (Dispatching cb)
        obtain r z' where rest: "map_sinks (sink_call (te_sinks env) cb)
            (sinks_for (te_dispatcher env) (te_sinks env) (scopeDispatcher b) cb z) z = (r, z')"
          by (metis surj_pair)
        have call: "call_bus (te_dispatcher env) (te_sinks env) (scopeDispatcher b) cb z = (r, z')"
          using rest by (cases cb) (simp_all add: bus_handleIncoming_def bus_handleError_def sink_call_fun)
        have "atomic_turn env u s = finished u r (s\<lparr>mx_bus := (b, w, z')\<rparr>)"
          using atomic_turn_waiting [of env body "(b, w, z)" r "(b, w, z')" u s] self call Dispatching by simp
        then have "block_sim env u ?f (holder_at u ?f (b, w, z) s) (atomic_turn env u s)"
          by (simp add: Dispatching rest with_holder_at finished_holder_at)
        from sim_holder [OF inv turn this] a show ?thesis by simp
      next
        case (Adding scope k)
        then have "block_sim env u ?f (holder_at u ?f (b, w, z) s) s"
          using self by (simp add: waiting_holder_at)
        from sim_holder [OF inv turn this] a show ?thesis by simp
      next
        case (Removing scope k)
        then have "block_sim env u ?f (holder_at u ?f (b, w, z) s) s"
          using self by (simp add: waiting_holder_at)
        from sim_holder [OF inv turn this] a show ?thesis by simp
      qed
    next
      case (Some v)
      with body have "mutex_turn env no_uses u s = s" by (simp add: mutex_turn_def)
      with assms(1) show ?thesis by simp
    qed
  next
    case no_lock: False
    have "frames (mx_threads s u) = [] \<or> (\<exists>f. frames (mx_threads s u) = [f] \<and> \<not> inside f)"
      by (cases rule: thread_cases [OF inv, of u]) (use assms(2) in auto)
    from outside_turn [OF this] no_lock obtain c w where c: "thread_outside c"
      and turns: "\<And>s'. same_outside u s s' \<Longrightarrow> mutex_turn env no_uses u s' = outside_update u c w s'
        \<and> atomic_turn env u s' = outside_update u c w s'" by metis
    have inv': "mutex_inv (outside_update u c w s)"
      by (rule mutex_inv_outside_update [OF inv c assms(2)])
    have owner: "mx_owner (outside_update u c w s) = mx_owner s" by (simp add: outside_update_def)
    have "sim env (outside_update u c w s) (outside_update u c w a) \<and> same_outside u s a"
    proof (cases "mx_owner s")
      case None
      then show ?thesis
        using assms(1) inv' owner by (simp add: sim_def same_outside_intros(5))
    next
      case (Some t)
      with assms have t: "u \<noteq> t" and bs: "block_sim env t (hd (frames (mx_threads s t))) s a"
        by (auto simp: sim_def)
      have "mx_threads (outside_update u c w s) t = mx_threads s t"
        using t by (simp add: outside_update_def)
      then show ?thesis
        using inv' owner Some block_sim_outside_update [OF bs t] block_sim_same_outside [OF bs t]
        by (simp add: sim_def)
    qed
    then show ?thesis
      using turns [of a] turns [OF same_outside_intros(5)] by simp
  qed
qed

lemma run_sim:
  assumes "sim env s a"
  shows "\<exists>bs. subseq bs as \<and> sim env (mutex_run env no_uses as s) (atomic_run env bs a)"
  using assms
proof (induction as arbitrary: s a)
  case Nil
  then show ?case by (intro exI [of _ "[]"]) simp
next
  case (Cons u as)
  from holder_sim [OF Cons.prems, of u] bystander_sim [OF Cons.prems, of u]
  consider "sim env (mutex_turn env no_uses u s) a"
    | "sim env (mutex_turn env no_uses u s) (atomic_turn env u a)" by blast
  then show ?case
  proof cases
    case 1
    from Cons.IH [OF this] obtain bs where "subseq bs as"
      "sim env (mutex_run env no_uses as (mutex_turn env no_uses u s)) (atomic_run env bs a)" by blast
    then show ?thesis by (intro exI [of _ bs]) auto
  next
    case 2
    from Cons.IH [OF this] obtain bs where "subseq bs as" "sim env
        (mutex_run env no_uses as (mutex_turn env no_uses u s)) (atomic_run env bs (atomic_turn env u a))"
      by blast
    then show ?thesis by (intro exI [of _ "u # bs"]) simp
  qed
qed

text \<open>C10 A block under \<open>sinkMutex\<close> can be taken as one step. Let any number of threads call a bus, in any
  interleaving of the single steps of \<open>addSink\<close>, \<open>removeSink\<close>, \<open>handleOutgoingNotification\<close>,
  \<open>handleIncomingNotification\<close> and \<open>handleError\<close>, and let no sink call its own bus. When the mutex is free,
  the bus, the library, the sinks and all threads with the results of their calls are in a state that
  an interleaving of whole blocks reaches too, in which every thread takes at most the turns it took.
  And at every moment at most one thread is inside a block: the one that holds the mutex.\<close>

theorem blocks_are_atomic:
  assumes "s0 = mutex_start st calls" and "s = mutex_run env (\<lambda>k cb. []) as s0"
  shows "(\<forall>i f fs. frames (mx_threads s i) = f # fs \<and> inside f \<longrightarrow> mx_owner s = Some i)
    \<and> (mx_owner s = None \<longrightarrow> (\<exists>bs. subseq bs as \<and> s = atomic_run env bs s0))"
proof -
  have "sim env s0 s0"
    by (simp add: assms(1) sim_def mutex_inv_start) (simp add: mutex_start_def)
  from run_sim [OF this, of as] obtain bs where bs: "subseq bs as" and sim: "sim env s (atomic_run env bs s0)"
    unfolding assms(2) by blast
  then have inv: "mutex_inv s" by (simp add: sim_def)
  have "mx_owner s = Some i" if "frames (mx_threads s i) = f # fs" "inside f" for i f fs
    by (cases rule: thread_cases [OF inv, of i]) (use that in auto)
  with bs sim show ?thesis by (auto simp: sim_def)
qed

end
