(* ===== verification/MutexProgress.thy ===== *)
theory MutexProgress
  imports Atomicity
begin

text \<open>
  Which calls of a bus come back. While no sink calls its own bus, threads can always go on: from every
  state a schedule finishes all calls. A sink that calls its own bus blocks its thread for good, with
  the mutex held.
\<close>

lemma mutex_inv_run: "mutex_inv s \<Longrightarrow> mutex_inv (mutex_run env no_uses as s)"
  by (induction as arbitrary: s) (simp_all add: mutex_inv_turn)

section \<open>One call comes back\<close>

text \<open>Thread \<open>i\<close> has come back from its call, the mutex is free, other threads have not moved.\<close>

definition came_back ::
  "nat \<Rightarrow> (nat \<Rightarrow> ('sc, 'm) caller) \<Rightarrow> ('sc, 'm, 'd, 'z) mutex_state \<Rightarrow> bool" where
  "came_back i th s \<longleftrightarrow> mx_owner s = None
     \<and> (\<exists>r. mx_threads s = th(i := (th i)\<lparr>frames := [], returned := returned (th i) @ [r]\<rparr>))"

definition comes_back ::
  "('sc, 'm, 'd, 'z) thread_env \<Rightarrow> nat \<Rightarrow> (nat \<Rightarrow> ('sc, 'm) caller) \<Rightarrow> ('sc, 'm, 'd, 'z) mutex_state \<Rightarrow> bool" where
  "comes_back env i th s \<longleftrightarrow> (\<exists>n. came_back i th (mutex_run env no_uses (replicate n i) s))"

lemma came_back_moved: "came_back i (th(i := (th i)\<lparr>frames := fs\<rparr>)) s = came_back i th s"
  by (simp add: came_back_def)

lemma comes_back_now: "came_back i th s \<Longrightarrow> comes_back env i th s"
  unfolding comes_back_def by (intro exI [of _ 0]) simp

lemma comes_back_turn:
  assumes "comes_back env i th (mutex_turn env no_uses i s)"
  shows "comes_back env i th s"
proof -
  from assms obtain n where "came_back i th (mutex_run env no_uses (replicate n i) (mutex_turn env no_uses i s))"
    unfolding comes_back_def by blast
  then show ?thesis unfolding comes_back_def by (intro exI [of _ "Suc n"]) simp
qed

lemma comes_back_held:
  assumes "mutex_turn env no_uses i s = holder_at i f st s"
    and "comes_back env i (mx_threads (holder_at i f st s)) (holder_at i f st s)"
  shows "comes_back env i (mx_threads s) s"
proof (rule comes_back_turn)
  show "comes_back env i (mx_threads s) (mutex_turn env no_uses i s)"
    using assms by (simp add: comes_back_def holder_at_def came_back_moved)
qed

lemma comes_back_unlocking:
  assumes "mx_owner s = Some i" and "frames (mx_threads s i) = [Unlocking r]"
  shows "comes_back env i (mx_threads s) s"
proof (rule comes_back_turn, rule comes_back_now)
  show "came_back i (mx_threads s) (mutex_turn env no_uses i s)"
    using assms by (auto simp: mutex_turn_def came_back_def Let_def)
qed

lemma comes_back_mapping:
  assumes "mx_owner s = Some i" and "frames (mx_threads s i) = [Mapping cb ks []]"
  shows "comes_back env i (mx_threads s) s"
  using assms
proof (induction ks arbitrary: s)
  case Nil
  obtain b w z where st: "mx_bus s = (b, w, z)" by (metis surj_pair)
  have turn: "mutex_turn env no_uses i s = holder_at i (Unlocking (Inr ())) (b, w, z) s"
    by (rule holder_goes [OF st Nil(2,1)]) simp_all
  show ?case by (rule comes_back_held [OF turn], rule comes_back_unlocking) simp_all
next
  case (Cons k ks)
  obtain b w z where st: "mx_bus s = (b, w, z)" by (metis surj_pair)
  obtain r z' where call: "sink_call (te_sinks env) cb k z = (r, z')" by (metis surj_pair)
  show ?case
  proof (cases r)
    case (Inl ex)
    have turn: "mutex_turn env no_uses i s = holder_at i (Unlocking (Inl ex)) (b, w, z') s"
      by (rule holder_goes [OF st Cons.prems(2,1)]) (simp_all add: call Inl)
    show ?thesis by (rule comes_back_held [OF turn], rule comes_back_unlocking) simp_all
  next
    case (Inr x)
    have turn: "mutex_turn env no_uses i s = holder_at i (Mapping cb ks []) (b, w, z') s"
      by (rule holder_goes [OF st Cons.prems(2,1)]) (simp_all add: call Inr)
    show ?thesis by (rule comes_back_held [OF turn], rule Cons.IH) simp_all
  qed
qed

lemma holder_goes_on:
  assumes "mx_owner s = Some i" and "frames (mx_threads s i) = [f]" and "inside f"
    and "frame_step env no_uses f (mx_bus s) = (Goto f', st')"
    and "\<And>s' :: ('sc, 'm, 'd, 'z) mutex_state. mx_owner s' = Some i \<Longrightarrow> frames (mx_threads s' i) = [f'] \<Longrightarrow>
      comes_back env i (mx_threads s') s'"
  shows "comes_back env i (mx_threads s) (s :: ('sc, 'm, 'd, 'z) mutex_state)"
  by (rule comes_back_held [OF holder_goes [OF refl assms(2,1,4,3)]], rule assms(5)) simp_all

lemma comes_back_inside:
  assumes "mx_owner s = Some i" and "frames (mx_threads s i) = [f]" and "inside f" and "plain f"
  shows "comes_back env i (mx_threads s) s"
proof -
  obtain b w z where st: "mx_bus s = (b, w, z)" by (metis surj_pair)
  have registering: "comes_back env i (mx_threads s') s'"
    if "mx_owner s' = Some i" "frames (mx_threads s' i) = [Registering scope k]"
    for s' :: "('a, 'b, 'c, 'd) mutex_state" and scope k
    by (cases "mx_bus s'", rule holder_goes_on [OF that]) (auto intro: comes_back_unlocking)
  have quitting: "comes_back env i (mx_threads s') s'"
    if "mx_owner s' = Some i" "frames (mx_threads s' i) = [Quitting scope]"
    for s' :: "('a, 'b, 'c, 'd) mutex_state" and scope
  proof -
    obtain nx st' where step: "frame_step env no_uses (Quitting scope) (mx_bus s') = (nx, st')"
      by (metis surj_pair)
    then have "\<exists>r. nx = Goto (Unlocking r)" by (cases "mx_bus s'") (auto split: prod.splits)
    with step that show ?thesis by (auto intro: holder_goes_on comes_back_unlocking)
  qed
  show ?thesis
  proof (cases f)
    case (Joining scope k)
    obtain nx st' where step: "frame_step env no_uses f (mx_bus s) = (nx, st')" by (metis surj_pair)
    then have "(\<exists>r. nx = Goto (Unlocking r)) \<or> nx = Goto (Registering scope k)"
      by (cases "mx_bus s") (auto simp: Joining split: prod.splits sum.splits)
    with step assms show ?thesis by (auto intro: holder_goes_on comes_back_unlocking registering)
  next
    case (Registering scope k)
    with assms show ?thesis by (auto intro: registering)
  next
    case (Unregistering scope k)
    show ?thesis
      by (rule holder_goes_on [OF assms(1,2,3)])
        (auto simp: Unregistering st intro: quitting)
  next
    case (Quitting scope)
    with assms show ?thesis by (auto intro: quitting)
  next
    case (Mapping cb ks calls)
    with assms show ?thesis by (auto intro: comes_back_mapping)
  next
    case (Unlocking r)
    with assms show ?thesis by (auto intro: comes_back_unlocking)
  qed (use assms in auto)
qed

lemma free_goes_on:
  assumes "mx_owner s = None" and "frames (mx_threads s i) = [f]" and "\<not> inside f"
    and "\<And>body. f \<noteq> Locking body" and "frame_step env no_uses f (mx_bus s) = (nx, st')"
    and "(\<exists>r. nx = Return r) \<or> (\<exists>f'. nx = Goto f'
      \<and> (\<forall>s' :: ('sc, 'm, 'd, 'z) mutex_state. mx_owner s' = None \<longrightarrow> frames (mx_threads s' i) = [f'] \<longrightarrow>
        comes_back env i (mx_threads s') s'))"
  shows "comes_back env i (mx_threads s) (s :: ('sc, 'm, 'd, 'z) mutex_state)"
proof (rule comes_back_turn)
  have turn: "mutex_turn env no_uses i s = s\<lparr>mx_bus := st', mx_owner := None,
      mx_threads := (mx_threads s)(i := advance nx [] (mx_threads s i))\<rparr>"
    using assms(1,2,5) owner_after_outside [OF assms(3,4), of i None] by (simp add: mutex_turn_def)
  show "comes_back env i (mx_threads s) (mutex_turn env no_uses i s)"
    using assms(6)
  proof
    assume "\<exists>r. nx = Return r"
    then show ?thesis by (intro comes_back_now) (auto simp: turn came_back_def)
  next
    assume "\<exists>f'. nx = Goto f' \<and> (\<forall>s' :: ('sc, 'm, 'd, 'z) mutex_state. mx_owner s' = None \<longrightarrow>
      frames (mx_threads s' i) = [f'] \<longrightarrow> comes_back env i (mx_threads s') s')"
    then obtain f' where nx: "nx = Goto f'" and on: "\<And>s' :: ('sc, 'm, 'd, 'z) mutex_state.
        mx_owner s' = None \<Longrightarrow> frames (mx_threads s' i) = [f'] \<Longrightarrow> comes_back env i (mx_threads s') s'"
      by blast
    have "comes_back env i (mx_threads (mutex_turn env no_uses i s)) (mutex_turn env no_uses i s)"
      by (rule on) (simp_all add: turn nx)
    then show ?thesis by (simp add: turn nx comes_back_def came_back_moved)
  qed
qed

lemma comes_back_locking:
  assumes "mx_owner s = None" and "frames (mx_threads s i) = [Locking body]"
  shows "comes_back env i (mx_threads s) s"
proof -
  obtain b w z where st: "mx_bus s = (b, w, z)" by (metis surj_pair)
  let ?f = "enter_block env body (scopeDispatcher b) z"
  have turn: "mutex_turn env no_uses i s = holder_at i ?f (b, w, z) s"
    using enter_turn [OF assms(2,1) st] by (simp add: holder_at_def)
  show ?thesis
    by (rule comes_back_held [OF turn], rule comes_back_inside [of _ _ ?f]) simp_all
qed

lemma comes_back_posting:
  assumes "mx_owner s = None" and "frames (mx_threads s i) = [Posting n m fs]"
  shows "comes_back env i (mx_threads s) s"
  using assms
proof (induction fs arbitrary: s m)
  case Nil
  then show ?case
    by (intro free_goes_on [OF Nil]) (auto intro: comes_back_locking)
next
  case (Cons f fs)
  obtain nx st' where step: "frame_step env no_uses (Posting n m (f # fs)) (mx_bus s) = (nx, st')"
    by (metis surj_pair)
  then have "(\<exists>r. nx = Return r) \<or> (\<exists>m'. nx = Goto (Posting n m' fs))"
    by (cases "mx_bus s") (auto split: option.splits prod.splits sum.splits)
  with Cons.IH show ?case by (intro free_goes_on [OF Cons.prems _ _ step]) auto
qed

lemma comes_back_free:
  assumes "mx_owner s = None" and "frames (mx_threads s i) = [f]" and "\<not> inside f"
  shows "comes_back env i (mx_threads s) s"
proof (cases f)
  case (Begin call)
  have step: "frame_step env no_uses f (mx_bus s) = (begin_call env call, mx_bus s)" by (simp add: Begin)
  show ?thesis
    by (rule free_goes_on [OF assms _ step]; cases rule: begin_call_cases [of env call])
      (auto simp: Begin intro: comes_back_locking comes_back_posting)
next
  case (Posting n m fs)
  with assms show ?thesis by (auto intro: comes_back_posting)
next
  case (Locking body)
  with assms show ?thesis by (auto intro: comes_back_locking)
qed (use assms in auto)

section \<open>All calls come back\<close>

definition at_rest :: "('sc, 'm) caller \<Rightarrow> bool" where
  "at_rest c \<longleftrightarrow> todo c = [] \<and> frames c = []"

text \<open>The number of calls a thread has made, is in and will make.\<close>

definition calls_of :: "('sc, 'm) caller \<Rightarrow> nat" where
  "calls_of c = length (returned c) + length (frames c) + length (todo c)"

lemma thread_finishes:
  assumes "mutex_inv s" and "mx_owner s = None"
  shows "\<exists>n. let s' = mutex_run env no_uses (replicate n i) s in
    mx_owner s' = None \<and> at_rest (mx_threads s' i) \<and> calls_of (mx_threads s' i) = calls_of (mx_threads s i)
    \<and> mutex_inv s' \<and> (\<forall>j. j \<noteq> i \<longrightarrow> mx_threads s' j = mx_threads s j)"
  using assms
proof (induction "2 * length (todo (mx_threads s i)) + length (frames (mx_threads s i))"
    arbitrary: s rule: less_induct)
  case less
  let ?c = "mx_threads s i"
  from less.prems(1) show ?case
  proof (cases rule: thread_cases [where i = i])
    case idle
    show ?thesis
    proof (cases "todo ?c")
      case Nil
      with idle less.prems show ?thesis by (intro exI [of _ 0]) (simp add: at_rest_def)
    next
      case (Cons call calls)
      let ?s = "mutex_turn env no_uses i s"
      have s: "?s = s\<lparr>mx_threads := (mx_threads s)(i := ?c\<lparr>todo := calls, frames := [Begin call]\<rparr>)\<rparr>"
        using idle Cons by (simp add: mutex_turn_def Let_def)
      have "mutex_inv ?s" by (rule mutex_inv_turn [OF less.prems(1)])
      from less.hyps [OF _ this] idle less.prems Cons obtain n where
        "let s' = mutex_run env no_uses (replicate n i) ?s in
          mx_owner s' = None \<and> at_rest (mx_threads s' i) \<and> calls_of (mx_threads s' i) = calls_of (mx_threads ?s i)
          \<and> mutex_inv s' \<and> (\<forall>j. j \<noteq> i \<longrightarrow> mx_threads s' j = mx_threads ?s j)"
        by (auto simp: s)
      then show ?thesis
        using idle Cons by (intro exI [of _ "Suc n"]) (simp add: Let_def, simp add: s calls_of_def)
    qed
  next
    case (outside f)
    from comes_back_free [OF less.prems(2) outside(1,2), of env] obtain n where
      back_n: "came_back i (mx_threads s) (mutex_run env no_uses (replicate n i) s)"
      unfolding comes_back_def by blast
    let ?s = "mutex_run env no_uses (replicate n i) s"
    obtain r where s: "mx_owner ?s = None"
      "mx_threads ?s = (mx_threads s)(i := ?c\<lparr>frames := [], returned := returned ?c @ [r]\<rparr>)"
      using back_n by (auto simp: came_back_def)
    have inv: "mutex_inv ?s" by (rule mutex_inv_run [OF less.prems(1)])
    from less.hyps [OF _ this s(1)] outside obtain m where
      "let s' = mutex_run env no_uses (replicate m i) ?s in
        mx_owner s' = None \<and> at_rest (mx_threads s' i) \<and> calls_of (mx_threads s' i) = calls_of (mx_threads ?s i)
        \<and> mutex_inv s' \<and> (\<forall>j. j \<noteq> i \<longrightarrow> mx_threads s' j = mx_threads ?s j)"
      by (auto simp: s(2))
    then show ?thesis
      using outside by (intro exI [of _ "n + m"])
        (simp add: Let_def replicate_add mutex_run_append, simp add: s(2) calls_of_def)
  next
    case (inside f)
    with less.prems show ?thesis by simp
  qed
qed

lemma no_invocation:
  "frame_step env no_uses f st = (nx, st') \<Longrightarrow> plain f \<Longrightarrow> nx \<noteq> Invoke call f'"
  by (cases "(env, no_uses :: nat \<Rightarrow> ('a, 'b) callback \<Rightarrow> ('a, 'b) bus_call list, f, st)" rule: frame_step.cases)
    (auto split: prod.splits sum.splits option.splits elim: begin_call.elims)

lemma calls_of_turn:
  assumes "mutex_inv s"
  shows "calls_of (mx_threads (mutex_turn env no_uses u s) i) = calls_of (mx_threads s i)"
proof (cases "i = u")
  case True
  have step: ?thesis if "frames (mx_threads s u) = [f]" "plain f" for f
  proof (cases "blocked (mx_owner s) f")
    case False
    obtain nx st' where step: "frame_step env no_uses f (mx_bus s) = (nx, st')" by (metis surj_pair)
    have "calls_of (advance nx [] (mx_threads s u)) = calls_of (mx_threads s u)"
      using no_invocation [OF step that(2)] that(1) by (cases nx) (auto simp: calls_of_def)
    with False step that True show ?thesis by (simp add: mutex_turn_def)
  qed (use that True in \<open>simp add: mutex_turn_def\<close>)
  from assms have "frames (mx_threads s u) = [] \<or> (\<exists>f. frames (mx_threads s u) = [f] \<and> plain f)"
    by (cases "frames (mx_threads s u)" rule: remdups_adj.cases)
      (auto simp: mutex_inv_def thread_ok_def dest!: spec [of _ u])
  then show ?thesis
  proof
    assume "frames (mx_threads s u) = []"
    with True show ?thesis
      by (cases "todo (mx_threads s u)") (simp_all add: mutex_turn_def calls_of_def Let_def)
  qed (use step in blast)
qed (simp add: mutex_turn_def Let_def split: list.splits prod.splits)

lemma calls_of_run:
  "mutex_inv s \<Longrightarrow> calls_of (mx_threads (mutex_run env no_uses as s) i) = calls_of (mx_threads s i)"
  by (induction as arbitrary: s) (simp_all add: mutex_inv_turn calls_of_turn)

lemma all_finish:
  assumes "finite A" and "mutex_inv s" and "mx_owner s = None"
    and "\<And>i. i \<notin> A \<Longrightarrow> at_rest (mx_threads s i)"
  shows "\<exists>bs. mx_owner (mutex_run env no_uses bs s) = None
    \<and> (\<forall>i. at_rest (mx_threads (mutex_run env no_uses bs s) i))"
  using assms
proof (induction A arbitrary: s rule: finite_induct)
  case empty
  then show ?case by (intro exI [of _ "[]"]) simp
next
  case (insert a A)
  from thread_finishes [OF insert.prems(1,2), of env a] obtain n where
    s: "mx_owner (mutex_run env no_uses (replicate n a) s) = None"
      "at_rest (mx_threads (mutex_run env no_uses (replicate n a) s) a)"
      "mutex_inv (mutex_run env no_uses (replicate n a) s)"
      "\<forall>j. j \<noteq> a \<longrightarrow> mx_threads (mutex_run env no_uses (replicate n a) s) j = mx_threads s j"
    by (auto simp: Let_def)
  have "at_rest (mx_threads (mutex_run env no_uses (replicate n a) s) i)" if "i \<notin> A" for i
    using s(2,4) insert.prems(3) [of i] that by (cases "i = a") auto
  from insert.IH [OF s(3,1) this] obtain bs where
    "mx_owner (mutex_run env no_uses bs (mutex_run env no_uses (replicate n a) s)) = None
     \<and> (\<forall>i. at_rest (mx_threads (mutex_run env no_uses bs (mutex_run env no_uses (replicate n a) s)) i))"
    by blast
  then show ?case by (intro exI [of _ "replicate n a @ bs"]) (simp add: mutex_run_append)
qed

lemma mutex_released:
  assumes "mutex_inv s"
  shows "\<exists>bs. mx_owner (mutex_run env no_uses bs s) = None"
proof (cases "mx_owner s")
  case None
  then show ?thesis by (intro exI [of _ "[]"]) simp
next
  case (Some t)
  obtain f where "frames (mx_threads s t) = [f]" "inside f" "plain f"
    by (rule inside_turn [OF assms Some]) blast
  from comes_back_inside [OF Some this, of env] show ?thesis
    by (auto simp: comes_back_def came_back_def)
qed

text \<open>C18 No call of a bus blocks for good while no sink calls its own bus: after any schedule of
  finitely many threads there is a continuation that brings every call of every thread back, with one
  result each, and leaves the mutex free.\<close>

theorem calls_come_back:
  assumes "finite {i. calls i \<noteq> []}" and "s = mutex_run env (\<lambda>k cb. []) as (mutex_start st calls)"
  shows "\<exists>bs. mx_owner (mutex_run env (\<lambda>k cb. []) bs s) = None
    \<and> (\<forall>i. at_rest (mx_threads (mutex_run env (\<lambda>k cb. []) bs s) i)
        \<and> length (returned (mx_threads (mutex_run env (\<lambda>k cb. []) bs s) i)) = length (calls i))"
proof -
  have inv: "mutex_inv s" unfolding assms(2) by (rule mutex_inv_run [OF mutex_inv_start])
  then obtain bs1 where free: "mx_owner (mutex_run env no_uses bs1 s) = None"
    using mutex_released by blast
  have count: "calls_of (mx_threads (mutex_run env no_uses bs s) i) = length (calls i)" for bs i
    unfolding calls_of_run [OF inv] unfolding assms(2) calls_of_run [OF mutex_inv_start]
    by (simp add: mutex_start_def calls_of_def)
  have "at_rest (mx_threads (mutex_run env no_uses bs1 s) i)" if "i \<notin> {i. calls i \<noteq> []}" for i
    using count [of bs1 i] that by (simp add: calls_of_def at_rest_def)
  from all_finish [OF assms(1) mutex_inv_run [OF inv] free this] obtain bs2 where
    rest: "mx_owner (mutex_run env no_uses (bs1 @ bs2) s) = None"
      "\<And>i. at_rest (mx_threads (mutex_run env no_uses (bs1 @ bs2) s) i)"
    by (auto simp: mutex_run_append)
  have "length (returned (mx_threads (mutex_run env no_uses (bs1 @ bs2) s) i)) = length (calls i)" for i
    using rest(2) [of i] count [of "bs1 @ bs2" i] by (simp add: at_rest_def calls_of_def)
  with rest show ?thesis by (intro exI [of _ "bs1 @ bs2"]) simp
qed

end
