(* ===== verification/Shutdown.thy ===== *)
theory Shutdown
  imports BusThreads "HOL-Library.Sublist"
begin

text \<open>
  What the threads around a bus do together: an invariant of all schedules, the end of a bus when its
  last owner lets go, and the two ways in which it never ends.
\<close>

section \<open>The library calls of the bus operations\<close>

lemma conn_inv_send:
  "conn_inv api (c, w) \<Longrightarrow> conn_send api dbg m (c, w) = (r, s') \<Longrightarrow> conn_inv api s'"
  using conn_apply_inv [of api c w dbg "CSend m"] by simp

lemma conn_inv_join:
  "conn_inv api (c, w) \<Longrightarrow> conn_join api g (c, w) = (r, s') \<Longrightarrow> conn_inv api s'"
  using conn_apply_inv [of api c w dbg "CJoin g"] by simp

lemma conn_inv_leave:
  "conn_inv api (c, w) \<Longrightarrow> conn_leave api g (c, w) = (r, s') \<Longrightarrow> conn_inv api s'"
  using conn_apply_inv [of api c w dbg "CLeave g"] by simp

lemma conn_inv_receive:
  assumes "conn_inv api (c, w)"
    and "conn_receive (api\<lparr>SP_receive := f\<rparr>) dbg m (c, w) = (r, (m', s'))"
  shows "conn_inv api s'"
proof -
  have "conn_inv (api\<lparr>SP_receive := f\<rparr>) (c, w)" using assms(1) by (simp add: conn_inv_def)
  with assms(2) have "conn_inv (api\<lparr>SP_receive := f\<rparr>) s'"
    using conn_apply_inv [of "api\<lparr>SP_receive := f\<rparr>" c w dbg "CReceive m"] by simp
  then show ?thesis by (simp add: conn_inv_def)
qed

lemma conn_inv_interrupt:
  "conn_inv api (c, w) \<Longrightarrow> conn_interruptReceive api (c, w) = (r, s') \<Longrightarrow> conn_inv api s'"
  using conn_apply_inv [of api c w dbg "CInterrupt"] by simp

lemma conn_inv_deactivate:
  "conn_inv api (c, w) \<Longrightarrow> conn_deactivate (c, w) = (r, s') \<Longrightarrow> conn_inv api s'"
  using conn_apply_inv [of api c w dbg "CDeactivate"] by simp

lemma send_fragments_inv:
  "conn_inv api s \<Longrightarrow> send_fragments ca api dbg k fs m s = (r, s') \<Longrightarrow> conn_inv api s'"
proof (induction fs arbitrary: m s)
  case Nil
  then show ?case by auto
next
  case (Cons f fs)
  show ?case
  proof (cases "serialize ca (f\<lparr>fn_num_data_parts := of_nat k\<rparr>)")
    case None
    with Cons.prems show ?thesis by auto
  next
    case (Some bytes)
    obtain q s1 where send: "conn_send api dbg (setData bytes m) s = (q, s1)" by (metis surj_pair)
    have inv: "conn_inv api s1"
      using conn_inv_send [of api "fst s" "snd s"] Cons.prems(1) send by simp
    show ?thesis
    proof (cases q)
      case (Inl e)
      with Cons.prems(2) Some send inv show ?thesis by auto
    next
      case (Inr x)
      with Cons.prems(2) Some send have "send_fragments ca api dbg k fs (setData bytes m) s1 = (r, s')"
        by simp
      with inv show ?thesis by (rule Cons.IH)
    qed
  qed
qed

lemma mm_join_inv:
  assumes "conn_inv api (c, w)" and "mm_join (conn_join api) g (gm, (c, w)) = (r, (gm', s'))"
  shows "conn_inv api s'"
proof (cases "map_of gm g")
  case None
  obtain q s1 where join: "conn_join api g (c, w) = (q, s1)" by (metis surj_pair)
  have "s' = s1" using assms(2) None join by (auto simp: mm_join_def split: sum.splits)
  with conn_inv_join [OF assms(1) join] show ?thesis by simp
qed (use assms in \<open>auto simp: mm_join_def\<close>)

lemma mm_leave_inv:
  assumes "conn_inv api (c, w)" and "mm_leave dbg (conn_leave api) g (gm, (c, w)) = (r, (gm', s'))"
  shows "conn_inv api s'"
proof -
  obtain q s1 where leave: "conn_leave api g (c, w) = (q, s1)" by (metis surj_pair)
  have "s' = s1 \<or> s' = (c, w)"
    using assms(2) leave by (auto simp: mm_leave_def split: option.splits if_splits)
  with conn_inv_leave [OF assms(1) leave] assms(1) show ?thesis by auto
qed

section \<open>What a use of the bus leaves alone\<close>

lemma bus_apply_frame:
  assumes "bus_apply env u (b, w, z) = (r, (b', w', z'))"
  shows "bus_active b' = bus_active b \<and> receiver b' = receiver b \<and> connection b' = connection b"
proof (cases u)
  case (AddSink scope k)
  with assms have "bus_addSink (te_scopes env) (te_spread env) (te_dispatcher env) scope k (b, w, z)
      = (r, (b', w', z'))" by simp
  then show ?thesis by (rule bus_addSink_cases) (auto dest: frame_rules)
next
  case (RemoveSink scope k)
  with assms have "bus_removeSink (te_scopes env) (te_spread env) (te_debug env) (te_dispatcher env)
      scope k (b, w, z) = (r, (b', w', z'))" by simp
  then show ?thesis by (rule bus_removeSink_cases) (auto dest: frame_rules)
next
  case (Send n)
  then show ?thesis using assms bus_handleOutgoing_frame by fastforce
qed

lemma bus_apply_conn_inv:
  assumes "bus_apply env u (b, w, z) = (r, (b', w', z'))"
    and "conn_inv (te_spread env) (connection b, w)"
  shows "conn_inv (te_spread env) (connection b', w')"
proof (cases u)
  case (AddSink scope k)
  with assms(1) have "bus_addSink (te_scopes env) (te_spread env) (te_dispatcher env) scope k (b, w, z)
      = (r, (b', w', z'))" by simp
  then show ?thesis by (rule bus_addSink_cases) (auto dest: mm_join_inv [OF assms(2)])
next
  case (RemoveSink scope k)
  with assms(1) have "bus_removeSink (te_scopes env) (te_spread env) (te_debug env)
      (te_dispatcher env) scope k (b, w, z) = (r, (b', w', z'))" by simp
  then show ?thesis by (rule bus_removeSink_cases) (auto dest: mm_leave_inv [OF assms(2)])
next
  case (Send n)
  obtain q b1 w1 where send: "sendNotification (te_codec env) (te_spread env) (te_debug env) n (b, w)
      = (q, (b1, w1))" by (metis prod.exhaust)
  have "b' = b1 \<and> w' = w1"
    using assms(1) Send send by (auto simp: bus_handleOutgoing_def split: sum.splits prod.splits)
  moreover have "conn_inv (te_spread env) (connection b1, w1)"
    using send assms(2)
    by (auto simp: sendNotification_def split: prod.splits sum.splits dest: send_fragments_inv)
  ultimately show ?thesis by simp
qed

section \<open>The invariant\<close>

fun in_destructor :: "('sc, 'm) receiver_at \<Rightarrow> bool" where
  "in_destructor (Destroying d) = True"
| "in_destructor r = False"

fun has_died :: "('sc, 'm) receiver_at \<Rightarrow> bool" where
  "has_died (Died ex) = True"
| "has_died r = False"

definition task_cancelled :: "('m, 'd) bus \<Rightarrow> bool" where
  "task_cancelled b = (case receiver b of None \<Rightarrow> False | Some t \<Rightarrow> taskCancelled t)"

text \<open>The bus is connected until the destructor, on an application thread, has disconnected it.\<close>

definition bus_part :: "('sc, 'm, 'd, 'z) thread_env \<Rightarrow> ('sc, 'm, 'd, 'z) threads \<Rightarrow> bool" where
  "bus_part env s \<longleftrightarrow>
     conn_inv (te_spread env) (connection (th_bus s), th_calls s)
   \<and> receiver (th_bus s) \<noteq> None
   \<and> bus_active (th_bus s) = (th_destructor s \<noteq> Some Destroyed)
   \<and> connected (connection (th_bus s)) = (th_destructor s \<noteq> Some Destroyed)"

text \<open>
  A destructor runs when no owner is left and the receiver does not hold the bus; past \<open>waitDone\<close> the
  receiver has ended. The receiver never gets past \<open>waitDone\<close> in a destructor of its own.
\<close>

definition destructor_part :: "('sc, 'm, 'd, 'z) threads \<Rightarrow> bool" where
  "destructor_part s \<longleftrightarrow> (case th_destructor s of
       None \<Rightarrow> th_owners s = 0 \<longrightarrow> holds_bus (th_receiver s) \<or> in_destructor (th_receiver s)
                \<or> has_died (th_receiver s)
     | Some d \<Rightarrow> th_owners s = 0 \<and> \<not> holds_bus (th_receiver s) \<and> \<not> in_destructor (th_receiver s)
         \<and> (\<forall>ex. d \<noteq> Thrown ex) \<and> (d \<in> {Disconnecting, Destroyed} \<longrightarrow> th_receiver s = Ended)
         \<and> (d \<notin> {Entered, Cancelling} \<longrightarrow> task_cancelled (th_bus s)))"

definition receiver_part :: "('sc, 'm, 'd, 'z) threads \<Rightarrow> bool" where
  "receiver_part s \<longleftrightarrow> (case th_receiver s of
       Destroying d \<Rightarrow> th_owners s = 0 \<and> d \<in> {Entered, Cancelling, Interrupting, Waiting}
     | Ended \<Rightarrow> task_cancelled (th_bus s)
     | _ \<Rightarrow> True)"

definition threads_inv :: "('sc, 'm, 'd, 'z) thread_env \<Rightarrow> ('sc, 'm, 'd, 'z) threads \<Rightarrow> bool" where
  "threads_inv env s \<longleftrightarrow> bus_part env s \<and> destructor_part s \<and> receiver_part s"

lemmas threads_inv_defs = threads_inv_def bus_part_def destructor_part_def receiver_part_def

lemma caught_simps [simp]:
  "\<not> holds_bus (caught is_comm ex)" "\<not> in_destructor (caught is_comm ex)"
  "caught is_comm ex \<noteq> Ended" "caught is_comm ex \<noteq> Destroying d"
  by (simp_all add: caught_def)

lemma task_cancelled_cancel [simp]:
  "receiver b \<noteq> None \<Longrightarrow> task_cancelled (cancel_task b)"
  by (auto simp: task_cancelled_def cancel_task_def rt_cancel_def)

lemma cancel_task_frame [simp]:
  "connection (cancel_task b) = connection b" "bus_active (cancel_task b) = bus_active b"
  "scopeDispatcher (cancel_task b) = scopeDispatcher b"
  "receiver (cancel_task b) = map_option rt_cancel (receiver b)"
  by (simp_all add: cancel_task_def)

lemma receiver_turn_inv:
  assumes inv: "threads_inv env s"
  shows "threads_inv env (receiver_turn env now s)"
proof (cases "th_receiver s")
  case Testing
  with inv show ?thesis
    by (auto simp: threads_inv_defs receiver_turn_def task_cancelled_def split: option.splits)
next
  case Receiving
  obtain r m c w where recv: "conn_receive ((te_spread env)\<lparr>SP_receive := (\<lambda>w m. hd (th_inbox s))\<rparr>)
      (te_debug env) message_new (connection (th_bus s), th_calls s) = (r, (m, (c, w)))"
    by (metis prod.exhaust)
  have c: "c = connection (th_bus s)" by (rule conn_receive_frame [OF recv])
  have "conn_inv (te_spread env) (c, w)"
    by (rule conn_inv_receive [OF _ recv]) (use inv in \<open>simp add: threads_inv_defs\<close>)
  with inv Receiving recv c show ?thesis
    by (cases "th_destructor s"; cases r)
      (auto simp: threads_inv_defs receiver_turn_def receive_turn_def Let_def task_cancelled_def
        split: receiver_at.splits)
next
  case (Handling m)
  with inv show ?thesis
    by (cases "receiver (th_bus s)"; cases "th_destructor s")
      (auto simp: threads_inv_defs receiver_turn_def handle_turn_def task_cancelled_def
        split: prod.splits sum.splits option.splits receiver_at.splits)
next
  case (Calling cb)
  with inv show ?thesis
    by (cases cb; cases "th_destructor s")
      (auto simp: threads_inv_defs receiver_turn_def)
next
  case (InBus cb)
  with inv show ?thesis
    by (cases "th_destructor s") (auto simp: threads_inv_defs receiver_turn_def
        split: prod.splits sum.splits)
next
  case (Leaving cb r)
  with inv show ?thesis
    by (cases cb; cases r; cases "th_destructor s")
      (auto simp: threads_inv_defs receiver_turn_def split: receiver_at.splits)
next
  case (Destroying d)
  obtain r c w where intr: "conn_interruptReceive (te_spread env)
      (connection (th_bus s), th_calls s) = (r, (c, w))" by (metis prod.exhaust)
  have c: "c = connection (th_bus s)" by (rule conn_interruptReceive_frame [OF intr])
  have r: "connected (connection (th_bus s)) \<Longrightarrow> r = Inr ()"
    using intr by (auto simp: conn_interruptReceive_def Let_def)
  have "conn_inv (te_spread env) (connection (th_bus s), th_calls s)"
    using inv by (simp add: threads_inv_defs)
  from conn_inv_interrupt [OF this intr] have "conn_inv (te_spread env) (c, w)" .
  with inv Destroying intr c r show ?thesis
    by (cases "th_destructor s")
      (auto simp: threads_inv_defs receiver_turn_def destructor_turn_def task_cancelled_def)
qed (use inv in \<open>simp_all add: receiver_turn_def\<close>)

text \<open>The steps of a destructor of an active bus.\<close>

lemma destructor_turn_steps:
  assumes "bus_active (th_bus s)" and "connected (connection (th_bus s))"
  shows "destructor_turn api ended Entered s = (Cancelling, s)"
    and "destructor_turn api ended Cancelling s
      = (Interrupting, s\<lparr>th_bus := cancel_task (th_bus s)\<rparr>)"
    and "destructor_turn api ended Waiting s = (if ended then Disconnecting else Waiting, s)"
    and "destructor_turn api ended Disconnecting s = (Destroyed, s\<lparr>th_bus := (th_bus s)
        \<lparr>connection := (connection (th_bus s))\<lparr>connected := False\<rparr>, bus_active := False\<rparr>,
      th_calls := SpDisconnect (mailbox (connection (th_bus s))) # th_calls s\<rparr>)"
  using assms
  by (simp_all add: destructor_turn_def wakeups_def cancel_task_def bus_deactivate_end_def
      conn_deactivate_def)

lemma destructor_turn_interrupt:
  assumes "connected (connection (th_bus s))"
  shows "destructor_turn api ended Interrupting s = (Waiting, s\<lparr>
      th_calls := SpMulticast (mailbox (connection (th_bus s))) (RELIABLE_MESS api)
        (c_str (privateGroup (connection (th_bus s)))) []
        (SP_multicast api (th_calls s) (mailbox (connection (th_bus s))) (RELIABLE_MESS api)
          (c_str (privateGroup (connection (th_bus s)))) []) # th_calls s,
      th_posted := th_posted s + wakeups api Interrupting (th_bus s, th_calls s)\<rparr>)"
  using assms by (simp add: destructor_turn_def conn_interruptReceive_def Let_def)

lemma destructor_turn_inv:
  assumes inv: "threads_inv env s" and d: "th_destructor s = Some d"
    and turn: "destructor_turn (te_spread env) (th_receiver s = Ended) d s = (d', s')"
  shows "threads_inv env (s'\<lparr>th_destructor := Some d'\<rparr>)"
proof -
  let ?c = "connection (th_bus s)"
  have parts: "bus_part env s" "destructor_part s" "receiver_part s"
    using inv by (simp_all add: threads_inv_def)
  have calls: "conn_inv (te_spread env) (?c, th_calls s)" using parts(1) by (simp add: bus_part_def)
  show ?thesis
  proof (cases "d = Destroyed")
    case True
    with turn have "d' = Destroyed" "s' = s"
      by (auto simp: destructor_turn_def wakeups_def)
    with parts d True show ?thesis
      by (cases "th_receiver s") (simp_all add: threads_inv_defs)
  next
    case False
    then have live: "bus_active (th_bus s)" "connected ?c" using parts(1) d by (simp_all add: bus_part_def)
    note steps = destructor_turn_steps [OF live] destructor_turn_interrupt [OF live(2)]
    have call: "conn_inv (te_spread env) (?c\<lparr>connected := False\<rparr>, SpDisconnect (mailbox ?c) # th_calls s)"
      "conn_inv (te_spread env) (?c, SpMulticast (mailbox ?c) a g [] x # th_calls s)" for a g x
      using calls live(2) by (auto simp: conn_inv_def)
    show ?thesis
      using turn parts d steps call False
      by (cases d; cases "th_receiver s")
        (auto simp: threads_inv_defs task_cancelled_def rt_cancel_def cancel_task_def split: if_splits)
  qed
qed

lemma actor_turn_inv:
  assumes inv: "threads_inv env s" and "\<not> process_over (th_receiver s) (th_destructor s)"
  shows "threads_inv env (actor_turn env a s)"
proof (cases a)
  case (Receiver now)
  with receiver_turn_inv [OF inv] show ?thesis by simp
next
  case (Use u)
  show ?thesis
  proof (cases "th_owners s = 0")
    case False
    obtain r b w z where use: "bus_apply env u (th_bus s, th_calls s, th_sinks s) = (r, (b, w, z))"
      by (metis prod.exhaust)
    have parts: "bus_part env s" "destructor_part s" "receiver_part s"
      using inv by (simp_all add: threads_inv_def)
    have none: "th_destructor s = None"
      using parts(2) False by (cases "th_destructor s") (simp_all add: destructor_part_def)
    have "conn_inv (te_spread env) (connection (th_bus s), th_calls s)"
      using parts(1) by (simp add: bus_part_def)
    note bus = bus_apply_frame [OF use] bus_apply_conn_inv [OF use this]
    have "actor_turn env a s = s\<lparr>th_bus := b, th_calls := w, th_sinks := z,
        th_receiver := (case r of Inl ex \<Rightarrow> if is_fault ex then Died ex else th_receiver s
          | Inr _ \<Rightarrow> th_receiver s)\<rparr>"
      using Use False use by simp
    then show ?thesis using parts bus False none
      by (cases r; cases "th_receiver s") (simp_all add: threads_inv_defs task_cancelled_def)
  qed (use Use inv in simp)
next
  case Destructor
  show ?thesis
  proof (cases "th_destructor s")
    case (Some d)
    obtain d' s' where turn: "destructor_turn (te_spread env) (th_receiver s = Ended) d s = (d', s')"
      by (metis surj_pair)
    from destructor_turn_inv [OF inv Some turn] show ?thesis using Destructor Some turn by simp
  qed (use Destructor inv in simp)
next
  case Drop
  with inv show ?thesis
    by (cases "th_destructor s"; cases "th_receiver s") (auto simp: threads_inv_defs)
next
  case Obtain
  with inv show ?thesis
    by (cases "th_destructor s") (auto simp: threads_inv_defs split: receiver_at.splits)
next
  case (Daemon rc)
  with inv show ?thesis
    by (cases "th_destructor s"; cases "th_receiver s") (simp_all add: threads_inv_defs)
next
  case Wakeup
  with inv show ?thesis
    by (cases "th_destructor s"; cases "th_receiver s") (simp_all add: threads_inv_defs)
qed

lemma thread_run_inv: "threads_inv env s \<Longrightarrow> threads_inv env (thread_run env as s)"
  by (induction as arbitrary: s) (auto simp: thread_step_def actor_turn_inv)

lemma threads_start_inv:
  assumes "threads_start env (conn_new win32 junk h p) w z = Inr s"
    and "well_used (ACCEPT_SESSION (te_spread env)) w"
  shows "threads_inv env s"
proof -
  let ?c = "conn_new win32 junk h p"
  obtain q c' w' where act: "conn_activate (te_spread env) (?c, w) = (q, (c', w'))"
    by (metis prod.exhaust)
  have "conn_inv (te_spread env) (?c, w)" using assms(2) by (simp add: conn_inv_def conn_new_def)
  then have "conn_inv (te_spread env) (c', w')"
    using conn_apply_inv [of "te_spread env" ?c w True "CActivate"] act by simp
  moreover have "q = Inr x \<Longrightarrow> connected c'" for x
    using act by (auto simp: conn_activate_def Let_def split: if_splits prod.splits)
  ultimately show ?thesis using assms(1) act
    by (auto simp: threads_start_def bus_activate_def bus_create_def bus_new_def threads_inv_defs
        split: sum.splits prod.splits if_splits)
qed

section \<open>Safety of every schedule\<close>

text \<open>C9 Whatever the threads do, in whatever order, from the activation of a bus on, and whatever
  the daemon sends: the Spread library is only called inside a session, the connection is closed only
  after the receiver's thread has left its loop and no owner is left, the destructor runs on at most
  one thread, and the receiver calls sinks only through a connected bus.\<close>

theorem bus_threads_safe:
  assumes "threads_start env (conn_new win32 junk h p) [] z = Inr s0"
    and "s = thread_run env as s0"
  shows "well_used (ACCEPT_SESSION (te_spread env)) (th_calls s)
    \<and> (\<not> connected (connection (th_bus s)) \<longrightarrow> th_receiver s = Ended \<and> th_owners s = 0)
    \<and> (th_destructor s \<noteq> None \<longrightarrow> \<not> holds_bus (th_receiver s) \<and> (\<forall>d. th_receiver s \<noteq> Destroying d))
    \<and> (holds_bus (th_receiver s) \<longrightarrow> bus_active (th_bus s) \<and> connected (connection (th_bus s)))"
proof -
  have "threads_inv env s0" by (rule threads_start_inv [OF assms(1)]) simp
  then have "threads_inv env s" unfolding assms(2) by (rule thread_run_inv)
  then show ?thesis
    by (cases "th_destructor s") (auto simp: threads_inv_defs conn_inv_def)
qed

section \<open>The end of a bus\<close>

text \<open>The turns a schedule has to contain, in this order, for a destructor to finish.\<close>

datatype turn = ReceiverTurn | DestructorTurn | WakeupTurn | OtherTurn

fun turn_of :: "('sc, 'm) actor \<Rightarrow> turn" where
  "turn_of (Receiver now) = ReceiverTurn"
| "turn_of Destructor = DestructorTurn"
| "turn_of Wakeup = WakeupTurn"
| "turn_of _ = OtherTurn"

definition closing_turns :: "turn list" where
  "closing_turns = replicate 3 DestructorTurn @ [WakeupTurn] @ replicate 4 ReceiverTurn
     @ replicate 2 DestructorTurn"

text \<open>How many turns the receiver needs at most once its flag is set and no owner is left.\<close>

fun receiver_left :: "('sc, 'm) receiver_at \<Rightarrow> nat" where
  "receiver_left Receiving = 4"
| "receiver_left (Handling m) = 3"
| "receiver_left (Calling cb) = 2"
| "receiver_left Testing = 1"
| "receiver_left r = 0"

definition needed_turns :: "('sc, 'm, 'd, 'z) threads \<Rightarrow> turn list" where
  "needed_turns s = (if has_died (th_receiver s) then []
     else case th_destructor s of
       Some Entered \<Rightarrow> closing_turns
     | Some Cancelling \<Rightarrow> tl closing_turns
     | Some Interrupting \<Rightarrow>
         [DestructorTurn, WakeupTurn] @ replicate (receiver_left (th_receiver s)) ReceiverTurn
           @ replicate 2 DestructorTurn
     | Some Waiting \<Rightarrow>
         (if th_receiver s = Receiving \<and> th_inbox s = [] then [WakeupTurn] else [])
           @ replicate (receiver_left (th_receiver s)) ReceiverTurn @ replicate 2 DestructorTurn
     | Some Disconnecting \<Rightarrow> [DestructorTurn]
     | _ \<Rightarrow> [])"

text \<open>A destructor runs, and a receiver that may sleep for good has a wake-up coming.\<close>

definition closing_inv :: "('sc, 'm, 'd, 'z) thread_env \<Rightarrow> ('sc, 'm, 'd, 'z) threads \<Rightarrow> bool" where
  "closing_inv env s \<longleftrightarrow> threads_inv env s \<and> th_destructor s \<noteq> None
     \<and> (th_destructor s = Some Waiting \<and> th_receiver s = Receiving \<and> th_inbox s = [] \<longrightarrow> 0 < th_posted s)"

definition wakeups_accepted :: "spread_api \<Rightarrow> bool" where
  "wakeups_accepted api \<longleftrightarrow> (\<forall>w mb g. 0 \<le> SP_multicast api w mb (RELIABLE_MESS api) g [])"

lemma after_callback_frame [simp]:
  "th_destructor (after_callback is_comm cb r s) = th_destructor s"
  "th_posted (after_callback is_comm cb r s) = th_posted s"
  "th_inbox (after_callback is_comm cb r s) = th_inbox s"
  "th_owners (after_callback is_comm cb r s) = th_owners s"
  by (cases cb; cases r; simp)+

lemma receiver_turn_frame:
  assumes "\<not> in_destructor (th_receiver s)"
  shows "th_destructor (receiver_turn env now s) = th_destructor s
    \<and> th_posted (receiver_turn env now s) = th_posted s"
  using assms
  by (cases "th_receiver s") (simp_all add: receiver_turn_def receive_turn_def handle_turn_def Let_def
      split: option.split prod.split)

lemma caught_left [simp]: "receiver_left (caught is_comm ex) < 3" "caught is_comm ex \<noteq> Receiving"
  by (simp_all add: caught_def)

lemma caught_left' [simp]: "receiver_left (caught is_comm ex) < 4"
  by (simp add: caught_def)

text \<open>With the flag set and no owner left, a turn of the receiver that is not blocked brings it closer to the end.\<close>

lemma receiver_turn_left:
  assumes inv: "threads_inv env s" and d: "th_destructor s \<noteq> None"
    and flag: "task_cancelled (th_bus s)" and alive: "\<not> has_died (th_receiver s)"
    and awake: "\<not> (th_receiver s = Receiving \<and> th_inbox s = [])" and r: "th_receiver s \<noteq> Ended"
  shows "receiver_left (th_receiver (receiver_turn env now s)) < receiver_left (th_receiver s)
    \<and> th_receiver (receiver_turn env now s) \<noteq> Receiving"
proof -
  have parts: "bus_part env s" "destructor_part s" using inv by (simp_all add: threads_inv_def)
  then have owners: "th_owners s = 0"
    and place: "\<not> holds_bus (th_receiver s)" "\<not> in_destructor (th_receiver s)"
    using d by (auto simp: destructor_part_def)
  obtain t where t: "receiver (th_bus s) = Some t" "taskCancelled t"
    using flag by (auto simp: task_cancelled_def split: option.splits)
  show ?thesis
  proof (cases "th_receiver s")
    case Receiving
    then have "connected (connection (th_bus s))" using parts(1,2) d
      by (cases "th_destructor s") (auto simp: bus_part_def destructor_part_def)
    with Receiving awake show ?thesis
      by (simp add: receiver_turn_def receive_turn_def Let_def split: prod.split sum.split)
  next
    case (Handling m)
    with t show ?thesis
      by (simp add: receiver_turn_def handle_turn_def split: prod.split sum.split option.split)
  next
    case (Calling cb)
    with owners show ?thesis by (cases cb) (simp_all add: receiver_turn_def)
  qed (use t place alive r in \<open>simp_all add: receiver_turn_def\<close>)
qed

lemma subseq_replicate_le: "m \<le> n \<Longrightarrow> subseq (replicate m x @ ys) (replicate n x @ ys)"
proof (induction n)
  case (Suc n)
  then show ?case by (cases "m = Suc n") (auto intro: subseq_Cons')
qed simp

text \<open>What is left of the needed turns after one actor has had its turn.\<close>

definition turns_after :: "turn \<Rightarrow> turn list \<Rightarrow> turn list" where
  "turns_after t ts = (if ts \<noteq> [] \<and> hd ts = t then tl ts else ts)"

lemma subseq_turns_after: "subseq ts (t # us) \<Longrightarrow> subseq (turns_after t ts) us"
  by (cases ts) (auto simp: turns_after_def split: if_splits)

lemma turns_after_simps [simp]:
  "turns_after t [] = []" "turns_after t (u # ts) = (if u = t then ts else u # ts)"
  by (simp_all add: turns_after_def)

lemma turns_after_other [simp]: "t \<notin> set ts \<Longrightarrow> turns_after t ts = ts"
  by (cases ts) auto

lemma closing_state:
  assumes "closing_inv env s"
  obtains d where "th_destructor s = Some d" and "th_owners s = 0"
    and "\<not> holds_bus (th_receiver s)" and "\<not> in_destructor (th_receiver s)"
    and "\<And>ex. d \<noteq> Thrown ex" and "d \<in> {Disconnecting, Destroyed} \<Longrightarrow> th_receiver s = Ended"
    and "d \<notin> {Entered, Cancelling} \<Longrightarrow> task_cancelled (th_bus s)"
    and "d \<noteq> Destroyed \<Longrightarrow> bus_active (th_bus s) \<and> connected (connection (th_bus s))"
  using assms by (auto simp: closing_inv_def threads_inv_defs)

lemma receiver_turn_closing:
  assumes "closing_inv env s" and "\<not> has_died (th_receiver s)"
  shows "closing_inv env (receiver_turn env now s)
    \<and> subseq (needed_turns (receiver_turn env now s)) (turns_after ReceiverTurn (needed_turns s))"
proof -
  let ?s = "receiver_turn env now s"
  obtain d where d: "th_destructor s = Some d" "\<not> in_destructor (th_receiver s)"
    "\<And>ex. d \<noteq> Thrown ex" "d \<in> {Disconnecting, Destroyed} \<Longrightarrow> th_receiver s = Ended"
    "d \<notin> {Entered, Cancelling} \<Longrightarrow> task_cancelled (th_bus s)"
    by (rule closing_state [OF assms(1)]) blast
  have inv: "threads_inv env s" using assms(1) by (simp add: closing_inv_def)
  note frame = receiver_turn_frame [OF d(2), of env now] receiver_turn_inv [OF inv, of now]
  show ?thesis
  proof (cases "th_receiver s = Ended \<or> th_receiver s = Receiving \<and> th_inbox s = []")
    case True
    then have "?s = s" using d(1,4) assms(1) inv
      by (cases "d = Destroyed") (auto simp: receiver_turn_def receive_turn_def threads_inv_defs)
    moreover have "turns_after ReceiverTurn (needed_turns s) = needed_turns s"
      using True d assms(2)
      by (cases d) (auto simp: needed_turns_def closing_turns_def eval_nat_numeral)
    ultimately show ?thesis using assms(1) by simp
  next
    case False
    then have open_bus: "d \<noteq> Disconnecting" "d \<noteq> Destroyed" using d(4) by auto
    show ?thesis
    proof (cases "d \<in> {Entered, Cancelling}")
      case True
      with d frame assms(2) show ?thesis
        by (auto simp: closing_inv_def needed_turns_def closing_turns_def numeral_3_eq_3)
    next
      case flag: False
      have "th_destructor s \<noteq> None" using d(1) by simp
      from receiver_turn_left [OF inv this d(5) [OF flag] assms(2)] False
      have less: "receiver_left (th_receiver ?s) < receiver_left (th_receiver s)"
        and awake: "th_receiver ?s \<noteq> Receiving" by blast+
      from less obtain k where k: "receiver_left (th_receiver s) = Suc k" "receiver_left (th_receiver ?s) \<le> k"
        by (cases "receiver_left (th_receiver s)") auto
      have sub: "subseq (replicate (receiver_left (th_receiver ?s)) ReceiverTurn @ ts)
          (replicate k ReceiverTurn @ ts)" for ts
        by (rule subseq_replicate_le [OF k(2)])
      have "subseq (replicate (receiver_left (th_receiver ?s)) ReceiverTurn @ ts)
          (ReceiverTurn # replicate k ReceiverTurn @ ts)" for ts
        using sub by (rule list_emb_Cons)
      with d frame open_bus flag sub k awake False assms(2) show ?thesis
        by (cases d) (auto simp: closing_inv_def needed_turns_def)
    qed
  qed
qed

lemma destructor_turn_closing:
  assumes "closing_inv env s" and "\<not> has_died (th_receiver s)" and "wakeups_accepted (te_spread env)"
  shows "closing_inv env (actor_turn env Destructor s)
    \<and> subseq (needed_turns (actor_turn env Destructor s)) (turns_after DestructorTurn (needed_turns s))"
proof -
  obtain d where d: "th_destructor s = Some d" "\<And>ex. d \<noteq> Thrown ex"
    "d \<in> {Disconnecting, Destroyed} \<Longrightarrow> th_receiver s = Ended"
    "d \<noteq> Destroyed \<Longrightarrow> bus_active (th_bus s) \<and> connected (connection (th_bus s))"
    by (rule closing_state [OF assms(1)]) blast
  have inv: "threads_inv env s" using assms(1) by (simp add: closing_inv_def)
  obtain d' s' where turn: "destructor_turn (te_spread env) (th_receiver s = Ended) d s = (d', s')"
    by (metis surj_pair)
  then have step: "actor_turn env Destructor s = s'\<lparr>th_destructor := Some d'\<rparr>"
    using d(1) by simp
  note inv' = destructor_turn_inv [OF inv d(1) turn]
  have sub: "subseq (replicate (receiver_left (th_receiver s)) ReceiverTurn @ ts)
      (replicate 4 ReceiverTurn @ ts)" for ts
    by (rule subseq_replicate_le) (cases "th_receiver s"; simp)
  show ?thesis
  proof (cases "d = Destroyed")
    case True
    with turn have "s' = s" "d' = Destroyed" by (auto simp: destructor_turn_def wakeups_def)
    with True d(1) have "actor_turn env Destructor s = s" unfolding step by simp
    with True d(1,3) assms(1) show ?thesis by (simp add: needed_turns_def)
  next
    case False
    note live = d(4) [OF False, THEN conjunct1] d(4) [OF False, THEN conjunct2]
    have posted: "wakeups (te_spread env) Interrupting (th_bus s, th_calls s) = 1"
      using live(2) assms(3) by (simp add: wakeups_def wakeups_accepted_def)
    note steps = destructor_turn_steps [OF live] destructor_turn_interrupt [OF live(2)]
    show ?thesis
    proof (cases d)
      case (Thrown ex)
      with d(2) show ?thesis by blast
    next
      case Waiting
      show ?thesis
      proof (cases "th_receiver s = Ended")
        case True
        with Waiting turn steps(3) d(1) inv' step show ?thesis
          by (auto simp: closing_inv_def needed_turns_def eval_nat_numeral)
      next
        case False
        have "actor_turn env Destructor s = s" using Waiting turn steps(3) d(1) False step by simp
        moreover obtain k where "receiver_left (th_receiver s) = Suc k"
          using False assms(1,2) d(1)
          by (cases "th_receiver s") (auto simp: closing_inv_def threads_inv_defs)
        ultimately show ?thesis using Waiting assms(1,2) d(1) by (auto simp: needed_turns_def)
      qed
    qed (use turn steps d(1,3) inv' posted sub assms(1,2) False step in
        \<open>auto simp: closing_inv_def needed_turns_def closing_turns_def eval_nat_numeral
          split: if_splits\<close>)
  qed
qed

lemma actor_turn_closing:
  assumes "closing_inv env s" and "\<not> has_died (th_receiver s)" and "wakeups_accepted (te_spread env)"
  shows "closing_inv env (actor_turn env a s)
    \<and> subseq (needed_turns (actor_turn env a s)) (turns_after (turn_of a) (needed_turns s))"
proof -
  obtain d where d: "th_destructor s = Some d" "th_owners s = 0" "\<not> holds_bus (th_receiver s)"
    "\<And>ex. d \<noteq> Thrown ex"
    by (rule closing_state [OF assms(1)]) blast
  have other: "turns_after OtherTurn (needed_turns s) = needed_turns s"
    by (rule turns_after_other) (auto simp: needed_turns_def closing_turns_def
        split: destructor_at.splits option.splits if_splits)
  have inv: "threads_inv env s" using assms(1) by (simp add: closing_inv_def)
  have "\<not> process_over (th_receiver s) (th_destructor s)"
    using assms(1,2) d by (cases "th_receiver s"; cases d) (auto simp: closing_inv_def threads_inv_defs)
  note inv' = actor_turn_inv [OF inv this, of a]
  show ?thesis
  proof (cases a)
    case (Receiver now)
    with receiver_turn_closing [OF assms(1,2)] show ?thesis by simp
  next
    case Destructor
    with destructor_turn_closing [OF assms] show ?thesis by simp
  next
    case (Daemon rc)
    with inv' assms(1) d show ?thesis
      by (cases d) (auto simp: closing_inv_def other needed_turns_def closing_turns_def)
  next
    case Wakeup
    with inv' assms(1,2) d show ?thesis
      by (cases d) (auto simp: closing_inv_def needed_turns_def closing_turns_def eval_nat_numeral)
  next
    case Drop
    then have "actor_turn env a s = s" using d(2,3) by (cases s) simp
    with Drop assms(1) other show ?thesis by simp
  qed (use d assms(1) other in simp_all)
qed

lemma thread_run_closing:
  assumes "closing_inv env s" and "wakeups_accepted (te_spread env)"
    and "subseq (needed_turns s) (map turn_of as)"
  shows "closing_inv env (thread_run env as s)
    \<and> (has_died (th_receiver (thread_run env as s)) \<or> needed_turns (thread_run env as s) = [])"
  using assms(1,3)
proof (induction as arbitrary: s)
  case Nil
  then show ?case by simp
next
  case (Cons a as)
  show ?case
  proof (cases "has_died (th_receiver s)")
    case True
    then have stop: "thread_run env bs s = s" for bs
      by (induction bs) (auto simp: thread_step_def elim: has_died.elims)
    show ?thesis using True Cons.prems(1) unfolding stop by simp
  next
    case False
    have "\<not> process_over (th_receiver s) (th_destructor s)"
      using False Cons.prems(1) by (cases "th_receiver s"; cases "th_destructor s")
        (auto simp: closing_inv_def threads_inv_defs elim: process_over.elims)
    then have step: "thread_step env a s = actor_turn env a s" by (simp add: thread_step_def)
    note turn = actor_turn_closing [OF Cons.prems(1) False assms(2), of a]
    have "subseq (turns_after (turn_of a) (needed_turns s)) (map turn_of as)"
      using Cons.prems(2) by (intro subseq_turns_after) simp
    then have "subseq (needed_turns (actor_turn env a s)) (map turn_of as)"
      using turn subseq_order.order_trans by blast
    then show ?thesis using Cons.IH turn step by simp
  qed
qed

lemma needed_turns_done:
  assumes "closing_inv env s" and "needed_turns s = []" and "\<not> has_died (th_receiver s)"
  shows "th_destructor s = Some Destroyed"
proof -
  obtain d where "th_destructor s = Some d" "\<And>ex. d \<noteq> Thrown ex"
    by (rule closing_state [OF assms(1)]) blast
  with assms(2,3) show ?thesis by (cases d) (auto simp: needed_turns_def closing_turns_def)
qed

lemma has_died_iff: "has_died r \<longleftrightarrow> (\<exists>ex. r = Died ex)"
  by (cases r) simp_all

lemma thread_run_over:
  "process_over (th_receiver s) (th_destructor s) \<Longrightarrow> thread_run env as s = s"
  by (induction as) (simp_all add: thread_step_def)

lemma started_inv:
  "threads_start env (conn_new win32 junk h p) [] z = Inr s0 \<Longrightarrow> threads_inv env (thread_run env as s0)"
  using threads_start_inv [of env win32 junk h p "[]" z s0] by (simp add: thread_run_inv)

text \<open>C5 When the last owner lets go of a bus while the receiver is not calling it, and the daemon
  accepts the wake-up message, the destructor finishes: after any schedule in which the destructor,
  the delivery of the wake-up and the receiver get their turns often enough (10 turns in the order
  of \<open>closing_turns\<close>, with anything in between: messages of the daemon, idle turns, attempts to obtain
  the bus), the receiver has left its loop, the connection is closed and the bus inactive, unless an
  exception that leaves \<open>execute\<close> has ended the process.\<close>

theorem shutdown_completes:
  assumes "threads_start env (conn_new win32 junk h p) [] z = Inr s0"
    and "s = thread_run env as s0" and "th_owners s = 1" and "\<not> holds_bus (th_receiver s)"
    and "wakeups_accepted (te_spread env)" and "subseq closing_turns (map turn_of bs)"
    and "s' = thread_run env (Drop # bs) s"
  shows "(\<exists>ex. th_receiver s' = Died ex)
    \<or> th_destructor s' = Some Destroyed \<and> th_receiver s' = Ended
      \<and> \<not> connected (connection (th_bus s')) \<and> \<not> bus_active (th_bus s')"
proof (cases "has_died (th_receiver s')")
  case True
  then show ?thesis by (simp add: has_died_iff)
next
  case False
  have inv: "threads_inv env s" unfolding assms(2) by (rule started_inv [OF assms(1)])
  have none: "th_destructor s = None"
    using inv assms(3) by (cases "th_destructor s") (auto simp: threads_inv_defs)
  have alive: "\<not> process_over (th_receiver s) (th_destructor s)"
  proof
    assume over: "process_over (th_receiver s) (th_destructor s)"
    then have "has_died (th_receiver s)" using none inv
      by (cases "th_receiver s") (auto simp: threads_inv_defs elim: process_over.elims)
    moreover have "s' = s" unfolding assms(7) by (rule thread_run_over [OF over])
    ultimately show False using False by simp
  qed
  let ?s = "s\<lparr>th_owners := 0, th_destructor := Some Entered\<rparr>"
  have drop: "thread_step env Drop s = ?s" using alive assms(3,4) by (simp add: thread_step_def)
  have "threads_inv env ?s" using actor_turn_inv [OF inv alive, of Drop] assms(3,4) by simp
  then have closing: "closing_inv env ?s" by (simp add: closing_inv_def)
  have "subseq (needed_turns ?s) (map turn_of bs)" using assms(6) by (simp add: needed_turns_def)
  note run = thread_run_closing [OF closing assms(5) this]
  have s': "s' = thread_run env bs ?s" using assms(7) drop by simp
  have "th_destructor s' = Some Destroyed"
    by (rule needed_turns_done [OF _ _ False]) (use run False s' in auto)
  then show ?thesis using run s' by (auto simp: closing_inv_def threads_inv_defs)
qed

section \<open>Two ways to hang\<close>

text \<open>The receiver holds the last reference, or runs the destructor and waits for itself.\<close>

definition self_join :: "('sc, 'm, 'd, 'z) threads \<Rightarrow> bool" where
  "self_join s \<longleftrightarrow> th_owners s = 0 \<and> th_destructor s = None
     \<and> (holds_bus (th_receiver s) \<or> in_destructor (th_receiver s) \<or> has_died (th_receiver s))"

lemma self_join_turn:
  assumes "threads_inv env s" and "self_join s" and "a \<noteq> Obtain"
  shows "self_join (thread_step env a s)"
proof (cases "process_over (th_receiver s) (th_destructor s)")
  case True
  then show ?thesis using assms(2) by (simp add: thread_step_def)
next
  case False
  then have step: "thread_step env a s = actor_turn env a s" by (simp add: thread_step_def)
  show ?thesis
  proof (cases a)
    case (Receiver now)
    then show ?thesis unfolding step using assms(2)
      by (cases "th_receiver s")
        (auto simp: self_join_def receiver_turn_def destructor_turn_def split: prod.splits sum.splits)
  qed (use assms(2,3) step in \<open>auto simp: self_join_def\<close>)
qed

lemma self_join_run:
  assumes "threads_inv env s" and "self_join s" and "Obtain \<notin> set as"
  shows "self_join (thread_run env as s)"
  using assms
proof (induction as arbitrary: s)
  case (Cons a as)
  have "threads_inv env (thread_step env a s)" using thread_run_inv [OF Cons.prems(1), of "[a]"] by simp
  moreover have "self_join (thread_step env a s)"
    using Cons.prems by (intro self_join_turn) auto
  ultimately show ?case using Cons.IH Cons.prems(3) by simp
qed simp

text \<open>C25 When the last owner lets go of the bus while the receiver is inside it (a handler is being
  called), the receiver's local \<open>shared_ptr\<close> is the last one: the destructor runs on the receiver's own
  thread, where \<open>waitDone\<close> waits for that thread. Whatever happens afterwards, the bus is never
  disconnected and the receiver never ends, unless someone obtains the bus again before the handler
  returns.\<close>

theorem last_owner_in_callback_hangs:
  assumes "threads_start env (conn_new win32 junk h p) [] z = Inr s0"
    and "s = thread_run env as s0" and "th_owners s = 1" and "holds_bus (th_receiver s)"
    and "Obtain \<notin> set bs" and "s' = thread_run env (Drop # bs) s"
  shows "th_receiver s' \<noteq> Ended \<and> th_destructor s' = None
    \<and> bus_active (th_bus s') \<and> connected (connection (th_bus s'))"
proof -
  have inv: "threads_inv env s" unfolding assms(2) by (rule started_inv [OF assms(1)])
  have none: "th_destructor s = None"
    using inv assms(3) by (cases "th_destructor s") (auto simp: threads_inv_defs)
  have over: "\<not> process_over (th_receiver s) (th_destructor s)"
    using assms(4) none by (cases "th_receiver s") simp_all
  then have drop: "thread_step env Drop s = s\<lparr>th_owners := 0\<rparr>"
    using assms(3,4) by (simp add: thread_step_def)
  have inv': "threads_inv env (s\<lparr>th_owners := 0\<rparr>)"
    using actor_turn_inv [OF inv over, of Drop] assms(3,4) by simp
  have "self_join (s\<lparr>th_owners := 0\<rparr>)" using none assms(4) by (simp add: self_join_def)
  from self_join_run [OF inv' this assms(5)] thread_run_inv [OF inv', of bs]
  show ?thesis using assms(6) drop
    by (auto simp: self_join_def threads_inv_defs)
qed

text \<open>C27 \<open>interruptReceive\<close> ignores the result of \<open>SP_multicast\<close>. When the daemon refuses the
  wake-up message and sends nothing else, a receiver that is blocked in \<open>receive\<close> is never woken:
  whatever the schedule, the destructor waits forever.\<close>

theorem lost_wakeup_hangs:
  assumes "threads_start env (conn_new win32 junk h p) [] z = Inr s0"
    and "s = thread_run env as s0" and "th_owners s = 1" and "th_receiver s = Receiving"
    and "th_inbox s = []" and "th_posted s = 0"
    and "\<forall>w mb g. SP_multicast (te_spread env) w mb (RELIABLE_MESS (te_spread env)) g [] < 0"
    and "\<forall>rc. Daemon rc \<notin> set bs" and "s' = thread_run env (Drop # bs) s"
  shows "th_destructor s' \<noteq> Some Destroyed \<and> th_receiver s' = Receiving
    \<and> bus_active (th_bus s') \<and> connected (connection (th_bus s'))"
proof -
  let ?stuck = "\<lambda>s. threads_inv env s \<and> th_owners s = 0 \<and> th_receiver s = Receiving \<and> th_inbox s = []
    \<and> th_posted s = 0 \<and> th_destructor s \<in> {Some Entered, Some Cancelling, Some Interrupting, Some Waiting}"
  have inv: "threads_inv env s" unfolding assms(2) by (rule started_inv [OF assms(1)])
  have none: "th_destructor s = None"
    using inv assms(3) by (cases "th_destructor s") (auto simp: threads_inv_defs)
  have turn: "?stuck (thread_step env a s)" if "?stuck s" "\<forall>rc. a \<noteq> Daemon rc" for a s
  proof -
    have over: "\<not> process_over (th_receiver s) (th_destructor s)" using that(1) by auto
    have live: "bus_active (th_bus s)" "connected (connection (th_bus s))"
      using that(1) by (auto simp: threads_inv_defs)
    have "wakeups (te_spread env) Interrupting (th_bus s, th_calls s) = 0"
      using assms(7) by (simp add: wakeups_def not_le)
    moreover have "threads_inv env (thread_step env a s)"
      using actor_turn_inv [of env s a] that(1) over by (simp add: thread_step_def)
    ultimately show ?thesis
      using that over live destructor_turn_steps [OF live] destructor_turn_interrupt [OF live(2)]
      by (cases a) (auto simp: thread_step_def receiver_turn_def receive_turn_def)
  qed
  have run: "?stuck (thread_run env bs s)" if "?stuck s" "\<forall>rc. Daemon rc \<notin> set bs" for s
    using that
  proof (induction bs arbitrary: s)
    case (Cons a bs)
    have "\<forall>rc. a \<noteq> Daemon rc" using Cons.prems(2) by auto
    then have "?stuck (thread_step env a s)" by (rule turn [OF Cons.prems(1)])
    moreover have "\<forall>rc. Daemon rc \<notin> set bs" using Cons.prems(2) by simp
    ultimately show ?case using Cons.IH by simp
  qed simp
  let ?s = "s\<lparr>th_owners := 0, th_destructor := Some Entered\<rparr>"
  have drop: "thread_step env Drop s = ?s" using none assms(3,4) by (simp add: thread_step_def)
  have "threads_inv env ?s" using actor_turn_inv [OF inv, of Drop] none assms(3,4) by simp
  then have "?stuck (thread_run env bs ?s)" using assms(4-6) by (intro run [OF _ assms(8)]) simp
  then have "?stuck s'" using assms(9) drop by simp
  then show ?thesis by (auto simp: threads_inv_defs)
qed

section \<open>Concrete schedules\<close>

definition sample_env :: "(string, unit, (string \<times> nat) list,
    (nat \<times> (string, unit) transport_notification) list) thread_env" where
  "sample_env = \<lparr>te_codec = sample_codec, te_scopes = sample_scopes, te_spread = sample_api,
     te_debug = True, te_is_comm = (\<lambda>ex. case ex of CommException text \<Rightarrow> True | _ \<Rightarrow> False),
     te_dispatcher = count_dispatcher,
     te_sinks = noting_sinks\<rparr>"

abbreviation sample_conn :: spread_connection where
  "sample_conn \<equiv> conn_new False 0 ''localhost'' 4803"

abbreviation live_conn :: spread_connection where
  "live_conn \<equiv> sample_conn\<lparr>mailbox := 7, privateGroup := ''#r7#localhost'', connected := True\<rparr>"

definition sample_bus :: "unit receiver_task \<Rightarrow> (unit, (string \<times> nat) list) bus" where
  "sample_bus t = \<lparr>bus_active = True, connection = live_conn, memberships = [], receiver = Some t,
     scopeDispatcher = []\<rparr>"

abbreviation sample_connect :: spread_call where
  "sample_connect \<equiv> SpConnect (c_str (daemonName sample_conn)) 1 7 ''#r7#localhost''"

lemma sample_start: "\<exists>t. threads_start sample_env sample_conn [] [] = Inr
    \<lparr>th_bus = sample_bus t, th_calls = [sample_connect], th_sinks = [], th_inbox = [], th_posted = 0,
     th_owners = 1, th_receiver = Testing, th_destructor = None\<rparr> \<and> \<not> taskCancelled t
     \<and> messageHandler t = sample_pool"
  by (simp add: threads_start_def sample_env_def bus_create_def bus_activate_def bus_new_def
      conn_activate_def conn_new_def sample_api_def rt_new_def dh_new_def default_pool_def pool_new_def
      sample_bus_def mm_new_def count_dispatcher_def sample_pool_def)
     (simp add: c_str_def)

lemmas thread_eval = thread_step_def receiver_turn_def receive_turn_def handle_turn_def
  destructor_turn_def wakeups_def Let_def conn_receive_def conn_interruptReceive_def sample_bus_def
  conn_new_def c_str_def rt_cancel_def cancel_task_def bus_deactivate_end_def conn_deactivate_def
  caught_def

definition closing_schedule :: "(string, unit) actor list" where
  "closing_schedule = [Destructor, Receiver 1, Destructor, Destructor, Destructor, Wakeup,
     Receiver 2, Destructor, Receiver 3, Receiver 4, Receiver 5, Destructor, Destructor]"

theorem shutdown_completes_witness:
  "\<exists>s0. threads_start sample_env sample_conn [] [] = Inr s0
    \<and> (let s' = thread_run sample_env (Drop # closing_schedule) (thread_run sample_env [Receiver 0] s0) in
         (\<exists>ex. th_receiver s' = Died ex)
         \<or> th_destructor s' = Some Destroyed \<and> th_receiver s' = Ended
           \<and> \<not> connected (connection (th_bus s')) \<and> \<not> bus_active (th_bus s'))"
proof -
  obtain t s0 where start: "threads_start sample_env sample_conn [] [] = Inr s0"
    and s0: "s0 = \<lparr>th_bus = sample_bus t, th_calls = [sample_connect], th_sinks = [], th_inbox = [],
      th_posted = 0, th_owners = 1, th_receiver = Testing, th_destructor = None\<rparr>"
    and t: "\<not> taskCancelled t"
    using sample_start by blast
  have one: "thread_run sample_env [Receiver 0] s0 = s0\<lparr>th_receiver := Receiving\<rparr>"
    using t by (simp add: s0 thread_eval)
  have acc: "wakeups_accepted (te_spread sample_env)"
    by (simp add: wakeups_accepted_def sample_env_def sample_api_def)
  have sub: "subseq closing_turns (map turn_of closing_schedule)"
    by (simp add: closing_turns_def closing_schedule_def eval_nat_numeral)
  have own: "th_owners (thread_run sample_env [Receiver 0] s0) = 1"
    "\<not> holds_bus (th_receiver (thread_run sample_env [Receiver 0] s0))"
    by (simp_all only: one, simp_all add: s0)
  show ?thesis using shutdown_completes [OF start refl own acc sub refl] start by (simp only: Let_def) blast
qed

text \<open>A message that is a notification of its own.\<close>

definition single_message :: sp_received where
  "single_message = sample_message\<lparr>rc_ret := int (length (put_fragment (sample_part 1 0 ''ab'' 1))),
     rc_buf := put_fragment (sample_part 1 0 ''ab'' 1)\<rparr>"

theorem last_owner_in_callback_hangs_witness:
  "\<exists>s0 s n. threads_start sample_env sample_conn [] [] = Inr s0
    \<and> s = thread_run sample_env [Receiver 0, Daemon single_message, Receiver 1, Receiver 2, Receiver 3] s0
    \<and> th_receiver s = InBus (Notify n)
    \<and> (\<forall>bs. Obtain \<notin> set bs \<longrightarrow>
        th_destructor (thread_run sample_env (Drop # bs) s) = None
      \<and> bus_active (th_bus (thread_run sample_env (Drop # bs) s)))"
proof -
  let ?as = "[Receiver 0, Daemon single_message, Receiver 1, Receiver 2, Receiver 3]"
  obtain t s0 where start: "threads_start sample_env sample_conn [] [] = Inr s0"
    and s0: "s0 = \<lparr>th_bus = sample_bus t, th_calls = [sample_connect], th_sinks = [], th_inbox = [],
      th_posted = 0, th_owners = 1, th_receiver = Testing, th_destructor = None\<rparr>"
    and t: "\<not> taskCancelled t"
    using sample_start by blast
  obtain n where at: "th_receiver (thread_run sample_env ?as s0) = InBus (Notify n)"
    and own: "th_owners (thread_run sample_env ?as s0) = 1"
    using t by (simp add: s0 thread_eval single_message_def sample_message_def sample_env_def
      sample_api_def sample_codec_def sample_scopes_def handleMessage_def message_accessors
      message_constructors get_put_fragment maybeJoinFragments_def sample_defs addGroup_def
      SPREAD_MAX_GROUPS_def)
  have "th_destructor (thread_run sample_env (Drop # bs) (thread_run sample_env ?as s0)) = None
      \<and> bus_active (th_bus (thread_run sample_env (Drop # bs) (thread_run sample_env ?as s0)))"
    if "Obtain \<notin> set bs" for bs
    using last_owner_in_callback_hangs [OF start refl own _ that refl] at by simp
  with start at show ?thesis by blast
qed

text \<open>A daemon that refuses messages to a private group.\<close>

definition refusing_env :: "(string, unit, (string \<times> nat) list,
    (nat \<times> (string, unit) transport_notification) list) thread_env" where
  "refusing_env = sample_env\<lparr>te_spread := sample_api\<lparr>SP_multicast := (\<lambda>w m s g d. - 8)\<rparr>\<rparr>"

theorem lost_wakeup_hangs_witness:
  "\<exists>s0. threads_start refusing_env sample_conn [] [] = Inr s0
    \<and> th_destructor (thread_run refusing_env (Drop # closing_schedule)
         (thread_run refusing_env [Receiver 0] s0)) \<noteq> Some Destroyed
    \<and> th_receiver (thread_run refusing_env (Drop # closing_schedule)
         (thread_run refusing_env [Receiver 0] s0)) = Receiving"
proof -
  have "threads_start refusing_env sample_conn [] [] = threads_start sample_env sample_conn [] []"
    by (simp add: threads_start_def refusing_env_def sample_env_def bus_activate_def
        conn_activate_def bus_create_def bus_new_def conn_new_def sample_api_def)
  then obtain t s0 where start: "threads_start refusing_env sample_conn [] [] = Inr s0"
    and s0: "s0 = \<lparr>th_bus = sample_bus t, th_calls = [sample_connect], th_sinks = [], th_inbox = [],
      th_posted = 0, th_owners = 1, th_receiver = Testing, th_destructor = None\<rparr>"
    and t: "\<not> taskCancelled t"
    using sample_start by force
  have one: "thread_run refusing_env [Receiver 0] s0 = s0\<lparr>th_receiver := Receiving\<rparr>"
    using t by (simp add: s0 thread_eval)
  have no: "\<forall>rc. Daemon rc \<notin> set closing_schedule" by (simp add: closing_schedule_def)
  have neg: "\<forall>w mb g. SP_multicast (te_spread refusing_env) w mb
      (RELIABLE_MESS (te_spread refusing_env)) g [] < 0" by (simp add: refusing_env_def)
  have at: "th_owners (thread_run refusing_env [Receiver 0] s0) = 1"
    "th_receiver (thread_run refusing_env [Receiver 0] s0) = Receiving"
    "th_inbox (thread_run refusing_env [Receiver 0] s0) = []"
    "th_posted (thread_run refusing_env [Receiver 0] s0) = 0"
    by (simp_all only: one, simp_all add: s0)
  show ?thesis using lost_wakeup_hangs [OF start refl at neg no refl] start by blast
qed

theorem bus_threads_safe_witness:
  "\<exists>s0. threads_start sample_env sample_conn [] [] = Inr s0
    \<and> well_used 1 (th_calls (thread_run sample_env (Receiver 0 # Drop # closing_schedule) s0))"
proof -
  obtain s0 where start: "threads_start sample_env sample_conn [] [] = Inr s0"
    using sample_start by blast
  from bus_threads_safe [OF start refl, of "Receiver 0 # Drop # closing_schedule"] start
  show ?thesis by (simp add: sample_env_def sample_api_def del: thread_run.simps)
qed

end
