(* ===== verification/Reentrancy.thy ===== *)
theory Reentrancy
  imports MutexProgress Shutdown
begin

text \<open>
  Sinks that call the bus that is calling them. \<open>sinkMutex\<close> is not recursive, so such a call cannot get
  it: the thread waits for itself, and with it every other thread that needs the mutex.
\<close>

section \<open>Who holds the mutex, with sinks that call\<close>

text \<open>The holder of the mutex is inside one block, every other thread inside none.\<close>

definition held_inv :: "('sc, 'm, 'd, 'z) mutex_state \<Rightarrow> bool" where
  "held_inv s \<longleftrightarrow> (\<forall>u. length (filter inside (frames (mx_threads s u)))
     = (if mx_owner s = Some u then 1 else 0))"

lemma inside_return_to: "length (filter inside (return_to r fs)) = length (filter inside fs)"
  by (cases "(r, fs)" rule: return_to.cases) auto

lemma inside_advance:
  "length (filter inside (frames (advance (Goto f) fs c))) = length (filter inside (f # fs))"
  "length (filter inside (frames (advance (Invoke call f) fs c))) = length (filter inside (f # fs))"
  "length (filter inside (frames (advance (Return r) fs c))) = length (filter inside fs)"
  by (cases fs; simp add: inside_return_to)+

text \<open>A step that neither locks nor unlocks stays where it is: inside or outside.\<close>

fun stays :: "('sc, 'm) frame \<Rightarrow> ('sc, 'm) next_frame \<Rightarrow> bool" where
  "stays f (Goto f') = (inside f' = inside f)"
| "stays f (Invoke call f') = (inside f' = inside f)"
| "stays f (Return r) = (\<not> inside f)"

lemma frame_step_stays:
  assumes "frame_step env uses f st = (nx, st')" and "\<And>body. f \<noteq> Locking body" and "\<And>r. f \<noteq> Unlocking r"
  shows "stays f nx" and "owner_after i f ow = ow"
proof -
  have "stays (Begin call) (begin_call env call)" for call
    by (cases rule: begin_call_cases [of env call]) auto
  then show "stays f nx"
    using assms by (cases "(env, uses, f, st)" rule: frame_step.cases)
      (auto split: prod.splits sum.splits option.splits)
  show "owner_after i f ow = ow" using assms(2,3) by (cases f) auto
qed

lemma held_inv_update:
  assumes "held_inv s" and "length (filter inside (frames c)) = (if ow = Some u then 1 else 0)"
    and "\<And>v. v \<noteq> u \<Longrightarrow> (ow = Some v) = (mx_owner s = Some v)"
  shows "held_inv (s\<lparr>mx_bus := st, mx_owner := ow, mx_threads := (mx_threads s)(u := c)\<rparr>)"
  unfolding held_inv_def
proof
  fix v
  show "length (filter inside (frames (mx_threads
      (s\<lparr>mx_bus := st, mx_owner := ow, mx_threads := (mx_threads s)(u := c)\<rparr>) v)))
    = (if mx_owner (s\<lparr>mx_bus := st, mx_owner := ow, mx_threads := (mx_threads s)(u := c)\<rparr>) = Some v
       then 1 else 0)"
    using assms(1) [unfolded held_inv_def, rule_format, of v] assms(2) assms(3) [of v]
    by (cases "v = u") simp_all
qed

lemma held_inv_turn:
  assumes "held_inv s"
  shows "held_inv (mutex_turn env uses u s)"
proof (cases "frames (mx_threads s u)")
  case Nil
  then have "mx_owner s \<noteq> Some u"
    using assms [unfolded held_inv_def, rule_format, of u] by (auto split: if_splits)
  then have "held_inv (s\<lparr>mx_bus := mx_bus s, mx_owner := mx_owner s,
      mx_threads := (mx_threads s)(u := (mx_threads s u)\<lparr>todo := calls, frames := [Begin call]\<rparr>)\<rparr>)"
    for call calls by (intro held_inv_update [OF assms]) auto
  with Nil assms show ?thesis
    by (cases "todo (mx_threads s u)") (simp_all add: mutex_turn_def Let_def)
next
  case (Cons f fs)
  have count: "length (filter inside (f # fs)) = (if mx_owner s = Some u then 1 else 0)"
    using assms [unfolded held_inv_def, rule_format, of u] unfolding Cons .
  show ?thesis
  proof (cases "blocked (mx_owner s) f")
    case True
    with Cons assms show ?thesis by (simp add: mutex_turn_def)
  next
    case False
    obtain nx st' where step: "frame_step env uses f (mx_bus s) = (nx, st')" by (metis surj_pair)
    have turn: "mutex_turn env uses u s = s\<lparr>mx_bus := st', mx_owner := owner_after u f (mx_owner s),
        mx_threads := (mx_threads s)(u := advance nx fs (mx_threads s u))\<rparr>"
      using False Cons step by (simp add: mutex_turn_def)
    have "length (filter inside (frames (advance nx fs (mx_threads s u))))
        = (if owner_after u f (mx_owner s) = Some u then 1 else 0)
      \<and> (\<forall>v. v \<noteq> u \<longrightarrow> (owner_after u f (mx_owner s) = Some v) = (mx_owner s = Some v))"
    proof (cases f)
      case (Locking body)
      with False have "mx_owner s = None" by (cases "mx_owner s") auto
      with Locking count step show ?thesis by (cases "mx_bus s") (auto simp: inside_advance)
    next
      case (Unlocking r)
      with count have "mx_owner s = Some u" by (auto split: if_splits)
      with Unlocking count step inside_advance(3) [of r fs "mx_threads s u"] show ?thesis by auto
    qed (use frame_step_stays [OF step] count in \<open>cases nx; simp add: inside_advance\<close>)+
    with assms show ?thesis unfolding turn by (intro held_inv_update) auto
  qed
qed

lemma held_inv_run: "held_inv s \<Longrightarrow> held_inv (mutex_run env uses as s)"
  by (induction as arbitrary: s) (simp_all add: held_inv_turn)

lemma held_inv_start: "held_inv (mutex_start st calls)"
  by (simp add: held_inv_def mutex_start_def)

lemma mm_join_connection:
  "mm_join (conn_join api) g (gm, (c, w)) = (r, (gm', (c', w'))) \<Longrightarrow> c' = c"
  by (auto simp: mm_join_def split: option.splits prod.splits sum.splits dest: frame_rules)

lemma mm_leave_connection:
  "mm_leave dbg (conn_leave api) g (gm, (c, w)) = (r, (gm', (c', w'))) \<Longrightarrow> c' = c"
  by (auto simp: mm_leave_def split: option.splits prod.splits if_splits dest: frame_rules)

text \<open>No step touches the connection object: what changes is the state of the library.\<close>

lemma frame_step_connection:
  assumes "frame_step env uses f (b, w, z) = (nx, (b', w', z'))"
  shows "connection b' = connection b"
  using assms
  by (cases "(env, uses, f, (b, w, z))" rule: frame_step.cases)
    (auto split: prod.splits sum.splits option.splits dest: frame_rules mm_join_connection mm_leave_connection)

section \<open>A call that cannot come back\<close>

text \<open>
  A notification gets through \<open>sendNotification\<close>: its groups are accepted, its fragments can be
  serialised, and the library takes them.
\<close>

definition sends_through ::
  "('sc, 'm, 'd, 'z) thread_env \<Rightarrow> spread_connection \<Rightarrow> ('sc, 'm) outgoing_notification \<Rightarrow> bool" where
  "sends_through env c n \<longleftrightarrow> (\<exists>m.
     addGroups (MAX_GROUP_NAME (te_spread env)) (on_groups n) (setQOS (on_qos n) message_new) = (Inr (), m)
     \<and> (\<forall>f \<in> set (on_fragments n). \<exists>bytes.
          serialize (te_codec env) (f\<lparr>fn_num_data_parts := of_nat (length (on_fragments n))\<rparr>) = Some bytes
          \<and> (\<forall>w. fst (conn_send (te_spread env) (te_debug env) (setData bytes m) (c, w)) = Inr ())))"

fun takes_mutex ::
  "('sc, 'm, 'd, 'z) thread_env \<Rightarrow> spread_connection \<Rightarrow> ('sc, 'm) bus_call \<Rightarrow> bool" where
  "takes_mutex env c (Used (Send n)) = sends_through env c n"
| "takes_mutex env c _ = True"

text \<open>The frames from which a thread comes to the mutex and to nothing else.\<close>

fun to_mutex :: "('sc, 'm, 'd, 'z) thread_env \<Rightarrow> spread_connection \<Rightarrow> ('sc, 'm) frame \<Rightarrow> bool" where
  "to_mutex env c (Begin call) = takes_mutex env c call"
| "to_mutex env c (Posting n m fs) = (\<forall>f \<in> set fs. \<exists>bytes.
     serialize (te_codec env) (f\<lparr>fn_num_data_parts := of_nat (length (on_fragments n))\<rparr>) = Some bytes
     \<and> (\<forall>w. fst (conn_send (te_spread env) (te_debug env) (setData bytes m) (c, w)) = Inr ()))"
| "to_mutex env c (Locking body) = True"
| "to_mutex env c _ = False"

lemma setData_twice [simp]: "setData x (setData y m) = setData x m"
  by (simp add: setData_def)

lemma to_mutex_step:
  assumes "to_mutex env (connection b) f" and "\<And>body. f \<noteq> Locking body"
    and "frame_step env uses f (b, w, z) = (nx, st')"
  shows "\<exists>f'. nx = Goto f' \<and> to_mutex env (connection b) f' \<and> \<not> inside f \<and> \<not> inside f'"
proof (cases f)
  case (Begin call)
  show ?thesis
  proof (cases "\<exists>n. call = Used (Send n)")
    case True
    then obtain n where call: "call = Used (Send n)" by blast
    with assms(1) Begin have "sends_through env (connection b) n" by simp
    then show ?thesis using assms(3) Begin call by (auto simp: sends_through_def)
  next
    case False
    with assms Begin show ?thesis
      by (cases "(env, call)" rule: begin_call.cases) auto
  qed
next
  case (Posting n m fs)
  show ?thesis
  proof (cases fs)
    case Nil
    with assms Posting show ?thesis by auto
  next
    case (Cons fr frs)
    with assms(1) Posting obtain bytes where bytes: "serialize (te_codec env)
        (fr\<lparr>fn_num_data_parts := of_nat (length (on_fragments n))\<rparr>) = Some bytes"
      and ok: "fst (conn_send (te_spread env) (te_debug env) (setData bytes m) (connection b, w)) = Inr ()"
      by auto
    obtain c' w' where "conn_send (te_spread env) (te_debug env) (setData bytes m) (connection b, w)
        = (Inr (), (c', w'))" using ok by (metis prod.collapse)
    with assms Posting Cons bytes show ?thesis by auto
  qed
qed (use assms in auto)

text \<open>A thread that holds the mutex and is on its way to it again.\<close>

definition waits_for_itself ::
  "('sc, 'm, 'd, 'z) thread_env \<Rightarrow> nat \<Rightarrow> (exn + unit) list \<Rightarrow> ('sc, 'm, 'd, 'z) mutex_state \<Rightarrow> bool" where
  "waits_for_itself env t rs s \<longleftrightarrow> held_inv s \<and> mx_owner s = Some t \<and> returned (mx_threads s t) = rs
     \<and> (\<exists>cb ks calls fs.
         (\<exists>call. frames (mx_threads s t) = Mapping cb ks (call # calls) # fs
            \<and> takes_mutex env (connection (fst (mx_bus s))) call)
       \<or> (\<exists>f. frames (mx_threads s t) = f # Mapping cb ks calls # fs
            \<and> to_mutex env (connection (fst (mx_bus s))) f))"

lemma turn_of_other:
  assumes "held_inv s" and "mx_owner s = Some t" and "u \<noteq> t"
  shows "mx_owner (mutex_turn env uses u s) = Some t
    \<and> mx_threads (mutex_turn env uses u s) t = mx_threads s t
    \<and> connection (fst (mx_bus (mutex_turn env uses u s))) = connection (fst (mx_bus s))"
proof (cases "frames (mx_threads s u)")
  case Nil
  then show ?thesis
    using assms by (cases "todo (mx_threads s u)") (auto simp: mutex_turn_def Let_def)
next
  case (Cons f fs)
  have "length (filter inside (f # fs)) = 0"
    using assms(1) [unfolded held_inv_def, rule_format, of u] assms(2,3) unfolding Cons by simp
  then have out: "\<not> inside f" by (auto split: if_splits)
  show ?thesis
  proof (cases "\<exists>body. f = Locking body")
    case True
    with Cons assms show ?thesis by (auto simp: mutex_turn_def)
  next
    case False
    with out have f: "owner_after u f (Some t) = Some t" "\<not> blocked (Some t) f"
      using owner_after_outside by blast+
    obtain b w z where st: "mx_bus s = (b, w, z)" by (metis surj_pair)
    obtain nx b' w' z' where step: "frame_step env uses f (b, w, z) = (nx, (b', w', z'))" by (metis surj_pair)
    from frame_step_connection [OF this] f Cons assms(2,3) show ?thesis
      by (simp add: mutex_turn_def st step)
  qed
qed

lemma waits_for_itself_turn:
  assumes "waits_for_itself env t rs s"
  shows "waits_for_itself env t rs (mutex_turn env uses u s)"
proof -
  have inv: "held_inv s" and owner: "mx_owner s = Some t"
    using assms by (simp_all add: waits_for_itself_def)
  show ?thesis
  proof (cases "u = t")
    case False
    from turn_of_other [OF inv owner False, of env uses] held_inv_turn [OF inv, of env uses u] assms
    show ?thesis by (simp add: waits_for_itself_def)
  next
    case True
    obtain b w z where st: "mx_bus s = (b, w, z)" by (metis surj_pair)
    have inv': "held_inv (mutex_turn env uses t s)" by (rule held_inv_turn [OF inv])
    from assms have "\<exists>cb ks calls fs.
      (\<exists>call. frames (mx_threads s t) = Mapping cb ks (call # calls) # fs
          \<and> takes_mutex env (connection b) call)
       \<or> (\<exists>f. frames (mx_threads s t) = f # Mapping cb ks calls # fs \<and> to_mutex env (connection b) f)"
      by (simp add: waits_for_itself_def st)
    then show ?thesis
    proof (elim disjE exE conjE)
      fix cb ks calls fs call
      assume "frames (mx_threads s t) = Mapping cb ks (call # calls) # fs"
        and "takes_mutex env (connection b) call"
      with assms inv' True st owner show ?thesis
        by (auto simp: waits_for_itself_def mutex_turn_def)
    next
      fix cb ks calls fs f
      assume f: "frames (mx_threads s t) = f # Mapping cb ks calls # fs" "to_mutex env (connection b) f"
      show ?thesis
      proof (cases "\<exists>body. f = Locking body")
        case True
        with f owner have "mutex_turn env uses t s = s" by (auto simp: mutex_turn_def)
        with assms \<open>u = t\<close> show ?thesis by simp
      next
        case False
        obtain nx b' w' z' where step: "frame_step env uses f (b, w, z) = (nx, (b', w', z'))"
          by (metis surj_pair)
        from to_mutex_step [OF f(2) _ step] False obtain f' where nx: "nx = Goto f'"
          "to_mutex env (connection b) f'" "\<not> inside f" by blast
        from owner_after_outside [OF nx(3)] False have "owner_after t f (Some t) = Some t" "\<not> blocked (Some t) f"
          by blast+
        with f nx step st owner assms inv' frame_step_connection [OF step] \<open>u = t\<close> show ?thesis
          by (auto simp: waits_for_itself_def mutex_turn_def)
      qed
    qed
  qed
qed

lemma waits_for_itself_run:
  "waits_for_itself env t rs s \<Longrightarrow> waits_for_itself env t rs (mutex_run env uses as s)"
  by (induction as arbitrary: s) (simp_all add: waits_for_itself_turn)

text \<open>C24 A sink that calls the bus from within \<open>handleNotification\<close> or \<open>handleError\<close> blocks its thread
  for good, and the bus with it. Whatever the sink calls (a sink is added or removed, a notification
  is sent that goes through to the library), once it is called, the thread holds the mutex and waits
  for it under every schedule: its own call never returns, and no other thread ever gets inside a
  block again.\<close>

theorem reentrant_sink_deadlocks:
  assumes "s = mutex_run env uses as (mutex_start st calls)"
    and "frames (mx_threads s t) = Mapping cb (k # ks) [] # fs" and "mx_bus s = (b, w, z)"
    and "sink_call (te_sinks env) cb k z = (Inr (), z')" and "uses k cb = call # later"
    and "takes_mutex env (connection b) call" and "s' = mutex_run env uses (t # bs) s"
  shows "mx_owner s' = Some t \<and> frames (mx_threads s' t) \<noteq> []
    \<and> returned (mx_threads s' t) = returned (mx_threads s t)
    \<and> (\<forall>u. u \<noteq> t \<longrightarrow> (\<forall>f \<in> set (frames (mx_threads s' u)). \<not> inside f))"
proof -
  have inv: "held_inv s" unfolding assms(1) by (rule held_inv_run [OF held_inv_start])
  then have owner: "mx_owner s = Some t"
    using assms(2) by (auto simp: held_inv_def dest!: spec [of _ t] split: if_splits)
  have "waits_for_itself env t (returned (mx_threads s t)) (mutex_turn env uses t s)"
    using held_inv_turn [OF inv, of env uses t] owner assms(2-6)
    by (auto simp: waits_for_itself_def mutex_turn_def)
  then have "waits_for_itself env t (returned (mx_threads s t)) s'"
    unfolding assms(7) mutex_run.simps by (rule waits_for_itself_run)
  then have s': "held_inv s'" "mx_owner s' = Some t" "returned (mx_threads s' t) = returned (mx_threads s t)"
    "frames (mx_threads s' t) \<noteq> []"
    by (auto simp: waits_for_itself_def)
  have "filter inside (frames (mx_threads s' u)) = []" if "u \<noteq> t" for u
    using s'(1) [unfolded held_inv_def, rule_format, of u] s'(2) that by simp
  with s' show ?thesis by (simp add: filter_empty_conv)
qed

section \<open>Concrete schedules\<close>

text \<open>A listener that answers every notification with one on another scope of the same bus.\<close>

definition answer :: "(string, unit) outgoing_notification" where
  "answer = \<lparr>nf_scope = ''/b'', nf_wireSchema = ''utf-8'', nf_serializedPayload = ''ab'',
     nf_notification = fn_notification (sample_part 1 0 ''ab'' 1), on_qos = FIFO, on_groups = [''/b''],
     on_fragments = [sample_part 1 0 ''ab'' 1]\<rparr>"

definition answering :: "nat \<Rightarrow> (string, unit) callback \<Rightarrow> (string, unit) bus_call list" where
  "answering k cb = [Used (Send answer)]"

definition listened_bus :: "(unit, (string \<times> nat) list) bus" where
  "listened_bus = \<lparr>bus_active = True, connection = live_conn, memberships = [], receiver = None,
     scopeDispatcher = [(''/a'', 5)]\<rparr>"

definition question :: "(string, unit) callback" where
  "question = Notify \<lparr>nf_scope = ''/a'', nf_wireSchema = ''utf-8'', nf_serializedPayload = ''ab'',
     nf_notification = fn_notification (sample_part 1 0 ''ab'' 1)\<rparr>"

definition two_callers :: "nat \<Rightarrow> (string, unit) bus_call list" where
  "two_callers i = (if i = 0 then [Called question] else if i = 1 then [Used (AddSink ''/b'' 9)] else [])"

lemmas mutex_eval = mutex_turn_def mutex_start_def two_callers_def question_def listened_bus_def
  sample_env_def count_dispatcher_def noting_sinks_def Let_def

theorem reentrant_sink_deadlocks_witness:
  "\<forall>bs. let s' = mutex_run sample_env answering (0 # bs)
      (mutex_run sample_env answering [0, 0, 0] (mutex_start (listened_bus, [], []) two_callers)) in
    mx_owner s' = Some 0 \<and> (\<forall>f \<in> set (frames (mx_threads s' 1)). \<not> inside f)"
proof
  fix bs
  let ?s = "mutex_run sample_env answering [0, 0, 0] (mutex_start (listened_bus, [], []) two_callers)"
  have at: "frames (mx_threads ?s 0) = Mapping question [5] [] # []" "mx_bus ?s = (listened_bus, [], [])"
    by (simp_all add: mutex_eval)
  obtain z' where call: "sink_call (te_sinks sample_env) question 5 [] = (Inr (), z')"
    by (simp add: question_def sample_env_def noting_sinks_def)
  let ?m = "\<lparr>mtype = OTHER, mqos = FIFO, mdata = [], mgroups = [''/b'']\<rparr>"
  have groups: "addGroups (MAX_GROUP_NAME (te_spread sample_env)) (on_groups answer)
      (setQOS (on_qos answer) message_new) = (Inr (), ?m)"
    by (simp add: answer_def sample_env_def sample_api_def addGroup_def message_accessors
        message_constructors insort_insert_key_def)
  have "fst (conn_send (te_spread sample_env) (te_debug sample_env) (setData bytes ?m) (live_conn, w)) = Inr ()"
    for bytes w
    by (simp add: sample_env_def sample_api_def conn_send_def send_result_def message_accessors Let_def)
  then have "sends_through sample_env live_conn answer"
    unfolding sends_through_def
    by (intro exI [of _ ?m]) (simp add: groups, simp add: sample_env_def sample_codec_def)
  then have "takes_mutex sample_env (connection listened_bus) (Used (Send answer))"
    by (simp add: listened_bus_def)
  note stuck = reentrant_sink_deadlocks [OF refl at call _ this refl, where later = "[]" and bs = bs]
  have "answering 5 question = Used (Send answer) # []" by (simp add: answering_def)
  note stuck = stuck [OF this]
  show "let s' = mutex_run sample_env answering (0 # bs) ?s in
      mx_owner s' = Some 0 \<and> (\<forall>f \<in> set (frames (mx_threads s' 1)). \<not> inside f)"
    unfolding Let_def
  proof
    show "mx_owner (mutex_run sample_env answering (0 # bs) ?s) = Some 0"
      by (rule stuck [THEN conjunct1])
    show "\<forall>f \<in> set (frames (mx_threads (mutex_run sample_env answering (0 # bs) ?s) 1)). \<not> inside f"
      using stuck [THEN conjunct2, THEN conjunct2, THEN conjunct2, rule_format, of 1] by blast
  qed
qed

definition two_callers_start ::
  "(string, unit, (string \<times> nat) list, (nat \<times> (string, unit) transport_notification) list) mutex_state" where
  "two_callers_start = mutex_start (listened_bus, [], []) two_callers"

theorem blocks_are_atomic_witness:
  "\<exists>bs. subseq bs [0, 1, 0, 1, 0, 1, 0, 0, 0, 1, 1, 1, 1]
    \<and> mutex_run sample_env (\<lambda>k cb. []) [0, 1, 0, 1, 0, 1, 0, 0, 0, 1, 1, 1, 1] two_callers_start
      = atomic_run sample_env bs two_callers_start"
proof -
  have "mx_owner (mutex_run sample_env (\<lambda>k cb. []) [0, 1, 0, 1, 0, 1, 0, 0, 0, 1, 1, 1, 1] two_callers_start) = None"
    by (simp add: two_callers_start_def mutex_eval mm_join_def conn_join_def sample_api_def split: prod.splits)
  with blocks_are_atomic [OF two_callers_start_def refl] show ?thesis by blast
qed

theorem calls_come_back_witness:
  "\<exists>bs. let s' = mutex_run sample_env (\<lambda>k cb. []) bs
      (mutex_run sample_env (\<lambda>k cb. []) [0, 1, 0, 1, 0, 1] two_callers_start) in
    mx_owner s' = None \<and> length (returned (mx_threads s' 0)) = 1 \<and> length (returned (mx_threads s' 1)) = 1"
proof -
  have fin: "finite {i. two_callers i \<noteq> []}"
    by (rule finite_subset [of _ "{0, 1}"]) (auto simp: two_callers_def split: if_splits)
  obtain bs where bs: "mx_owner (mutex_run sample_env (\<lambda>k cb. []) bs
      (mutex_run sample_env (\<lambda>k cb. []) [0, 1, 0, 1, 0, 1] two_callers_start)) = None"
    "\<And>i. length (returned (mx_threads (mutex_run sample_env (\<lambda>k cb. []) bs
      (mutex_run sample_env (\<lambda>k cb. []) [0, 1, 0, 1, 0, 1] two_callers_start)) i)) = length (two_callers i)"
    using calls_come_back [OF fin refl, of sample_env "[0, 1, 0, 1, 0, 1]" "(listened_bus, [], [])"]
    unfolding two_callers_start_def by blast
  have "length (two_callers 0) = 1" "length (two_callers 1) = 1" by (simp_all add: two_callers_def)
  with bs show ?thesis unfolding Let_def by (intro exI [of _ bs]) (simp only: simp_thms)
qed

end
