(* ===== verification/ConcurrentSenders.thy ===== *)
theory ConcurrentSenders
  imports Reentrancy EndToEnd PrunedReceiver
begin

text \<open>
  Several threads publish through one bus. \<open>BusImpl::sendNotification\<close> takes no lock: the fragments of
  the events of different threads leave the process in any interleaving. Each thread works on a message
  object of its own, so the packets of every call are its fragments, in order, and an event that has been
  sent while other threads were sending arrives intact.
\<close>

section \<open>The packets of the threads\<close>

type_synonym packet = "string list \<times> 32 word \<times> string"

definition bus_sent :: "('sc, 'm, 'd, 'z) mutex_state \<Rightarrow> packet list" where
  "bus_sent s = sent (fst (snd (mx_bus s)))"

text \<open>What leaves the process in a turn, and in a run, each packet with the thread that sends it.\<close>

definition turn_packets ::
  "('sc, 'm, 'd, 'z) thread_env \<Rightarrow> (nat \<Rightarrow> ('sc, 'm) callback \<Rightarrow> ('sc, 'm) bus_call list) \<Rightarrow> nat
     \<Rightarrow> ('sc, 'm, 'd, 'z) mutex_state \<Rightarrow> packet list" where
  "turn_packets env uses i s = (let after = bus_sent (mutex_turn env uses i s) in
     rev (take (length after - length (bus_sent s)) after))"

fun run_packets ::
  "('sc, 'm, 'd, 'z) thread_env \<Rightarrow> (nat \<Rightarrow> ('sc, 'm) callback \<Rightarrow> ('sc, 'm) bus_call list) \<Rightarrow> nat list
     \<Rightarrow> ('sc, 'm, 'd, 'z) mutex_state \<Rightarrow> (nat \<times> packet) list" where
  "run_packets env uses [] s = []"
| "run_packets env uses (i # is) s =
     map (Pair i) (turn_packets env uses i s) @ run_packets env uses is (mutex_turn env uses i s)"

definition packets_by :: "nat \<Rightarrow> (nat \<times> packet) list \<Rightarrow> packet list" where
  "packets_by i ps = map snd (filter (\<lambda>(j, p). j = i) ps)"

lemma packets_by_simps [simp]:
  "packets_by i [] = []" "packets_by i (ps @ qs) = packets_by i ps @ packets_by i qs"
  "packets_by i (map (Pair j) xs) = (if i = j then xs else [])"
  by (auto simp: packets_by_def comp_def)

text \<open>The packets of a notification when it is sent as a whole.\<close>

definition filled_message :: "('sc, 'm, 'd, 'z) thread_env \<Rightarrow> ('sc, 'm) outgoing_notification \<Rightarrow> spread_message" where
  "filled_message env n =
     snd (addGroups (MAX_GROUP_NAME (te_spread env)) (on_groups n) (setQOS (on_qos n) message_new))"

definition packet_of ::
  "('sc, 'm, 'd, 'z) thread_env \<Rightarrow> ('sc, 'm) outgoing_notification \<Rightarrow> 'm fragmented \<Rightarrow> packet option" where
  "packet_of env n f = map_option (\<lambda>bytes. (map c_str (mgroups (filled_message env n)),
       or (qos_code (on_qos n)) (SELF_DISCARD (te_spread env)), bytes))
     (serialize (te_codec env) (f\<lparr>fn_num_data_parts := of_nat (length (on_fragments n))\<rparr>))"

fun call_packets :: "('sc, 'm, 'd, 'z) thread_env \<Rightarrow> ('sc, 'm) bus_call \<Rightarrow> packet option list" where
  "call_packets env (Used (Send n)) = map (packet_of env n) (on_fragments n)"
| "call_packets env call = []"

section \<open>One call\<close>

text \<open>What a call has sent when it is over, and while it is at a frame.\<close>

definition whole_call :: "('sc, 'm, 'd, 'z) thread_env \<Rightarrow> ('sc, 'm) bus_call \<Rightarrow> packet list \<Rightarrow> bool" where
  "whole_call env call ps \<longleftrightarrow> map Some ps = call_packets env call"

definition call_trace ::
  "('sc, 'm, 'd, 'z) thread_env \<Rightarrow> ('sc, 'm) bus_call \<Rightarrow> exn + unit \<Rightarrow> packet list \<Rightarrow> bool" where
  "call_trace env call r ps \<longleftrightarrow>
     prefix (map Some ps) (call_packets env call) \<and> (r = Inr () \<longrightarrow> whole_call env call ps)"

fun frame_trace ::
  "('sc, 'm, 'd, 'z) thread_env \<Rightarrow> ('sc, 'm) bus_call \<Rightarrow> ('sc, 'm) frame \<Rightarrow> packet list \<Rightarrow> bool" where
  "frame_trace env call (Begin c) ps = (c = call \<and> ps = [])"
| "frame_trace env call (Posting n m fs) ps = (call = Used (Send n)
     \<and> mgroups m = mgroups (filled_message env n) \<and> mqos m = on_qos n
     \<and> (\<exists>gs. on_fragments n = gs @ fs \<and> map Some ps = map (packet_of env n) gs))"
| "frame_trace env call (Mapping cb ks calls) ps = (calls = [] \<and> whole_call env call ps)"
| "frame_trace env call f ps = whole_call env call ps"

lemma whole_call_trace: "whole_call env call ps \<Longrightarrow> call_trace env call r ps"
  by (simp add: call_trace_def whole_call_def)

lemma nothing_trace: "call_trace env call (Inl ex) []"
  by (simp add: call_trace_def)

lemma posting_prefix:
  "frame_trace env call (Posting n m fs) ps \<Longrightarrow> call_trace env call (Inl ex) ps"
  by (auto simp: call_trace_def)

lemma mm_join_sent:
  "mm_join (conn_join api) g (gm, (c, w)) = (r, (gm', (c', w'))) \<Longrightarrow> sent w' = sent w"
  by (auto simp: mm_join_def conn_join_def Let_def split: outcome_splits option.splits)

lemma mm_leave_sent:
  "mm_leave dbg (conn_leave api) g (gm, (c, w)) = (r, (gm', (c', w'))) \<Longrightarrow> sent w' = sent w"
  by (auto simp: mm_leave_def conn_leave_def Let_def split: outcome_splits option.splits)

lemma conn_send_refused: "conn_send api dbg m (c, w) = (Inl ex, (c', w')) \<Longrightarrow> sent w' = sent w"
  by (auto simp: conn_send_def send_result_def Let_def split: if_splits sum.splits)

fun next_trace ::
  "('sc, 'm, 'd, 'z) thread_env \<Rightarrow> ('sc, 'm) bus_call \<Rightarrow> ('sc, 'm) next_frame \<Rightarrow> packet list \<Rightarrow> bool" where
  "next_trace env call (Goto f) ps = frame_trace env call f ps"
| "next_trace env call (Return r) ps = call_trace env call r ps"
| "next_trace env call (Invoke c f) ps = False"

lemma begin_trace: "next_trace env call (begin_call env call) []"
proof (cases "(env, call)" rule: begin_call.cases)
  case (3 env' n)
  obtain r m where add: "addGroups (MAX_GROUP_NAME (te_spread env)) (on_groups n)
      (setQOS (on_qos n) message_new) = (r, m)" by (metis surj_pair)
  show ?thesis
  proof (cases r)
    case (Inl ex)
    then show ?thesis using 3 add by (simp add: nothing_trace)
  next
    case (Inr u)
    then have "mqos m = on_qos n" using addGroups_Inr [of _ _ _ u m] add by (simp add: setQOS_def)
    then show ?thesis using 3 add Inr by (simp add: filled_message_def)
  qed
qed (simp_all add: whole_call_def)

lemma frame_step_trace:
  assumes "frame_trace env call f ps" and "frame_step env no_uses f (b, w, z) = (nx, (b', w', z'))"
  shows "\<exists>new. sent w' = rev new @ sent w \<and> next_trace env call nx (ps @ new)"
proof (cases f)
  case (Begin c)
  then show ?thesis using assms begin_trace [of env call] by auto
next
  case (Posting n m fs)
  show ?thesis
  proof (cases fs)
    case Nil
    then have "whole_call env call ps" using assms(1) Posting by (auto simp: whole_call_def)
    then show ?thesis using assms(2) Posting Nil by auto
  next
    case (Cons g gs)
    let ?g = "g\<lparr>fn_num_data_parts := of_nat (length (on_fragments n))\<rparr>"
    note stop = posting_prefix [OF assms(1) [unfolded Posting]]
    show ?thesis
    proof (cases "serialize (te_codec env) ?g")
      case None
      then show ?thesis using assms(2) Posting Cons stop by auto
    next
      case (Some bytes)
      obtain r c1 w1 where send: "conn_send (te_spread env) (te_debug env) (setData bytes m) (connection b, w)
          = (r, (c1, w1))" by (metis surj_pair)
      show ?thesis
      proof (cases r)
        case (Inl ex)
        then show ?thesis using assms(2) Posting Cons Some send stop conn_send_refused [of _ _ _ _ _ ex] by auto
      next
        case (Inr u)
        from assms(1) Posting Cons obtain hs where m: "call = Used (Send n)" "mqos m = on_qos n"
            "mgroups m = mgroups (filled_message env n)" "on_fragments n = hs @ g # gs"
            "map Some ps = map (packet_of env n) hs" by auto
        define q where "q = (map c_str (mgroups m), or (qos_code (mqos m)) (SELF_DISCARD (te_spread env)), bytes)"
        have q: "packet_of env n g = Some q" using m(2,3) Some by (simp add: packet_of_def q_def)
        have "sent w1 = q # sent w"
          using conn_send_Inr(2) [OF send [unfolded Inr]] by (simp add: q_def setData_def)
        moreover have "w' = w1" "nx = Goto (Posting n (setData bytes m) gs)"
          using assms(2) Posting Cons Some send Inr by auto
        moreover have "frame_trace env call (Posting n (setData bytes m) gs) (ps @ [q])"
          using m q by (auto simp: setData_def intro: exI [of _ "hs @ [g]"])
        ultimately show ?thesis by (intro exI [of _ "[q]"]) simp
      qed
    qed
  qed
next
  case (Locking body)
  then show ?thesis using assms by (cases body) auto
next
  case (Joining scope k)
  then show ?thesis using assms mm_join_sent by (fastforce split: prod.splits sum.splits)
next
  case (Quitting scope)
  then show ?thesis using assms mm_leave_sent by (fastforce split: prod.splits)
next
  case (Mapping cb ks calls)
  then show ?thesis using assms by (cases ks) (auto split: prod.splits sum.splits)
next
  case (Unlocking r)
  then show ?thesis using assms whole_call_trace by auto
qed (use assms in auto)

section \<open>All calls of a thread\<close>

text \<open>The packets of a thread are those of its finished calls, one after the other, and those of the call it
  is in.\<close>

definition finished_calls ::
  "('sc, 'm, 'd, 'z) thread_env \<Rightarrow> ('sc, 'm) bus_call list \<Rightarrow> (exn + unit) list \<Rightarrow> packet list list \<Rightarrow> bool" where
  "finished_calls env calls rs pss \<longleftrightarrow> length pss = length rs \<and> length rs \<le> length calls
     \<and> (\<forall>k < length rs. call_trace env (calls ! k) (rs ! k) (pss ! k))"

fun current_call ::
  "('sc, 'm, 'd, 'z) thread_env \<Rightarrow> ('sc, 'm) bus_call list \<Rightarrow> ('sc, 'm) caller \<Rightarrow> packet list \<Rightarrow> bool" where
  "current_call env calls c ps = (case frames c of
     [] \<Rightarrow> ps = [] \<and> todo c = drop (length (returned c)) calls
   | [f] \<Rightarrow> length (returned c) < length calls \<and> todo c = drop (Suc (length (returned c))) calls
       \<and> frame_trace env (calls ! length (returned c)) f ps
   | _ \<Rightarrow> False)"

definition thread_trace ::
  "('sc, 'm, 'd, 'z) thread_env \<Rightarrow> ('sc, 'm) bus_call list \<Rightarrow> ('sc, 'm) caller \<Rightarrow> packet list \<Rightarrow> bool" where
  "thread_trace env calls c ps \<longleftrightarrow> (\<exists>pss cur. ps = concat pss @ cur
     \<and> finished_calls env calls (returned c) pss \<and> current_call env calls c cur)"

lemma thread_trace_start: "thread_trace env calls \<lparr>todo = calls, frames = [], returned = []\<rparr> []"
  unfolding thread_trace_def
  by (intro exI [of _ "[]"]) (simp add: finished_calls_def)

lemma finished_calls_snoc:
  assumes "finished_calls env calls rs pss" and "length rs < length calls"
    and "call_trace env (calls ! length rs) r ps"
  shows "finished_calls env calls (rs @ [r]) (pss @ [ps])"
  using assms by (auto simp: finished_calls_def nth_append less_Suc_eq)

lemma advance_trace:
  assumes "finished_calls env calls (returned c) pss" and "length (returned c) < length calls"
    and "todo c = drop (Suc (length (returned c))) calls"
    and "next_trace env (calls ! length (returned c)) nx ps"
  shows "thread_trace env calls (advance nx [] c) (concat pss @ ps)"
proof (cases nx)
  case (Goto f)
  then show ?thesis using assms unfolding thread_trace_def by (intro exI [of _ pss] exI [of _ ps]) simp
next
  case (Return r)
  then show ?thesis
    using assms(2-4) finished_calls_snoc [OF assms(1,2), of r ps]
    unfolding thread_trace_def by (intro exI [of _ "pss @ [ps]"] exI [of _ "[]"]) simp
qed (use assms(4) in simp)

lemma turn_trace:
  assumes "thread_trace env calls (mx_threads s i) ps"
  shows "\<exists>new. bus_sent (mutex_turn env no_uses i s) = rev new @ bus_sent s
    \<and> turn_packets env no_uses i s = new
    \<and> thread_trace env calls (mx_threads (mutex_turn env no_uses i s) i) (ps @ new)
    \<and> (\<forall>j. j \<noteq> i \<longrightarrow> mx_threads (mutex_turn env no_uses i s) j = mx_threads s j)"
proof -
  let ?c = "mx_threads s i"
  obtain pss cur where ps: "ps = concat pss @ cur" and fin: "finished_calls env calls (returned ?c) pss"
    and cur: "current_call env calls ?c cur" using assms unfolding thread_trace_def by blast
  have packets: "turn_packets env no_uses i s = new"
    if "bus_sent (mutex_turn env no_uses i s) = rev new @ bus_sent s" for new
    using that by (simp add: turn_packets_def)
  show ?thesis
  proof (cases "frames ?c")
    case Nil
    then have c: "cur = []" "todo ?c = drop (length (returned ?c)) calls" using cur by simp_all
    show ?thesis
    proof (cases "todo ?c")
      case Nil
      with \<open>frames ?c = []\<close> have "mutex_turn env no_uses i s = s" by (simp add: mutex_turn_def)
      then show ?thesis using packets [of "[]"] assms by simp
    next
      case (Cons call rest_calls)
      let ?c' = "?c\<lparr>todo := rest_calls, frames := [Begin call]\<rparr>"
      have turn: "mutex_turn env no_uses i s = s\<lparr>mx_threads := (mx_threads s)(i := ?c')\<rparr>"
        using \<open>frames ?c = []\<close> Cons by (simp add: mutex_turn_def)
      have k: "length (returned ?c) < length calls" "calls ! length (returned ?c) = call"
        "rest_calls = drop (Suc (length (returned ?c))) calls"
        using Cons c(2) by (metis drop_eq_Nil linorder_not_less list.distinct(1),
          metis nth_via_drop, metis drop_Suc list.sel(3) tl_drop)
      have "thread_trace env calls ?c' ps"
        using fin k c(1) ps unfolding thread_trace_def by (intro exI [of _ pss] exI [of _ "[]"]) simp
      then show ?thesis using packets [of "[]"] by (simp add: turn bus_sent_def)
    qed
  next
    case (Cons f fs)
    with cur have fs: "fs = []" and k: "length (returned ?c) < length calls"
        "todo ?c = drop (Suc (length (returned ?c))) calls" "frame_trace env (calls ! length (returned ?c)) f cur"
      by (auto split: list.splits)
    show ?thesis
    proof (cases "blocked (mx_owner s) f")
      case True
      then have "mutex_turn env no_uses i s = s" using Cons by (simp add: mutex_turn_def)
      then show ?thesis using packets [of "[]"] assms by simp
    next
      case False
      obtain b w z where bus: "mx_bus s = (b, w, z)" by (cases "mx_bus s")
      obtain nx b' w' z' where step: "frame_step env no_uses f (b, w, z) = (nx, (b', w', z'))"
        by (metis prod.exhaust)
      have turn: "mutex_turn env no_uses i s = s\<lparr>mx_bus := (b', w', z'), mx_owner := owner_after i f (mx_owner s),
          mx_threads := (mx_threads s)(i := advance nx [] ?c)\<rparr>"
        using Cons False step bus fs by (simp add: mutex_turn_def)
      from frame_step_trace [OF k(3) step] obtain new where new: "sent w' = rev new @ sent w"
        and nx: "next_trace env (calls ! length (returned ?c)) nx (cur @ new)" by blast
      have "thread_trace env calls (advance nx [] ?c) (ps @ new)"
        using advance_trace [OF fin k(1,2) nx] by (simp add: ps)
      then show ?thesis using packets [of new] new by (simp add: turn bus_sent_def bus)
    qed
  qed
qed

lemma run_trace:
  assumes "\<forall>i. thread_trace env (calls i) (mx_threads s i) (tr i)"
  shows "bus_sent (mutex_run env no_uses is s)
      = rev (map snd (run_packets env no_uses is s)) @ bus_sent s
    \<and> (\<forall>i. thread_trace env (calls i) (mx_threads (mutex_run env no_uses is s) i)
      (tr i @ packets_by i (run_packets env no_uses is s)))"
  using assms
proof (induction "is" arbitrary: s tr)
  case (Cons j js)
  let ?s = "mutex_turn env no_uses j s"
  from turn_trace [OF spec [OF Cons.prems, of j]] obtain new where new: "bus_sent ?s = rev new @ bus_sent s"
    "turn_packets env no_uses j s = new" "thread_trace env (calls j) (mx_threads ?s j) (tr j @ new)"
    "\<forall>i. i \<noteq> j \<longrightarrow> mx_threads ?s i = mx_threads s i" by blast
  have "\<forall>i. thread_trace env (calls i) (mx_threads ?s i) ((tr(j := tr j @ new)) i)"
  proof
    show "thread_trace env (calls i) (mx_threads ?s i) ((tr(j := tr j @ new)) i)" for i
      using new(3,4) Cons.prems by (cases "i = j") simp_all
  qed
  from Cons.IH [OF this] have IH: "bus_sent (mutex_run env no_uses js ?s)
      = rev (map snd (run_packets env no_uses js ?s)) @ bus_sent ?s"
    "\<And>i. thread_trace env (calls i) (mx_threads (mutex_run env no_uses js ?s) i)
      ((tr(j := tr j @ new)) i @ packets_by i (run_packets env no_uses js ?s))" by simp_all
  have "thread_trace env (calls i) (mx_threads (mutex_run env no_uses js ?s) i)
      (tr i @ packets_by i (run_packets env no_uses (j # js) s))" for i
    using IH(2) [of i] new(2) by (cases "i = j") simp_all
  then show ?case using IH(1) new(1,2) by (simp add: comp_def)
qed simp

section \<open>The packets of one event\<close>

text \<open>What a packet carries.\<close>

definition data_of_event :: "'m codec_api \<Rightarrow> event_id \<Rightarrow> string \<Rightarrow> bool" where
  "data_of_event ca eid d \<longleftrightarrow> (\<exists>f. parse ca d = Some f \<and> nt_event_id (fn_notification f) = eid)"

definition packets_with :: "'m codec_api \<Rightarrow> event_id \<Rightarrow> packet list \<Rightarrow> packet list" where
  "packets_with ca eid ps = filter (\<lambda>p. data_of_event ca eid (snd (snd p))) ps"

lemma packets_with_simps [simp]:
  "packets_with ca eid [] = []" "packets_with ca eid (ps @ qs) = packets_with ca eid ps @ packets_with ca eid qs"
  by (simp_all add: packets_with_def)

definition fragment_ids :: "('sc, 'm) bus_call \<Rightarrow> event_id set" where
  "fragment_ids call = (case call of Used (Send n) \<Rightarrow> (\<lambda>f. nt_event_id (fn_notification f)) ` set (on_fragments n) | _ \<Rightarrow> {})"

lemma packet_of_parses:
  assumes "codec_roundtrips (te_codec env)" and "packet_of env n f = Some p"
  shows "parse (te_codec env) (snd (snd p)) = Some (f\<lparr>fn_num_data_parts := of_nat (length (on_fragments n))\<rparr>)"
  using assms by (auto simp: packet_of_def codec_roundtrips_def)

text \<open>Every packet of a call carries an event of the call.\<close>

lemma call_packets_ids:
  assumes "codec_roundtrips (te_codec env)" and "Some p \<in> set (call_packets env call)"
    and "data_of_event (te_codec env) eid (snd (snd p))"
  shows "eid \<in> fragment_ids call"
proof -
  from assms(2) obtain n f where call: "call = Used (Send n)" "f \<in> set (on_fragments n)" "packet_of env n f = Some p"
    by (cases "(env, call)" rule: call_packets.cases) auto
  from packet_of_parses [OF assms(1) call(3)] assms(3) have "nt_event_id (fn_notification f) = eid"
    by (auto simp: data_of_event_def)
  then show ?thesis using call by (auto simp: fragment_ids_def)
qed

lemma other_call_packets:
  assumes "codec_roundtrips (te_codec env)" and "call_trace env call r ps" and "eid \<notin> fragment_ids call"
  shows "packets_with (te_codec env) eid ps = []"
proof -
  have "Some p \<in> set (call_packets env call)" if "p \<in> set ps" for p
    using assms(2) that by (auto simp: call_trace_def prefix_def)
  then show ?thesis using call_packets_ids [OF assms(1)] assms(3)
    by (fastforce simp: packets_with_def filter_empty_conv)
qed

lemma current_call_trace:
  assumes "current_call env calls c ps"
  shows "ps = [] \<or> length (returned c) < length calls
    \<and> (\<exists>r. call_trace env (calls ! length (returned c)) r ps)"
proof (cases "frames c")
  case (Cons f fs)
  with assms have k: "length (returned c) < length calls" "frame_trace env (calls ! length (returned c)) f ps"
    by (auto split: list.splits)
  have "\<exists>r. call_trace env (calls ! length (returned c)) r ps"
  proof (cases f)
    case (Posting n m gs)
    then show ?thesis using k(2) posting_prefix by blast
  qed (use k(2) in \<open>auto intro: whole_call_trace nothing_trace\<close>)
  then show ?thesis using k(1) by simp
qed (use assms in simp)

text \<open>The packets of an event that only one call of a thread sends, among all packets of the thread.\<close>

lemma thread_event_packets:
  assumes "codec_roundtrips (te_codec env)" and "thread_trace env calls c ps"
    and "k < length (returned c)" and "calls ! k = Used (Send n)" and "returned c ! k = Inr ()"
    and "\<forall>l < length calls. l \<noteq> k \<longrightarrow> eid \<notin> fragment_ids (calls ! l)"
    and "\<forall>f \<in> set (on_fragments n). nt_event_id (fn_notification f) = eid"
  shows "map Some (packets_with (te_codec env) eid ps) = map (packet_of env n) (on_fragments n)"
proof -
  let ?with = "packets_with (te_codec env) eid"
  obtain pss cur where ps: "ps = concat pss @ cur" and fin: "finished_calls env calls (returned c) pss"
    and cur: "current_call env calls c cur" using assms(2) unfolding thread_trace_def by blast
  have len: "length pss = length (returned c)" "length (returned c) \<le> length calls"
    and trace: "\<And>l. l < length (returned c) \<Longrightarrow> call_trace env (calls ! l) (returned c ! l) (pss ! l)"
    using fin by (simp_all add: finished_calls_def)
  have others: "?with (pss ! l) = []" if "l < length pss" "l \<noteq> k" for l
    using other_call_packets [OF assms(1) trace] that len assms(6) by simp
  have "?with cur = []"
    using current_call_trace [OF cur] other_call_packets [OF assms(1)] assms(3,6) by fastforce
  moreover have "?with (concat pss) = ?with (pss ! k)"
  proof -
    have split: "pss = take k pss @ pss ! k # drop (Suc k) pss"
      using assms(3) len(1) by (simp add: id_take_nth_drop)
    have "?with (concat xs) = []" if "\<forall>x \<in> set xs. ?with x = []" for xs
      using that by (induction xs) simp_all
    moreover have "\<forall>x \<in> set (take k pss). ?with x = []" "\<forall>x \<in> set (drop (Suc k) pss). ?with x = []"
      using others by (fastforce simp: in_set_conv_nth)+
    ultimately show ?thesis by (subst split) simp
  qed
  moreover have whole: "map Some (pss ! k) = map (packet_of env n) (on_fragments n)"
    using trace [OF assms(3)] assms(4,5) by (simp add: call_trace_def whole_call_def)
  moreover have "?with (pss ! k) = pss ! k"
    unfolding packets_with_def
  proof (rule filter_True, rule ballI)
    fix p
    assume "p \<in> set (pss ! k)"
    then have "Some p \<in> set (map (packet_of env n) (on_fragments n))" using whole by (metis image_eqI list.set_map)
    then obtain f where f: "f \<in> set (on_fragments n)" "packet_of env n f = Some p" by auto
    from packet_of_parses [OF assms(1) f(2)] f(1) assms(7)
    show "data_of_event (te_codec env) eid (snd (snd p))" by (simp add: data_of_event_def)
  qed
  ultimately show ?thesis by (simp add: ps)
qed

lemma thread_other_packets:
  assumes "codec_roundtrips (te_codec env)" and "thread_trace env calls c ps"
    and "\<forall>l < length calls. eid \<notin> fragment_ids (calls ! l)"
  shows "packets_with (te_codec env) eid ps = []"
proof -
  let ?with = "packets_with (te_codec env) eid"
  obtain pss cur where ps: "ps = concat pss @ cur" and fin: "finished_calls env calls (returned c) pss"
    and cur: "current_call env calls c cur" using assms(2) unfolding thread_trace_def by blast
  have "?with x = []" if "x \<in> set pss" for x
  proof -
    obtain l where l: "l < length pss" "x = pss ! l" using \<open>x \<in> set pss\<close> by (auto simp: in_set_conv_nth)
    then have "call_trace env (calls ! l) (returned c ! l) x" "l < length calls"
      using fin by (auto simp: finished_calls_def)
    then show ?thesis using other_call_packets [OF assms(1)] assms(3) by blast
  qed
  then have "?with (concat pss) = []" by (induction pss) simp_all
  moreover have "?with cur = []"
    using current_call_trace [OF cur] other_call_packets [OF assms(1)] assms(3) by fastforce
  ultimately show ?thesis by (simp add: ps)
qed

lemma packets_with_thread:
  assumes "\<And>j. j \<noteq> i \<Longrightarrow> packets_with ca eid (packets_by j tagged) = []"
  shows "packets_with ca eid (map snd tagged) = packets_with ca eid (packets_by i tagged)"
proof -
  have none: "\<not> data_of_event ca eid (snd (snd p))" if "(j, p) \<in> set tagged" "j \<noteq> i" for j p
  proof -
    have "p \<in> set (packets_by j tagged)" using that(1) by (force simp: packets_by_def)
    then show ?thesis using assms [OF that(2)] by (auto simp: packets_with_def filter_empty_conv)
  qed
  have "packets_with ca eid (map snd xs) = packets_with ca eid (packets_by i xs)"
    if "set xs \<subseteq> set tagged" for xs
    using that
  proof (induction xs)
    case (Cons x xs)
    obtain j p where x: "x = (j, p)" by (cases x)
    show ?case
    proof (cases "j = i")
      case True
      then show ?thesis using Cons x by (simp add: packets_by_def packets_with_def)
    next
      case False
      then have "\<not> data_of_event ca eid (snd (snd p))" using none [of j p] Cons.prems x by simp
      then show ?thesis using Cons x False by (simp add: packets_by_def packets_with_def)
    qed
  qed simp
  then show ?thesis by simp
qed

text \<open>The packets of an event among all packets of a run.\<close>

lemma run_event_packets:
  assumes "codec_roundtrips (te_codec env)" and "s = mutex_run env no_uses is (mutex_start st calls)"
    and "k < length (returned (mx_threads s i))" and "calls i ! k = Used (Send n)"
    and "returned (mx_threads s i) ! k = Inr ()"
    and "\<forall>j l. l < length (calls j) \<and> (j, l) \<noteq> (i, k) \<longrightarrow> eid \<notin> fragment_ids (calls j ! l)"
    and "\<forall>f \<in> set (on_fragments n). nt_event_id (fn_notification f) = eid"
  shows "\<exists>new. bus_sent s = rev new @ bus_sent (mutex_start st calls)
    \<and> map Some (packets_with (te_codec env) eid new) = map (packet_of env n) (on_fragments n)"
proof -
  let ?start = "mutex_start st calls"
  let ?posts = "run_packets env no_uses is ?start"
  have "\<forall>j. thread_trace env (calls j) (mx_threads ?start j) []"
    by (simp add: mutex_start_def thread_trace_start)
  from run_trace [OF this, of "is"] have new: "bus_sent s = rev (map snd ?posts) @ bus_sent ?start"
    and trace: "\<And>j. thread_trace env (calls j) (mx_threads s j) (packets_by j ?posts)"
    using assms(2) by simp_all
  have "packets_with (te_codec env) eid (packets_by j ?posts) = []" if "j \<noteq> i" for j
    using thread_other_packets [OF assms(1) trace] assms(6) that by simp
  from packets_with_thread [OF this]
  have "packets_with (te_codec env) eid (map snd ?posts) = packets_with (te_codec env) eid (packets_by i ?posts)" .
  moreover have "\<forall>l < length (calls i). l \<noteq> k \<longrightarrow> eid \<notin> fragment_ids (calls i ! l)" using assms(6) by simp
  from thread_event_packets [OF assms(1) trace assms(3,4,5) this assms(7)]
  have "map Some (packets_with (te_codec env) eid (packets_by i ?posts)) = map (packet_of env n) (on_fragments n)" .
  ultimately show ?thesis using new by (intro exI [of _ "map snd ?posts"]) simp
qed

lemma packets_numbered:
  assumes "codec_roundtrips (te_codec env)" and "map Some ps = map (packet_of env n) (on_fragments n)"
  shows "map (\<lambda>p. parse (te_codec env) (snd (snd p))) ps = map Some (numbered_fragments (on_fragments n))"
proof (rule nth_equalityI)
  have len: "length ps = length (on_fragments n)" using assms(2) by (metis length_map)
  then show "length (map (\<lambda>p. parse (te_codec env) (snd (snd p))) ps)
      = length (map Some (numbered_fragments (on_fragments n)))" by (simp add: numbered_fragments_def)
  fix x
  assume "x < length (map (\<lambda>p. parse (te_codec env) (snd (snd p))) ps)"
  then have x: "x < length ps" by simp
  then have "packet_of env n (on_fragments n ! x) = Some (ps ! x)"
    using assms(2) len by (metis nth_map)
  from packet_of_parses [OF assms(1) this] x len
  show "map (\<lambda>p. parse (te_codec env) (snd (snd p))) ps ! x
      = map Some (numbered_fragments (on_fragments n)) ! x"
    by (simp add: numbered_fragments_def)
qed

text \<open>C4 Concurrent senders: any number of threads use one bus at the same time (they send, add and remove
  sinks, and the receiver dispatches), under any schedule, with no sink calling its own bus. When a call
  that sends a notification has returned and no other call sends parts of its event, the packets of the
  event that have left the process are exactly its fragments, in order, although they may be mixed with the
  packets of the other threads. A receiver that gets these packets, once each, in any order, among arbitrary
  other messages, answers them with nothing but the last, and then with the notification of part 0 with the
  data of all parts.\<close>

theorem concurrent_sends_arrive:
  fixes env :: "('sc, 'm, 'd, 'z) thread_env"
  assumes "codec_roundtrips (te_codec env)" and "s = mutex_run env no_uses is (mutex_start st calls)"
    and "k < length (returned (mx_threads s i))" and "calls i ! k = Used (Send n)"
    and "returned (mx_threads s i) ! k = Inr ()"
    and "\<forall>j l. l < length (calls j) \<and> (j, l) \<noteq> (i, k) \<longrightarrow> eid \<notin> fragment_ids (calls j ! l)"
    and "\<forall>f \<in> set (on_fragments n). nt_event_id (fn_notification f) = eid"
    and "is_split (numbered_fragments (on_fragments n))" and "length (on_fragments n) < 2 ^ 32"
    and "bus_sent s = rev new @ bus_sent (mutex_start st calls)"
    and "mset (map getData (event_messages (te_codec env) eid ms))
      = mset (map (\<lambda>p. snd (snd p)) (packets_with (te_codec env) eid new))"
    and "\<forall>f :: 'm fragmented. nt_event_id (fn_notification f) = eid \<longrightarrow> map_of (pool p) (pool_key f) = None"
    and "dh_run (te_codec env) sa dbg ms p = (rs, p')"
  shows "map Some (packets_with (te_codec env) eid new) = map (packet_of env n) (on_fragments n)
    \<and> event_answers (te_codec env) eid ms rs = replicate (length (on_fragments n) - 1) (Inr None)
        @ [incoming_notification sa (join_parts (numbered_fragments (on_fragments n)))]"
proof -
  let ?ca = "te_codec env" and ?frs = "numbered_fragments (on_fragments n)"
  from run_event_packets [OF assms(1-7)] assms(10)
  have packets: "map Some (packets_with ?ca eid new) = map (packet_of env n) (on_fragments n)" by auto
  note parsed = packets_numbered [OF assms(1) packets]
  have ne: "?frs \<noteq> []" using assms(8) by (simp add: is_split_def)
  then have id0: "nt_event_id (fn_notification (?frs ! 0)) = eid"
    using assms(7) by (auto simp: numbered_fragments_def)
  note key = event_messages_key [OF id0]
  have "mset (map (\<lambda>x. message_fragment ?ca (snd x)) (messages_for ?ca (pool_key (?frs ! 0)) ms))
      = mset (map (message_fragment ?ca) (event_messages ?ca eid ms))"
    unfolding key(1) by (simp add: comp_def)
  also have "map (message_fragment ?ca) (event_messages ?ca eid ms)
      = map (parse ?ca) (map getData (event_messages ?ca eid ms))"
    by (simp add: event_messages_parse)
  also have "mset (map (parse ?ca) (map getData (event_messages ?ca eid ms)))
      = image_mset (parse ?ca) (mset (map (\<lambda>p. snd (snd p)) (packets_with ?ca eid new)))"
    using assms(11) by (metis mset_map)
  also have "\<dots> = mset (map Some ?frs)"
    unfolding parsed [symmetric] by (simp add: multiset.map_comp comp_def)
  finally have parts: "mset (map (\<lambda>x. message_fragment ?ca (snd x))
      (messages_for ?ca (pool_key (?frs ! 0)) ms)) = mset (map Some ?frs)" .
  have "map_of (pool p) (pool_key (?frs ! 0)) = None" using assms(12) id0 by blast
  moreover have "length ?frs = length (on_fragments n)" by (simp add: numbered_fragments_def)
  ultimately show ?thesis
    using dh_run_split [OF assms(8) _ _ parts assms(13)] assms(9) packets unfolding key(2) by simp
qed

section \<open>Two senders\<close>

definition two_part_note :: "nat \<Rightarrow> (string, unit) outgoing_notification" where
  "two_part_note e = \<lparr>nf_scope = ''/b'', nf_wireSchema = [], nf_serializedPayload = ''abcd'',
     nf_notification = fn_notification (sample_part e 0 ''ab'' 1), on_qos = FIFO, on_groups = [''/b''],
     on_fragments = [sample_part e 0 ''ab'' 1, sample_part e 1 ''cd'' 1]\<rparr>"

definition two_senders :: "nat \<Rightarrow> (string, unit) bus_call list" where
  "two_senders i = (if i = 0 then [Used (Send (two_part_note 1))]
     else if i = 1 then [Used (Send (two_part_note 2))] else [])"

definition silent_bus :: "(unit, (string \<times> nat) list) bus" where
  "silent_bus = listened_bus\<lparr>scopeDispatcher := []\<rparr>"

definition mixed_turns :: "nat list" where
  "mixed_turns = [0, 1, 0, 1, 0, 1, 0, 1, 0, 0, 0, 0]"

lemma two_senders_run:
  "\<exists>s. mutex_run sample_env no_uses mixed_turns (mutex_start (silent_bus, [], []) two_senders) = s
    \<and> returned (mx_threads s 0) = [Inr ()]
    \<and> map (\<lambda>p. snd (snd p)) (bus_sent s) = map put_fragment [sample_part 2 1 ''cd'' 2, sample_part 1 1 ''cd'' 2,
        sample_part 2 0 ''ab'' 2, sample_part 1 0 ''ab'' 2]"
proof -
  let ?m = "\<lparr>mtype = OTHER, mqos = FIFO, mdata = [], mgroups = [''/b'']\<rparr>"
  have groups: "addGroups (MAX_GROUP_NAME sample_api) [''/b''] (setQOS FIFO message_new) = (Inr (), ?m)"
    by (simp add: sample_api_def addGroup_def message_accessors message_constructors insort_insert_key_def)
  have post: "conn_send sample_api True \<lparr>mtype = OTHER, mqos = FIFO, mdata = d, mgroups = [''/b'']\<rparr> (live_conn, w)
      = (Inr (), (live_conn, SpMulticast 7 0x44 ''/b'' d (int (length d)) # w))" for d w
    by (simp add: conn_send_def sample_api_def send_result_def message_accessors c_str_def Let_def)
  have number: "(sample_part e i d (Suc 0))\<lparr>fn_num_data_parts := 2\<rparr> = sample_part e i d 2" for e i d
    by (simp add: sample_part_def)
  have ser: "serialize sample_codec f = Some (put_fragment f)" for f by (simp add: sample_codec_def)
  show ?thesis
    by (intro exI conjI refl)
      (simp_all add: mixed_turns_def mutex_turn_def mutex_start_def two_senders_def two_part_note_def silent_bus_def
        listened_bus_def sample_env_def groups post number ser setData_def count_dispatcher_def Let_def
        bus_sent_def as_notification_def del: addGroups.simps, simp_all)
qed

theorem concurrent_sends_arrive_witness:
  "event_answers sample_codec (sample_event 1)
     [(0, fragment_message (sample_part 1 1 ''cd'' 2)), (1, fragment_message (sample_part 2 0 ''ab'' 2)),
      (2, fragment_message (sample_part 1 0 ''ab'' 2))]
     (fst (dh_run sample_codec sample_scopes True
       [(0, fragment_message (sample_part 1 1 ''cd'' 2)), (1, fragment_message (sample_part 2 0 ''ab'' 2)),
        (2, fragment_message (sample_part 1 0 ''ab'' 2))] sample_pool))
   = [Inr None, incoming_notification sample_scopes (join_parts two_parts)]"
proof -
  note One_nat_def [simp del]
  let ?ms = "[(0, fragment_message (sample_part 1 1 ''cd'' 2)), (1, fragment_message (sample_part 2 0 ''ab'' 2)),
      (2, fragment_message (sample_part 1 0 ''ab'' 2))]"
  let ?start = "mutex_start (silent_bus, [], []) two_senders"
  obtain s where run: "s = mutex_run sample_env no_uses mixed_turns ?start"
    and came_back: "returned (mx_threads s 0) = [Inr ()]"
    and data: "map (\<lambda>p. snd (snd p)) (bus_sent s) = map put_fragment [sample_part 2 1 ''cd'' 2,
        sample_part 1 1 ''cd'' 2, sample_part 2 0 ''ab'' 2, sample_part 1 0 ''ab'' 2]"
    using two_senders_run by blast
  have codec: "te_codec sample_env = sample_codec" by (simp add: sample_env_def)
  have ev: "nt_event_id (fn_notification (sample_part e i d k)) = sample_event e" for e i d k
    by (simp add: sample_part_def)
  have e12: "sample_event 2 \<noteq> sample_event 1" by (simp add: sample_event_def)
  have carries: "data_of_event sample_codec (sample_event 1) (put_fragment (sample_part e i d k))
      \<longleftrightarrow> sample_event e = sample_event 1" for e i d k
    by (simp add: data_of_event_def sample_codec_def get_put_fragment ev)
  have message: "carries_event sample_codec (sample_event 1) (fragment_message (sample_part e i d k))
      \<longleftrightarrow> sample_event e = sample_event 1" for e i d k
    by (simp add: carries_event_def ev)
  have get_data: "getData (fragment_message f) = put_fragment f" for f
    by (simp add: fragment_message_def getData_def)
  have parts: "on_fragments (two_part_note 1) = [sample_part 1 0 ''ab'' 1, sample_part 1 1 ''cd'' 1]"
    by (simp add: two_part_note_def)
  have numbered: "numbered_fragments [sample_part 1 0 ''ab'' 1, sample_part 1 1 ''cd'' 1] = two_parts"
    by (simp add: numbered_fragments_def two_parts_def sample_part_def)
  have others: "\<forall>j l. l < length (two_senders j) \<and> (j, l) \<noteq> (0, 0) \<longrightarrow> sample_event 1 \<notin> fragment_ids (two_senders j ! l)"
    using e12 by (auto simp: two_senders_def fragment_ids_def two_part_note_def ev)
  have "map (\<lambda>p. snd (snd p)) (packets_with sample_codec (sample_event 1) (rev (bus_sent s)))
      = filter (data_of_event sample_codec (sample_event 1)) (rev (map (\<lambda>p. snd (snd p)) (bus_sent s)))"
    by (simp add: packets_with_def filter_map comp_def rev_map)
  also have "\<dots> = map put_fragment two_parts" unfolding data by (simp add: carries e12 two_parts_def)
  finally have sent_data: "map (\<lambda>p. snd (snd p)) (packets_with sample_codec (sample_event 1) (rev (bus_sent s)))
      = map put_fragment two_parts" .
  have msgs: "mset (map getData (event_messages (te_codec sample_env) (sample_event 1) ?ms))
      = mset (map (\<lambda>p. snd (snd p)) (packets_with (te_codec sample_env) (sample_event 1) (rev (bus_sent s))))"
    unfolding codec sent_data
    by (simp add: event_messages_def message e12 two_parts_def get_data)
  obtain rs p' where handle: "dh_run sample_codec sample_scopes True ?ms sample_pool = (rs, p')" by (metis surj_pair)
  have "event_answers sample_codec (sample_event 1) ?ms rs = [Inr None, incoming_notification sample_scopes (join_parts two_parts)]"
    using concurrent_sends_arrive [of sample_env, unfolded codec, OF sample_codec_roundtrips run _ _ _ others _ _ _ _
        msgs [unfolded codec] _ handle] came_back two_parts_facts(2)
    by (simp add: two_senders_def parts numbered ev bus_sent_def mutex_start_def sample_pool_def
        del: dh_run.simps)
  then show ?thesis unfolding handle by simp
qed

end
