(* ===== verification/ConnectorLife.thy ===== *)
theory ConnectorLife
  imports InConnector
begin

text \<open>
  Activating and deactivating an \<open>InConnector\<close> on a bus: how many references on the group of its
  scope it holds, and what a failing deactivation leaves behind.
\<close>

section \<open>Runs of activations\<close>

datatype ic_op = IcActivate | IcDeactivate

fun ic_step ::
  "('sc \<Rightarrow> nat \<Rightarrow> 'b \<Rightarrow> (unit, 'b) outcome) \<Rightarrow> ('sc \<Rightarrow> nat \<Rightarrow> 'b \<Rightarrow> (unit, 'b) outcome) \<Rightarrow> nat \<Rightarrow> ic_op
     \<Rightarrow> ('sc, 'ev, 'u) in_connector \<times> 'b \<Rightarrow> (unit, ('sc, 'ev, 'u) in_connector \<times> 'b) outcome" where
  "ic_step add_sink remove_sink self IcActivate s = ic_activate add_sink self s"
| "ic_step add_sink remove_sink self IcDeactivate s = ic_deactivate remove_sink self s"

fun ic_run ::
  "('sc \<Rightarrow> nat \<Rightarrow> 'b \<Rightarrow> (unit, 'b) outcome) \<Rightarrow> ('sc \<Rightarrow> nat \<Rightarrow> 'b \<Rightarrow> (unit, 'b) outcome) \<Rightarrow> nat
     \<Rightarrow> ic_op list \<Rightarrow> ('sc, 'ev, 'u) in_connector \<times> 'b
     \<Rightarrow> (exn + unit) list \<times> (('sc, 'ev, 'u) in_connector \<times> 'b)" where
  "ic_run add_sink remove_sink self [] s = ([], s)"
| "ic_run add_sink remove_sink self (op # ops) s =
     (case ic_step add_sink remove_sink self op s of (r, s1) \<Rightarrow>
        (case ic_run add_sink remove_sink self ops s1 of (rs, s2) \<Rightarrow> (r # rs, s2)))"

text \<open>A call that did not throw, or was refused because of the connector's own state.\<close>

fun settled :: "exn + unit \<Rightarrow> bool" where
  "settled (Inr x) = True"
| "settled (Inl (IllegalStateException text)) =
     (text = ''Connector is already active'' \<or> text = ''Connector is not active'')"
| "settled (Inl e) = False"

context sink_registry
begin

definition holds :: "'g multiset \<Rightarrow> ('sc, 'ev, 'u) in_connector \<times> 'b \<Rightarrow> bool" where
  "holds base s \<longleftrightarrow> invar (snd s) \<and> references (snd s)
     = (if ic_active (fst s) then add_mset (group_for (ic_scope (fst s))) base else base)"

lemma ic_step_holds:
  assumes "ic_step add_sink remove_sink self op (ic, b) = (r, (ic', b'))" and "holds base (ic, b)"
    and "op = IcActivate \<Longrightarrow> \<not> ic_active ic \<Longrightarrow> room b" and "op = IcDeactivate \<Longrightarrow> ic_active ic \<Longrightarrow> r = Inr ()"
  shows "holds base (ic', b') \<and> ic_scope ic' = ic_scope ic"
proof (cases op)
  case IcActivate
  show ?thesis
  proof (cases "ic_active ic")
    case True
    with IcActivate assms(1,2) show ?thesis by (auto simp: ic_activate_def base_activate_def)
  next
    case False
    obtain q b1 where add: "add_sink (ic_scope ic) self b = (q, b1)" by (metis surj_pair)
    have inv: "invar b" "references b = base" using assms(2) False by (simp_all add: holds_def)
    show ?thesis
    proof (cases q)
      case (Inl e)
      with add_fail [OF inv(1) assms(3) [OF IcActivate False]] add IcActivate False assms(1) inv(2)
      show ?thesis by (auto simp: ic_activate_def base_activate_def holds_def)
    next
      case (Inr x)
      with add_ok [OF inv(1) assms(3) [OF IcActivate False]] add IcActivate False assms(1) inv(2)
      show ?thesis by (auto simp: ic_activate_def base_activate_def holds_def)
    qed
  qed
next
  case IcDeactivate
  show ?thesis
  proof (cases "ic_active ic")
    case False
    with IcDeactivate assms(1,2) show ?thesis by (auto simp: ic_deactivate_def base_deactivate_def)
  next
    case True
    obtain q b1 where rem: "remove_sink (ic_scope ic) self b = (q, b1)" by (metis surj_pair)
    have inv: "invar b" "references b = add_mset (group_for (ic_scope ic)) base"
      using assms(2) True by (simp_all add: holds_def)
    have "r = Inr ()" by (rule assms(4) [OF IcDeactivate True])
    with rem IcDeactivate True assms(1) have "ic' = ic\<lparr>ic_active := False\<rparr>" "b' = b1"
      by (auto simp: ic_deactivate_def base_deactivate_def split: sum.splits)
    with remove_any [OF inv(1) rem] inv(2) show ?thesis by (simp add: holds_def)
  qed
qed

lemma ic_run_holds:
  assumes "ic_run add_sink remove_sink self ops (ic, b) = (rs, (ic', b'))" and "holds base (ic, b)"
    and "\<And>b. invar b \<Longrightarrow> references b \<subseteq># add_mset (group_for (ic_scope ic)) base \<Longrightarrow> room b"
    and "\<forall>r \<in> set rs. settled r" and "\<And>s b e b1. remove_sink s self b = (Inl e, b1) \<Longrightarrow> \<not> settled (Inl e)"
  shows "holds base (ic', b') \<and> ic_scope ic' = ic_scope ic"
  using assms(1-4)
proof (induction ops arbitrary: ic b rs)
  case Nil
  then show ?case by simp
next
  case (Cons op ops)
  obtain r ic1 b1 where step: "ic_step add_sink remove_sink self op (ic, b) = (r, (ic1, b1))"
    by (metis prod.exhaust)
  obtain rs1 where run: "ic_run add_sink remove_sink self ops (ic1, b1) = (rs1, (ic', b'))"
    and rs: "rs = r # rs1"
    using Cons.prems(1) step by (auto split: prod.splits)
  have "room b" if "\<not> ic_active ic"
    using Cons.prems(2) that by (intro Cons.prems(3)) (simp_all add: holds_def)
  moreover have "r = Inr ()" if deact: "op = IcDeactivate" "ic_active ic"
  proof -
    have "settled r" using Cons.prems(4) rs by simp
    then show ?thesis
      using step deact assms(5)
      by (auto simp: ic_deactivate_def base_deactivate_def split: prod.splits sum.splits)
  qed
  ultimately have "holds base (ic1, b1) \<and> ic_scope ic1 = ic_scope ic"
    using ic_step_holds [OF step Cons.prems(2)] by blast
  then show ?case using Cons.IH [OF run] Cons.prems(3,4) rs by simp
qed

end

section \<open>Connectors on a bus\<close>

lemma bus_removeSink_unsettled:
  assumes "bus_removeSink sa api dbg da scope k st = (Inl e, st')"
  shows "\<not> settled (Inl e)"
proof -
  obtain b w z b' w' z' where st: "st = (b, w, z)" "st' = (b', w', z')" by (metis prod.exhaust)
  obtain gm c where "mm_leave dbg (conn_leave api) (scopeToGroup sa (MAX_GROUP_NAME api) scope)
      (memberships b, (connection b, w)) = (Inl e, (gm, (c, w')))"
    by (rule bus_removeSink_cases [OF assms [unfolded st]])
  then show ?thesis
    by (auto simp: mm_leave_def conn_leave_def Let_def split: option.splits prod.splits if_splits)
qed

text \<open>C32 A connector holds one reference: however often it is activated and deactivated (the calls
  that do not fit its state are refused), as long as the bus does not fail, the bus holds on the
  group of its scope exactly one reference more than before while the connector is active, and none
  more while it is not.\<close>

theorem connector_holds_one_reference:
  assumes "ic_run (bus_addSink sa api da) (bus_removeSink sa api dbg da) self ops (ic, st)
      = (rs, (ic', st'))"
    and "\<not> ic_active ic" and "mm_inv (memberships (fst st))"
    and "Suc (size (mm_abs (memberships (fst st)))) < max_refs" and "\<forall>r \<in> set rs. settled r"
  shows "mm_abs (memberships (fst st')) =
    (if ic_active ic'
     then add_mset (scopeToGroup sa (MAX_GROUP_NAME api) (ic_scope ic)) (mm_abs (memberships (fst st)))
     else mm_abs (memberships (fst st)))"
proof -
  let ?base = "mm_abs (memberships (fst st))"
  have "registry.holds sa api ?base (ic', st') \<and> ic_scope ic' = ic_scope ic"
  proof (rule registry.ic_run_holds [OF assms(1)])
    show "registry.holds sa api ?base (ic, st)"
      using assms(2,3) by (simp add: registry.holds_def)
    show "size (mm_abs (memberships (fst b))) < max_refs"
      if "mm_inv (memberships (fst b))" and "mm_abs (memberships (fst b))
        \<subseteq># add_mset (scopeToGroup sa (MAX_GROUP_NAME api) (ic_scope ic)) ?base" for b
      using size_mset_mono [OF that(2)] assms(4) by simp
    show "\<forall>r \<in> set rs. settled r" by (rule assms(5))
    show "\<not> settled (Inl e)" if "bus_removeSink sa api dbg da s self b = (Inl e, b1)" for s b e b1
      by (rule bus_removeSink_unsettled [OF that])
  qed
  then show ?thesis by (simp add: registry.holds_def split: if_splits)
qed

definition idle_bus :: "(unit, (string \<times> nat) list) bus" where
  "idle_bus = \<lparr>bus_active = True, connection = open_conn, memberships = [], receiver = None,
     scopeDispatcher = []\<rparr>"

theorem connector_holds_one_reference_witness:
  "\<exists>rs ic' st'. ic_run (bus_addSink sample_scopes sample_api count_dispatcher)
      (bus_removeSink sample_scopes sample_api True count_dispatcher) 1
      [IcActivate, IcActivate, IcDeactivate, IcActivate]
      (sample_in_connector, (idle_bus, [], ())) = (rs, (ic', st'))
    \<and> ic_active ic' \<and> mm_abs (memberships (fst st')) = {#''/''#}"
proof -
  obtain rs ic' st' where run: "ic_run (bus_addSink sample_scopes sample_api count_dispatcher)
      (bus_removeSink sample_scopes sample_api True count_dispatcher) 1
      [IcActivate, IcActivate, IcDeactivate, IcActivate]
      (sample_in_connector, (idle_bus, [], ())) = (rs, (ic', st'))"
    by (metis prod.exhaust)
  have ic: "\<not> ic_active sample_in_connector" "ic_scope sample_in_connector = ''/''"
    by (simp_all add: sample_in_connector_def ic_new_def)
  have b: "mm_inv (memberships (fst (idle_bus, [], ())))"
    "Suc (size (mm_abs (memberships (fst (idle_bus, [], ()))))) < max_refs"
    by (simp_all add: idle_bus_def max_refs_def)
  have "(\<forall>r \<in> set rs. settled r) \<and> ic_active ic'"
    using run ic by (auto simp: ic_activate_def ic_deactivate_def base_activate_def base_deactivate_def
        bus_addSink_def bus_removeSink_def mm_join_def mm_leave_def conn_join_def conn_leave_def
        idle_bus_def open_conn_def conn_new_def sample_api_def Let_def)
  then show ?thesis
    using connector_holds_one_reference [OF run ic(1) b] run ic(2)
    by (auto simp: idle_bus_def scopeToGroup_def sample_scopes_def sample_api_def)
qed

text \<open>C35 A failing deactivation makes the destructor crash: when the connector is the only user of
  its group and the library refuses to leave it (the connection to the daemon was lost, say),
  \<open>deactivate\<close> throws and the connector stays active although its reference is gone. Its
  destructor then deactivates it again, and the second \<open>leave\<close> fails the assertion in debug builds
  and dereferences the end iterator of the reference counts in release builds.\<close>

theorem failed_deactivation_breaks_destructor:
  assumes "ic_active ic" and "g = scopeToGroup sa (MAX_GROUP_NAME api) (ic_scope ic)"
    and "mm_inv (memberships b)" and "count (mm_abs (memberships b)) g = 1"
    and "connected (connection b)" and "SP_leave api w (mailbox (connection b)) (c_str g) \<noteq> 0"
  shows "\<exists>text st1. ic_deactivate (bus_removeSink sa api dbg da) self (ic, (b, w, z))
        = (Inl (CommException text), (ic, st1))
    \<and> fst (ic_destroy (bus_removeSink sa api dbg da) self (ic, st1))
        = Inl (if dbg then AssertionFailure else UndefinedBehaviour)"
proof -
  obtain n where n: "map_of (memberships b) g = Some n" and "unat n = 1"
    using assms(3,4) by (auto simp: count_mm_abs mm_inv_def split: option.splits)
  then have n1: "n = 1" by (metis unat_1 word_unat_eq_iff)
  have "map_of (AList.delete g (memberships b)) g = None" by (simp add: sm.find_erase)
  with n n1 assms(1,5,6) show ?thesis
    unfolding assms(2)
    by (simp add: ic_destroy_def ic_deactivate_def base_deactivate_def bus_removeSink_def
        mm_leave_def conn_leave_def Let_def)
qed

theorem failed_deactivation_breaks_destructor_witness:
  "\<exists>text st1. ic_deactivate (bus_removeSink sample_scopes (sample_api\<lparr>SP_leave := (\<lambda>w m g. -8)\<rparr>)
        False count_dispatcher) 1 (sample_in_connector\<lparr>ic_active := True\<rparr>,
          (idle_bus\<lparr>memberships := [(''/'', 1)]\<rparr>, [SpJoin 7 ''/'' 0], ()))
      = (Inl (CommException text), (sample_in_connector\<lparr>ic_active := True\<rparr>, st1))
    \<and> fst (ic_destroy (bus_removeSink sample_scopes (sample_api\<lparr>SP_leave := (\<lambda>w m g. -8)\<rparr>)
        False count_dispatcher) 1 (sample_in_connector\<lparr>ic_active := True\<rparr>, st1))
      = Inl UndefinedBehaviour"
proof -
  let ?ic = "sample_in_connector\<lparr>ic_active := True\<rparr>"
  let ?api = "sample_api\<lparr>SP_leave := (\<lambda>w m g. -8)\<rparr>"
  let ?b = "idle_bus\<lparr>memberships := [(''/'', 1)]\<rparr>"
  have ic: "ic_active ?ic" by simp
  have g: "''/'' = scopeToGroup sample_scopes (MAX_GROUP_NAME ?api) (ic_scope ?ic)"
    by (simp add: sample_in_connector_def ic_new_def scopeToGroup_def sample_scopes_def sample_api_def)
  have b: "mm_inv (memberships ?b)" "count (mm_abs (memberships ?b)) ''/'' = 1" "connected (connection ?b)"
    by (simp_all add: mm_inv_def idle_bus_def open_conn_def)
  have leave: "SP_leave ?api [SpJoin 7 ''/'' 0] (mailbox (connection ?b)) (c_str ''/'') \<noteq> 0" by simp
  from failed_deactivation_breaks_destructor [OF ic g b leave, of False count_dispatcher 1 "()"]
  show ?thesis by (simp only: if_False)
qed

end
