(* ===== verification/ThreadRounds.thy ===== *)
theory ThreadRounds
  imports Shutdown
begin

text \<open>
  The turns of the threads make up the calls they are taken from: undisturbed turns of the receiver
  are an execution of \<open>ReceiverTask\<close>.
\<close>

section \<open>Undisturbed turns\<close>

definition reaches ::
  "('sc, 'm, 'd, 'z) thread_env \<Rightarrow> int \<Rightarrow> nat \<Rightarrow> ('sc, 'm, 'd, 'z) threads
     \<Rightarrow> ('sc, 'm, 'd, 'z) threads \<Rightarrow> bool" where
  "reaches env now n s s' \<longleftrightarrow> (\<exists>k \<le> n. thread_run env (replicate k (Receiver now)) s = s')"

lemma reaches_refl: "reaches env now n s s"
  unfolding reaches_def by (intro exI [of _ 0]) simp

lemma reaches_turn:
  assumes "reaches env now n (receiver_turn env now s) s'"
    and "th_destructor s = None" and "\<not> has_died (th_receiver s)" and "\<not> in_destructor (th_receiver s)"
  shows "reaches env now (Suc n) s s'"
proof -
  obtain k where k: "k \<le> n" "thread_run env (replicate k (Receiver now)) (receiver_turn env now s) = s'"
    using assms(1) by (auto simp: reaches_def)
  have "\<not> process_over (th_receiver s) (th_destructor s)"
    using assms(2-4) by (cases "th_receiver s") simp_all
  then have "thread_run env (replicate (Suc k) (Receiver now)) s = s'"
    using k(2) by (simp add: thread_step_def)
  with k(1) show ?thesis unfolding reaches_def by (intro exI [of _ "Suc k"]) simp
qed

lemma reaches_mono: "reaches env now m s s' \<Longrightarrow> m \<le> n \<Longrightarrow> reaches env now n s s'"
  unfolding reaches_def using le_trans by blast

section \<open>The parts of a round\<close>

text \<open>A call of the handler while the bus has owners.\<close>

lemma callback_turns:
  assumes "th_receiver s = Calling cb" and "0 < th_owners s" and "th_destructor s = None"
    and "call_bus (te_dispatcher env) (te_sinks env) (scopeDispatcher (th_bus s)) cb (th_sinks s) = (q, z)"
    and "s1 = s\<lparr>th_sinks := z\<rparr>"
    and "reaches env now n (case q of
        Inl ex \<Rightarrow> if is_fault ex then s1\<lparr>th_receiver := Died ex\<rparr>
                  else after_callback (te_is_comm env) cb (Some ex) s1
      | Inr _ \<Rightarrow> after_callback (te_is_comm env) cb None s1) s'"
  shows "reaches env now (3 + n) s s'"
proof -
  let ?out = "case q of Inl ex \<Rightarrow> if is_fault ex then Died ex else Leaving cb (Some ex)
    | Inr _ \<Rightarrow> Leaving cb None"
  have call: "receiver_turn env now s = s\<lparr>th_receiver := InBus cb\<rparr>"
    using assms(1,2) by (simp add: receiver_turn_def)
  have bus: "receiver_turn env now (s\<lparr>th_receiver := InBus cb\<rparr>) = s1\<lparr>th_receiver := ?out\<rparr>"
    using assms(4,5) by (simp add: receiver_turn_def)
  have after: "after_callback (te_is_comm env) cb r (s1\<lparr>th_receiver := Leaving cb r\<rparr>)
      = after_callback (te_is_comm env) cb r s1" for r
    by (cases cb; cases r) simp_all
  have last: "reaches env now (Suc n) (s1\<lparr>th_receiver := ?out\<rparr>) s'"
  proof (cases "\<exists>ex. q = Inl ex \<and> is_fault ex")
    case True
    with assms(6) show ?thesis by (auto intro: reaches_mono)
  next
    case False
    then have turn: "receiver_turn env now (s1\<lparr>th_receiver := ?out\<rparr>) = (case q of
        Inl ex \<Rightarrow> after_callback (te_is_comm env) cb (Some ex) s1
      | Inr _ \<Rightarrow> after_callback (te_is_comm env) cb None s1)"
      using assms(2,5) after by (auto simp: receiver_turn_def split: sum.split)
    have "reaches env now n (receiver_turn env now (s1\<lparr>th_receiver := ?out\<rparr>)) s'"
      using assms(6) False unfolding turn by (auto split: sum.splits)
    then show ?thesis
      by (rule reaches_turn) (use assms(3,5) False in \<open>auto split: sum.split\<close>)
  qed
  have "reaches env now (Suc (Suc n)) (s\<lparr>th_receiver := InBus cb\<rparr>) s'"
    by (rule reaches_turn) (use last bus assms(3) in simp_all)
  then have "reaches env now (Suc (Suc (Suc n))) s s'"
    by (intro reaches_turn [of env now _ s]) (use call assms(1,3) in simp_all)
  then show ?thesis by (simp add: eval_nat_numeral)
qed

text \<open>The state a round ends in.\<close>

definition round_end ::
  "(unit, ('m, 'z) receiver_state) outcome \<Rightarrow> ('sc, 'm, 'd, 'z) threads \<Rightarrow> ('sc, 'm, 'd, 'z) threads" where
  "round_end res s = (case res of (r, (t, (c, w), z)) \<Rightarrow>
     s\<lparr>th_bus := (th_bus s)\<lparr>connection := c, receiver := Some t\<rparr>, th_calls := w, th_sinks := z,
       th_receiver := (case r of Inl ex \<Rightarrow> Died ex | Inr _ \<Rightarrow> Testing)\<rparr>)"

abbreviation live_handler ::
  "('sc, 'm, 'd, 'z) thread_env \<Rightarrow> ('sc, 'm, 'd, 'z) threads \<Rightarrow> ('sc, 'm, 'z) handler_ops" where
  "live_handler env s \<equiv> weak_handler (te_dispatcher env) (te_sinks env) (Some (scopeDispatcher (th_bus s)))"

text \<open>The \<open>catch\<close> clauses.\<close>

lemma catch_turns:
  assumes "receiver (th_bus s) = Some t" and "0 < th_owners s" and "th_destructor s = None"
    and "th_receiver s = caught (te_is_comm env) ex"
    and "rt_catch (te_is_comm env) (live_handler env s) ex (t, (connection (th_bus s), th_calls s), th_sinks s)
      = res"
  shows "reaches env now 3 s (round_end res s)"
proof (cases "te_is_comm env ex")
  case False
  have "s\<lparr>th_bus := (th_bus s)\<lparr>connection := connection (th_bus s), receiver := Some t\<rparr>\<rparr> = s"
    using assms(1) by (cases s; cases "th_bus s") simp
  then have "round_end res s = s"
    using False assms(1,4,5) by (cases s; cases "th_bus s")
      (auto simp: round_end_def rt_catch_def caught_def split: if_splits)
  then show ?thesis by (simp add: reaches_refl)
next
  case True
  let ?so = "te_sinks env" and ?da = "te_dispatcher env" and ?d = "scopeDispatcher (th_bus s)"
  obtain q z where q: "bus_handleError ?da ?so ?d ex (th_sinks s) = (q, z)" by (metis surj_pair)
  have res: "res = (case q of
      Inl ex' \<Rightarrow> (Inl ex', (t, (connection (th_bus s), th_calls s), z))
    | Inr _ \<Rightarrow> (Inr (), (rt_cancel t, (connection (th_bus s), th_calls s), z)))"
    using True q assms(5) by (auto simp: rt_catch_def weak_handler_def split: sum.splits)
  have at: "th_receiver s = Calling (Report ex)" using True assms(4) by (simp add: caught_def)
  have "reaches env now (3 + 0) s (round_end res s)"
  proof (rule callback_turns [OF at assms(2,3), where q = q and z = z])
    have "(case q of
        Inl ex' \<Rightarrow> if is_fault ex' then s\<lparr>th_sinks := z, th_receiver := Died ex'\<rparr>
                   else after_callback (te_is_comm env) (Report ex) (Some ex') (s\<lparr>th_sinks := z\<rparr>)
      | Inr _ \<Rightarrow> after_callback (te_is_comm env) (Report ex) None (s\<lparr>th_sinks := z\<rparr>)) = round_end res s"
      using assms(1) unfolding res
      by (cases s; cases "th_bus s"; cases q) (auto simp: round_end_def cancel_task_def)
    then show "reaches env now 0 (case q of
        Inl ex' \<Rightarrow> if is_fault ex' then (s\<lparr>th_sinks := z\<rparr>)\<lparr>th_receiver := Died ex'\<rparr>
                   else after_callback (te_is_comm env) (Report ex) (Some ex') (s\<lparr>th_sinks := z\<rparr>)
      | Inr _ \<Rightarrow> after_callback (te_is_comm env) (Report ex) None (s\<lparr>th_sinks := z\<rparr>)) (round_end res s)"
      by (simp add: reaches_refl)
  qed (use q in simp_all)
  then show ?thesis by simp
qed

section \<open>A round is an execution\<close>

lemma round_end_frame [simp]:
  "round_end res (s\<lparr>th_receiver := r\<rparr>) = round_end res s"
  "round_end res (s\<lparr>th_sinks := z\<rparr>) = round_end res s"
  "round_end res (s\<lparr>th_bus := b, th_receiver := r\<rparr>) = round_end res (s\<lparr>th_bus := b\<rparr>)"
  by (simp_all add: round_end_def split: prod.split)

lemma rt_execute_received:
  assumes "conn_receive api dbg message_new (c, w) = (Inr (), (m, (c, w')))"
  shows "rt_execute ca sa api dbg is_comm h now (t, (c, w), z) =
     (case handleMessage ca sa dbg now m (messageHandler t) of
        (Inl ex, p) \<Rightarrow> rt_catch is_comm h ex (t\<lparr>messageHandler := p\<rparr>, (c, w'), z)
      | (Inr None, p) \<Rightarrow> (Inr (), (t\<lparr>messageHandler := p\<rparr>, (c, w'), z))
      | (Inr (Some n), p) \<Rightarrow>
          (case h_handleIncomingNotification h n z of
             (Inl ex, z') \<Rightarrow> rt_catch is_comm h ex (t\<lparr>messageHandler := p\<rparr>, (c, w'), z')
           | (Inr _, z') \<Rightarrow> (Inr (), (t\<lparr>messageHandler := p\<rparr>, (c, w'), z'))))"
  using assms by (simp add: rt_execute_def)

text \<open>What follows a message: it is handled, and a complete notification is handed to the sinks.\<close>

lemma handle_turns:
  fixes s :: "('sc, 'm, 'd, 'z) threads"
  assumes "receiver (th_bus s) = Some t" and "0 < th_owners s" and "th_destructor s = None"
    and "th_receiver s = Handling m" and "comm_clause (te_is_comm env)"
    and "conn_receive api (te_debug env) message_new (connection (th_bus s), w)
      = (Inr (), (m, (connection (th_bus s), th_calls s)))"
  shows "reaches env now 7 s (round_end (rt_execute (te_codec env) (te_scopes env) api (te_debug env)
      (te_is_comm env) (live_handler env s) now (t, (connection (th_bus s), w), th_sinks s)) s)"
proof -
  let ?so = "te_sinks env" and ?da = "te_dispatcher env" and ?d = "scopeDispatcher (th_bus s)"
  let ?c = "connection (th_bus s)"
  obtain r p where h: "handleMessage (te_codec env) (te_scopes env) (te_debug env) now m
      (messageHandler t) = (r, p)" by (metis surj_pair)
  let ?t = "t\<lparr>messageHandler := p\<rparr>"
  let ?b = "(th_bus s)\<lparr>receiver := Some ?t\<rparr>"
  let ?s = "s\<lparr>th_bus := ?b\<rparr>"
  let ?res = "rt_execute (te_codec env) (te_scopes env) api (te_debug env) (te_is_comm env)
    (live_handler env s) now (t, (?c, w), th_sinks s)"
  note exe = rt_execute_received [OF assms(6), of "te_codec env" "te_scopes env" "te_is_comm env"
      "live_handler env s" now t "th_sinks s", unfolded h prod.case]
  have same: "round_end res s = round_end res ?s" for res :: "(unit, ('m, 'z) receiver_state) outcome"
    by (simp add: round_end_def split: prod.split)
  have turn: "receiver_turn env now s = ?s\<lparr>th_receiver := (case r of
      Inl ex \<Rightarrow> caught (te_is_comm env) ex | Inr None \<Rightarrow> Testing | Inr (Some n) \<Rightarrow> Calling (Notify n))\<rparr>"
    using assms(1,4) h by (simp add: receiver_turn_def handle_turn_def)
  have catch: "reaches env now 3 (?s\<lparr>th_sinks := z, th_receiver := caught (te_is_comm env) ex\<rparr>)
      (round_end (rt_catch (te_is_comm env) (live_handler env s) ex (?t, (?c, th_calls s), z)) ?s)" for ex z
    using catch_turns [of "?s\<lparr>th_sinks := z, th_receiver := caught (te_is_comm env) ex\<rparr>" ?t env ex _ now]
      assms(2,3) by simp
  have "reaches env now 6 (receiver_turn env now s) (round_end ?res s)"
  proof (cases r)
    case (Inl ex)
    then show ?thesis using catch [of ex "th_sinks s"] unfolding turn exe same
      by (auto intro: reaches_mono)
  next
    case (Inr x)
    show ?thesis
    proof (cases x)
      case None
      then show ?thesis using Inr unfolding turn exe same
        by (auto simp: round_end_def intro: reaches_refl)
    next
      case (Some n)
      obtain q z where q: "bus_handleIncoming ?da ?so ?d n (th_sinks s) = (q, z)" by (metis surj_pair)
      have "reaches env now (3 + 3) (?s\<lparr>th_receiver := Calling (Notify n)\<rparr>) (round_end ?res s)"
      proof (rule callback_turns [where q = q and z = z, OF _ _ _ _ refl])
        show "reaches env now 3 (case q of
            Inl ex \<Rightarrow> if is_fault ex then (?s\<lparr>th_receiver := Calling (Notify n), th_sinks := z\<rparr>)
                \<lparr>th_receiver := Died ex\<rparr>
              else after_callback (te_is_comm env) (Notify n) (Some ex)
                (?s\<lparr>th_receiver := Calling (Notify n), th_sinks := z\<rparr>)
          | Inr _ \<Rightarrow> after_callback (te_is_comm env) (Notify n) None
              (?s\<lparr>th_receiver := Calling (Notify n), th_sinks := z\<rparr>)) (round_end ?res s)"
        proof (cases q)
          case (Inl ex)
          have "caught (te_is_comm env) ex = (Died ex :: ('sc, 'm) receiver_at)" if "is_fault ex"
            using that assms(5) by (auto simp: caught_def is_fault_def comm_clause_def)
          then have "(if is_fault ex then (?s\<lparr>th_receiver := Calling (Notify n), th_sinks := z\<rparr>)
                \<lparr>th_receiver := Died ex\<rparr>
              else after_callback (te_is_comm env) (Notify n) (Some ex)
                (?s\<lparr>th_receiver := Calling (Notify n), th_sinks := z\<rparr>))
            = ?s\<lparr>th_sinks := z, th_receiver := caught (te_is_comm env) ex\<rparr>"
            by (cases "is_fault ex") simp_all
          moreover have "?res = rt_catch (te_is_comm env) (live_handler env s) ex
              (?t, (?c, th_calls s), z)"
            using Inl \<open>r = Inr x\<close> Some q unfolding exe by (simp add: weak_handler_def)
          ultimately show ?thesis using catch [of ex z] Inl unfolding same by simp
        next
          case (Inr y)
          then show ?thesis using \<open>r = Inr x\<close> Some q unfolding exe same
            by (auto simp: weak_handler_def round_end_def intro: reaches_refl)
        qed
      qed (use assms(2,3) q in simp_all)
      then show ?thesis unfolding turn using Inr Some by simp
    qed
  qed
  then show ?thesis
    using reaches_turn [of env now 6 s] assms(3,4) by simp
qed

text \<open>C16 The turns the receiver takes between two tests of its flag are one execution of
  \<open>ReceiverTask::execute\<close>: when no other thread interferes while the bus has owners, at most eight
  turns lead from the call of \<open>receive\<close> to exactly the state \<open>execute\<close> leaves behind for the message that
  was waiting, on every path (no notification, a notification, a caught \<open>CommException\<close>, an
  interruption, an exception that leaves the task).\<close>

theorem receiver_turns_are_execute:
  assumes "th_receiver s = Receiving" and "th_inbox s = rc # rest" and "receiver (th_bus s) = Some t"
    and "connected (connection (th_bus s))" and "0 < th_owners s" and "th_destructor s = None"
    and "comm_clause (te_is_comm env)"
    and "rt_execute (te_codec env) (te_scopes env) ((te_spread env)\<lparr>SP_receive := (\<lambda>w m. rc)\<rparr>)
        (te_debug env) (te_is_comm env) (live_handler env s) now
        (t, (connection (th_bus s), th_calls s), th_sinks s) = (r, (t', (c', w'), z'))"
  shows "\<exists>k \<le> 8. thread_run env (replicate k (Receiver now)) s
    = s\<lparr>th_bus := (th_bus s)\<lparr>connection := c', receiver := Some t'\<rparr>, th_calls := w', th_sinks := z',
        th_inbox := rest, th_receiver := (case r of Inl ex \<Rightarrow> Died ex | Inr _ \<Rightarrow> Testing)\<rparr>"
proof -
  let ?api = "(te_spread env)\<lparr>SP_receive := (\<lambda>w m. rc)\<rparr>" and ?c = "connection (th_bus s)"
  obtain q m c w where recv1: "conn_receive ?api (te_debug env) message_new (?c, th_calls s)
      = (q, (m, (c, w)))" by (metis prod.exhaust)
  then have recv0: "conn_receive ?api (te_debug env) message_new (?c, th_calls s) = (q, (m, (?c, w)))"
    using conn_receive_frame [OF recv1] by simp
  let ?s = "s\<lparr>th_calls := w, th_inbox := rest\<rparr>"
  have bus: "(th_bus s)\<lparr>connection := ?c\<rparr> = th_bus s" by simp
  have turn: "receiver_turn env now s = ?s\<lparr>th_receiver := (case q of
      Inl ex \<Rightarrow> caught (te_is_comm env) ex | Inr _ \<Rightarrow> Handling m)\<rparr>"
    using assms(1,2,4) recv0 by (simp add: receiver_turn_def receive_turn_def Let_def)
  have "reaches env now 7 (receiver_turn env now s) (round_end (r, (t', (c', w'), z')) ?s)"
  proof (cases q)
    case (Inl ex)
    have "rt_catch (te_is_comm env) (live_handler env s) ex (t, (?c, w), th_sinks s) = (r, (t', (c', w'), z'))"
      using assms(8) recv0 Inl by (simp add: rt_execute_def)
    then have "reaches env now 3 (?s\<lparr>th_receiver := caught (te_is_comm env) ex\<rparr>)
        (round_end (r, (t', (c', w'), z')) (?s\<lparr>th_receiver := caught (te_is_comm env) ex\<rparr>))"
      by (intro catch_turns) (use assms(3,5,6) in simp_all)
    then show ?thesis unfolding turn using Inl by (auto intro: reaches_mono)
  next
    case (Inr x)
    have "reaches env now 7 (?s\<lparr>th_receiver := Handling m\<rparr>) (round_end (rt_execute (te_codec env)
        (te_scopes env) ?api (te_debug env) (te_is_comm env) (live_handler env (?s\<lparr>th_receiver := Handling m\<rparr>))
        now (t, (connection (th_bus (?s\<lparr>th_receiver := Handling m\<rparr>)), th_calls s),
          th_sinks (?s\<lparr>th_receiver := Handling m\<rparr>))) (?s\<lparr>th_receiver := Handling m\<rparr>))"
      by (rule handle_turns) (use assms(3,5,6,7) recv0 Inr in simp_all)
    then show ?thesis unfolding turn using Inr assms(8) by simp
  qed
  then have "reaches env now (Suc 7) s (round_end (r, (t', (c', w'), z')) ?s)"
    by (rule reaches_turn) (use assms(1,6) in simp_all)
  moreover have "round_end (r, (t', (c', w'), z')) ?s
    = s\<lparr>th_bus := (th_bus s)\<lparr>connection := c', receiver := Some t'\<rparr>, th_calls := w', th_sinks := z',
        th_inbox := rest, th_receiver := (case r of Inl ex \<Rightarrow> Died ex | Inr _ \<Rightarrow> Testing)\<rparr>"
    by (simp add: round_end_def)
  ultimately show ?thesis by (simp add: reaches_def)
qed

section \<open>A concrete round\<close>

text \<open>The message, and what \<open>execute\<close> makes of it.\<close>

theorem receiver_turns_are_execute_witness:
  "\<exists>s0 s k. threads_start sample_env sample_conn [] [] = Inr s0
    \<and> s = thread_run sample_env [Receiver 0, Daemon single_message] s0
    \<and> k \<le> 8 \<and> th_receiver (thread_run sample_env (replicate k (Receiver 1)) s) = Testing
    \<and> th_inbox (thread_run sample_env (replicate k (Receiver 1)) s) = []"
proof -
  obtain t s0 where start: "threads_start sample_env sample_conn [] [] = Inr s0"
    and s0: "s0 = \<lparr>th_bus = sample_bus t, th_calls = [sample_connect], th_sinks = [], th_inbox = [],
      th_posted = 0, th_owners = 1, th_receiver = Testing, th_destructor = None\<rparr>"
    and t: "\<not> taskCancelled t"
    using sample_start by blast
  let ?s = "thread_run sample_env [Receiver 0, Daemon single_message] s0"
  have s: "?s = s0\<lparr>th_receiver := Receiving, th_inbox := [single_message]\<rparr>"
    using t by (simp add: s0 thread_eval)
  have comm: "comm_clause (te_is_comm sample_env)"
    by (auto simp: comm_clause_def sample_env_def split: exn.splits)
  obtain t' c' w' z' where exe: "rt_execute (te_codec sample_env) (te_scopes sample_env)
      ((te_spread sample_env)\<lparr>SP_receive := (\<lambda>w m. single_message)\<rparr>) (te_debug sample_env)
      (te_is_comm sample_env) (live_handler sample_env ?s) 1
      (t, (connection (th_bus ?s), th_calls ?s), th_sinks ?s) = (Inr (), (t', (c', w'), z'))"
    unfolding s by (simp add: s0 thread_eval single_message_def sample_message_def sample_env_def
      sample_api_def sample_codec_def sample_scopes_def handleMessage_def message_accessors
      message_constructors get_put_fragment maybeJoinFragments_def sample_defs addGroup_def
      SPREAD_MAX_GROUPS_def rt_execute_def weak_handler_def bus_handleIncoming_def count_dispatcher_def
      noting_sinks_def)
  have at: "th_receiver ?s = Receiving" "th_inbox ?s = [single_message]" "receiver (th_bus ?s) = Some t"
    "connected (connection (th_bus ?s))" "0 < th_owners ?s" "th_destructor ?s = None"
    unfolding s by (simp_all add: s0 sample_bus_def)
  from receiver_turns_are_execute [OF at comm exe] obtain k where k: "k \<le> 8"
    and run: "thread_run sample_env (replicate k (Receiver 1)) ?s
      = ?s\<lparr>th_bus := (th_bus ?s)\<lparr>connection := c', receiver := Some t'\<rparr>, th_calls := w', th_sinks := z',
          th_inbox := [], th_receiver := Testing\<rparr>"
    by auto
  have "th_receiver (thread_run sample_env (replicate k (Receiver 1)) ?s) = Testing"
    "th_inbox (thread_run sample_env (replicate k (Receiver 1)) ?s) = []"
    unfolding run by simp_all
  with start k show ?thesis by blast
qed

end
