(* ===== verification/SharedCache.thy ===== *)
theory SharedCache
  imports GroupNameCache
begin

text \<open>
  \<open>GroupNameCache\<close> with several threads, as when one \<open>OutConnector\<close> is used by several of them.
  \<open>scopeToGroups\<close> runs under an upgrade lock, which one thread at a time can hold, but what it returns
  is a reference to the vector inside the cache. \<open>OutConnector::handle\<close> copies the vector after the
  lock is released. Vectors have addresses here: the nodes of a \<open>std::map\<close> stay where they are until
  they are erased, and \<open>clear\<close> frees them all.
\<close>

section \<open>The code\<close>

record 'sc shared_cache =
  sc_index :: "('sc \<times> nat) list"
  sc_vectors :: "nat \<Rightarrow> string list option"
  sc_next :: nat

definition shared_new :: "'sc shared_cache" where
  "shared_new = \<lparr>sc_index = [], sc_vectors = (\<lambda>a. None), sc_next = 0\<rparr>"

definition shared_clear :: "'sc shared_cache \<Rightarrow> 'sc shared_cache" where
  "shared_clear s = s\<lparr>sc_index := [], sc_vectors := (\<lambda>a. None)\<rparr>"

text \<open>What \<open>scopeToGroups\<close> does under the lock, with the address of the vector it refers to.\<close>

definition shared_insert ::
  "'sc scope_api \<Rightarrow> nat \<Rightarrow> 'sc \<Rightarrow> 'sc shared_cache \<Rightarrow> nat \<times> 'sc shared_cache" where
  "shared_insert sa maxg scope s = (let a = sc_next s in
     (a, s\<lparr>sc_index := AList.update scope a (sc_index s),
        sc_vectors := (sc_vectors s)(a := Some (push_groups sa maxg (superScopes sa scope) [])),
        sc_next := Suc a\<rparr>))"

definition shared_scopeToGroups ::
  "'sc scope_api \<Rightarrow> nat \<Rightarrow> 'sc \<Rightarrow> 'sc shared_cache \<Rightarrow> nat \<times> 'sc shared_cache" where
  "shared_scopeToGroups sa maxg scope s =
     (case map_of (sc_index s) scope of
        Some a \<Rightarrow> (a, s)
      | None \<Rightarrow>
          shared_insert sa maxg scope (if length (sc_index s) > 300 then shared_clear s else s))"

text \<open>
  A thread with the scopes it still has to look up, the reference it holds, and the groups it has
  copied. \<open>dangling\<close>: it has read through a reference to a vector that is gone.
\<close>

record 'sc reader =
  wanted :: "'sc list"
  holding :: "('sc \<times> nat) option"
  copies :: "string list list"
  dangling :: bool

type_synonym 'sc readers = "'sc shared_cache \<times> (nat \<Rightarrow> 'sc reader)"

text \<open>\<open>notification->groups = groupNameCache.scopeToGroups(...)\<close>: the call, then the copy.\<close>

definition reader_turn :: "'sc scope_api \<Rightarrow> nat \<Rightarrow> nat \<Rightarrow> 'sc readers \<Rightarrow> 'sc readers" where
  "reader_turn sa maxg i st = (case st of (s, rs) \<Rightarrow>
     let r = rs i in
     if dangling r then (s, rs)
     else case holding r of
       Some (scope, a) \<Rightarrow>
         (case sc_vectors s a of
            None \<Rightarrow> (s, rs(i := r\<lparr>dangling := True\<rparr>))
          | Some gs \<Rightarrow> (s, rs(i := r\<lparr>holding := None, copies := copies r @ [gs]\<rparr>)))
     | None \<Rightarrow>
         (case wanted r of
            [] \<Rightarrow> (s, rs)
          | scope # scopes \<Rightarrow>
              (case shared_scopeToGroups sa maxg scope s of
                 (a, s') \<Rightarrow> (s', rs(i := r\<lparr>wanted := scopes, holding := Some (scope, a)\<rparr>)))))"

fun readers_run :: "'sc scope_api \<Rightarrow> nat \<Rightarrow> nat list \<Rightarrow> 'sc readers \<Rightarrow> 'sc readers" where
  "readers_run sa maxg [] st = st"
| "readers_run sa maxg (i # is) st = readers_run sa maxg is (reader_turn sa maxg i st)"

definition readers_start :: "(nat \<Rightarrow> 'sc list) \<Rightarrow> 'sc readers" where
  "readers_start ws = (shared_new, \<lambda>i. \<lparr>wanted = ws i, holding = None, copies = [], dangling = False\<rparr>)"

lemma readers_run_append:
  "readers_run sa maxg (as @ bs) st = readers_run sa maxg bs (readers_run sa maxg as st)"
  by (induction as arbitrary: st) simp_all

section \<open>The sequential cache\<close>

text \<open>Every vector in the index is alive and holds the groups of its scope.\<close>

definition shared_inv :: "'sc scope_api \<Rightarrow> nat \<Rightarrow> 'sc shared_cache \<Rightarrow> bool" where
  "shared_inv sa maxg s \<longleftrightarrow> distinct_keys (sc_index s)
     \<and> (\<forall>scope a. map_of (sc_index s) scope = Some a \<longrightarrow>
          a < sc_next s \<and> sc_vectors s a = Some (groups_of sa maxg scope))"

definition shared_abs :: "'sc shared_cache \<Rightarrow> 'sc \<Rightarrow> string list option" where
  "shared_abs s scope = (case map_of (sc_index s) scope of None \<Rightarrow> None | Some a \<Rightarrow> sc_vectors s a)"

lemma shared_inv_new: "shared_inv sa maxg shared_new"
  by (simp add: shared_inv_def shared_new_def)

lemma shared_inv_clear: "shared_inv sa maxg (shared_clear s)"
  by (simp add: shared_inv_def shared_clear_def)

text \<open>What a lookup guarantees: the reference is to a living vector with the right groups.\<close>

definition refers ::
  "'sc scope_api \<Rightarrow> nat \<Rightarrow> 'sc \<Rightarrow> nat \<Rightarrow> 'sc shared_cache \<Rightarrow> bool" where
  "refers sa maxg scope a s \<longleftrightarrow> a < sc_next s \<and> sc_vectors s a = Some (groups_of sa maxg scope)
     \<and> map_of (sc_index s) scope = Some a"

lemma shared_insert_step:
  assumes "shared_inv sa maxg s" and "shared_insert sa maxg scope s = (a, s')"
  shows "shared_inv sa maxg s' \<and> refers sa maxg scope a s' \<and> sc_next s' = Suc (sc_next s)
    \<and> a = sc_next s \<and> sc_index s' = AList.update scope a (sc_index s)
    \<and> (\<forall>b < sc_next s. sc_vectors s' b = sc_vectors s b)"
proof -
  have s': "a = sc_next s" "s' = s\<lparr>sc_index := AList.update scope a (sc_index s),
      sc_vectors := (sc_vectors s)(a := Some (groups_of sa maxg scope)), sc_next := Suc a\<rparr>"
    using assms(2) by (auto simp: shared_insert_def push_groups_eq groups_of_def Let_def)
  have "b < sc_next s' \<and> sc_vectors s' b = Some (groups_of sa maxg sc)"
    if "map_of (sc_index s') sc = Some b" for sc b
  proof (cases "sc = scope")
    case False
    then have "map_of (sc_index s) sc = Some b" using that by (simp add: s'(2) sm.find_assign)
    then have "b < sc_next s" "sc_vectors s b = Some (groups_of sa maxg sc)"
      using assms(1) unfolding shared_inv_def by blast+
    then show ?thesis by (simp add: s')
  qed (use that in \<open>simp add: s'(2) sm.find_assign\<close>)
  moreover have "distinct_keys (sc_index s')"
    using assms(1) by (simp add: s'(2) shared_inv_def distinct_update)
  ultimately show ?thesis using s' by (simp add: shared_inv_def refers_def sm.find_assign)
qed

lemma shared_step:
  assumes "shared_inv sa maxg s" and "shared_scopeToGroups sa maxg scope s = (a, s')"
  shows "shared_inv sa maxg s' \<and> refers sa maxg scope a s' \<and> sc_next s \<le> sc_next s'"
proof (cases "map_of (sc_index s) scope")
  case (Some b)
  with assms show ?thesis by (auto simp: shared_scopeToGroups_def shared_inv_def refers_def)
next
  case None
  let ?s1 = "if length (sc_index s) > 300 then shared_clear s else s"
  have inv: "shared_inv sa maxg ?s1" using assms(1) by (simp add: shared_inv_clear)
  have insert: "shared_insert sa maxg scope ?s1 = (a, s')"
    using None assms(2) by (simp add: shared_scopeToGroups_def)
  have next1: "sc_next ?s1 = sc_next s" by (simp add: shared_clear_def)
  from shared_insert_step [OF inv insert] show ?thesis unfolding next1 by auto
qed

text \<open>While it is not full, the cache only grows: a reference stays good.\<close>

lemma shared_step_grows:
  assumes "shared_inv sa maxg s" and "shared_scopeToGroups sa maxg scope s = (a, s')"
    and "length (sc_index s) \<le> 300 \<or> map_of (sc_index s) scope \<noteq> None"
  shows "(\<forall>b < sc_next s. sc_vectors s' b = sc_vectors s b)
    \<and> fst ` set (sc_index s') = insert scope (fst ` set (sc_index s))"
proof (cases "map_of (sc_index s) scope")
  case (Some b)
  with assms(2) show ?thesis
    by (force simp: shared_scopeToGroups_def dest: map_of_SomeD)
next
  case None
  then have "shared_insert sa maxg scope s = (a, s')"
    using assms(2,3) by (auto simp: shared_scopeToGroups_def)
  from shared_insert_step [OF assms(1) this] show ?thesis
    by (auto simp: dom_update dom_map_of_conv_image_fst [symmetric] sm.find_assign)
qed

section \<open>Several threads\<close>

definition pending :: "'sc reader \<Rightarrow> 'sc list" where
  "pending r = (case holding r of None \<Rightarrow> [] | Some (scope, a) \<Rightarrow> [scope]) @ wanted r"

definition reader_ok ::
  "'sc scope_api \<Rightarrow> nat \<Rightarrow> 'sc set \<Rightarrow> 'sc list \<Rightarrow> 'sc shared_cache \<Rightarrow> 'sc reader \<Rightarrow> bool" where
  "reader_ok sa maxg S scopes s r \<longleftrightarrow> \<not> dangling r \<and> set (wanted r) \<subseteq> S
     \<and> (\<forall>scope a. holding r = Some (scope, a) \<longrightarrow>
          a < sc_next s \<and> sc_vectors s a = Some (groups_of sa maxg scope))
     \<and> copies r @ map (groups_of sa maxg) (pending r) = map (groups_of sa maxg) scopes"

definition readers_ok ::
  "'sc scope_api \<Rightarrow> nat \<Rightarrow> 'sc set \<Rightarrow> (nat \<Rightarrow> 'sc list) \<Rightarrow> 'sc readers \<Rightarrow> bool" where
  "readers_ok sa maxg S ws st \<longleftrightarrow> shared_inv sa maxg (fst st) \<and> fst ` set (sc_index (fst st)) \<subseteq> S
     \<and> (\<forall>i. reader_ok sa maxg S (ws i) (fst st) (snd st i))"

lemma not_full:
  assumes "shared_inv sa maxg s" and "fst ` set (sc_index s) \<subseteq> S" and "scope \<in> S"
    and "finite S" and "card S \<le> 301"
  shows "length (sc_index s) \<le> 300 \<or> map_of (sc_index s) scope \<noteq> None"
proof (rule disjCI)
  assume "\<not> map_of (sc_index s) scope \<noteq> None"
  then have "scope \<notin> fst ` set (sc_index s)" by (simp add: map_of_eq_None_iff)
  then have "fst ` set (sc_index s) \<subset> S" using assms(2,3) by blast
  then have "card (fst ` set (sc_index s)) < card S" by (rule psubset_card_mono [OF assms(4)])
  moreover have "card (fst ` set (sc_index s)) = length (sc_index s)"
    using assms(1) distinct_card [of "map fst (sc_index s)"] by (simp add: shared_inv_def)
  ultimately show "length (sc_index s) \<le> 300" using assms(5) by simp
qed

lemma reader_ok_grows:
  assumes "reader_ok sa maxg S scopes s r" and "sc_next s \<le> sc_next s'"
    and "\<forall>b < sc_next s. sc_vectors s' b = sc_vectors s b"
  shows "reader_ok sa maxg S scopes s' r"
  using assms by (fastforce simp: reader_ok_def)

lemma readers_ok_turn:
  assumes "readers_ok sa maxg S ws st" and "finite S" and "card S \<le> 301"
  shows "readers_ok sa maxg S ws (reader_turn sa maxg i st)"
proof -
  obtain s rs where st: "st = (s, rs)" by (cases st)
  have inv: "shared_inv sa maxg s" and keys: "fst ` set (sc_index s) \<subseteq> S"
    and ok: "\<And>j. reader_ok sa maxg S (ws j) s (rs j)"
    using assms(1) by (simp_all add: readers_ok_def st)
  have i: "\<not> dangling (rs i)" using ok [of i] by (simp add: reader_ok_def)
  show ?thesis
  proof (cases "holding (rs i)")
    case (Some h)
    obtain scope a where h: "h = (scope, a)" by (cases h)
    then have "sc_vectors s a = Some (groups_of sa maxg scope)"
      using ok [of i] Some by (simp add: reader_ok_def)
    with Some h i have turn: "reader_turn sa maxg i st
        = (s, rs(i := (rs i)\<lparr>holding := None, copies := copies (rs i) @ [groups_of sa maxg scope]\<rparr>))"
      by (simp add: reader_turn_def st Let_def)
    have "reader_ok sa maxg S (ws i) s ((rs i)\<lparr>holding := None,
        copies := copies (rs i) @ [groups_of sa maxg scope]\<rparr>)"
      using ok [of i] Some h by (simp add: reader_ok_def pending_def)
    with inv keys ok show ?thesis by (simp add: turn readers_ok_def)
  next
    case None
    show ?thesis
    proof (cases "wanted (rs i)")
      case Nil
      with None i assms(1) show ?thesis by (simp add: reader_turn_def st Let_def)
    next
      case (Cons scope scopes)
      obtain a s' where step: "shared_scopeToGroups sa maxg scope s = (a, s')" by (metis surj_pair)
      have turn: "reader_turn sa maxg i st
          = (s', rs(i := (rs i)\<lparr>wanted := scopes, holding := Some (scope, a)\<rparr>))"
        using None Cons i step by (simp add: reader_turn_def st Let_def)
      have S: "scope \<in> S" using ok [of i] Cons by (simp add: reader_ok_def)
      from shared_step [OF inv step] have s': "shared_inv sa maxg s'" "refers sa maxg scope a s'"
        "sc_next s \<le> sc_next s'" by simp_all
      from shared_step_grows [OF inv step not_full [OF inv keys S assms(2,3)]]
      have grows: "\<forall>b < sc_next s. sc_vectors s' b = sc_vectors s b"
        and keys': "fst ` set (sc_index s') \<subseteq> S" using keys S by auto
      have "reader_ok sa maxg S (ws i) s' ((rs i)\<lparr>wanted := scopes, holding := Some (scope, a)\<rparr>)"
        using ok [of i] s'(2) None Cons by (simp add: reader_ok_def pending_def refers_def)
      with s'(1) keys' reader_ok_grows [OF ok s'(3) grows] show ?thesis
        by (simp add: turn readers_ok_def)
    qed
  qed
qed

text \<open>C31 Threads that share an \<open>OutConnector\<close> get the right groups under every schedule, as long as
  they use at most 301 scopes together: no thread reads a vector that is gone, and what it has copied
  and will copy are the groups of the scopes it asks for, in order.\<close>

theorem shared_lookups_agree:
  assumes "finite S" and "card S \<le> 301" and "\<And>i. set (ws i) \<subseteq> S"
    and "(s, rs) = readers_run sa maxg as (readers_start ws)"
  shows "\<not> dangling (rs i)
    \<and> copies (rs i) @ map (groups_of sa maxg) (pending (rs i)) = map (groups_of sa maxg) (ws i)"
proof -
  have run: "readers_ok sa maxg S ws st \<Longrightarrow> readers_ok sa maxg S ws (readers_run sa maxg as st)" for st
    by (induction as arbitrary: st) (simp_all add: readers_ok_turn assms(1,2))
  have "readers_ok sa maxg S ws (readers_start ws)"
    using assms(3) by (simp add: readers_ok_def readers_start_def shared_inv_new reader_ok_def pending_def)
      (simp add: shared_new_def)
  from run [OF this] have "readers_ok sa maxg S ws (s, rs)" using assms(4) by simp
  then show ?thesis by (simp add: readers_ok_def reader_ok_def)
qed

section \<open>A full cache\<close>

definition readers_bounded :: "'sc scope_api \<Rightarrow> nat \<Rightarrow> 'sc readers \<Rightarrow> bool" where
  "readers_bounded sa maxg st \<longleftrightarrow> shared_inv sa maxg (fst st)
     \<and> (\<forall>i scope a. holding (snd st i) = Some (scope, a) \<longrightarrow> a < sc_next (fst st))"

lemma readers_bounded_turn:
  assumes "readers_bounded sa maxg st"
  shows "readers_bounded sa maxg (reader_turn sa maxg i st)"
proof -
  obtain s rs where st: "st = (s, rs)" by (cases st)
  have inv: "shared_inv sa maxg s" and bound: "\<And>j sc a. holding (rs j) = Some (sc, a) \<Longrightarrow> a < sc_next s"
    using assms by (auto simp: readers_bounded_def st)
  show ?thesis
  proof (cases "\<not> dangling (rs i) \<and> holding (rs i) = None \<and> wanted (rs i) \<noteq> []")
    case False
    then show ?thesis
      using inv bound by (auto simp: readers_bounded_def reader_turn_def st Let_def split: list.splits option.splits)
  next
    case True
    then obtain scope scopes where r: "\<not> dangling (rs i)" "holding (rs i) = None"
      "wanted (rs i) = scope # scopes" by (auto simp: neq_Nil_conv)
    obtain a s' where step: "shared_scopeToGroups sa maxg scope s = (a, s')" by (metis surj_pair)
    with shared_step [OF inv step] r bound show ?thesis
      by (fastforce simp: readers_bounded_def reader_turn_def st Let_def refers_def)
  qed
qed

lemma readers_bounded_start: "readers_bounded sa maxg (readers_start ws)"
  by (simp add: readers_bounded_def readers_start_def shared_inv_new)

lemma readers_bounded_run:
  "readers_bounded sa maxg st \<Longrightarrow> readers_bounded sa maxg (readers_run sa maxg as st)"
  by (induction as arbitrary: st) (simp_all add: readers_bounded_turn)

text \<open>C30 The reference \<open>scopeToGroups\<close> returns is not protected: when the cache is full, one thread has
  returned from \<open>scopeToGroups\<close> and not yet copied the vector, and another one asks for a scope that is
  not in the cache, then the cache is cleared and the first thread copies a vector that is gone.\<close>

theorem full_cache_invalidates_reference:
  assumes "(s, rs) = readers_run sa maxg as (readers_start ws)" and "300 < length (sc_index s)"
    and "holding (rs i) = Some (scope, a)" and "\<not> dangling (rs i)"
    and "holding (rs j) = None" and "wanted (rs j) = other # scopes" and "\<not> dangling (rs j)"
    and "map_of (sc_index s) other = None"
  shows "dangling (snd (readers_run sa maxg [j, i] (s, rs)) i)"
proof -
  have "readers_bounded sa maxg (s, rs)"
    unfolding assms(1) by (rule readers_bounded_run [OF readers_bounded_start])
  then have a: "a < sc_next s" using assms(3) by (auto simp: readers_bounded_def)
  obtain b s' where insert: "shared_insert sa maxg other (shared_clear s) = (b, s')" by (metis surj_pair)
  then have step: "shared_scopeToGroups sa maxg other s = (b, s')"
    using assms(2,8) by (simp add: shared_scopeToGroups_def)
  have gone: "sc_vectors s' a = None"
    using insert a by (auto simp: shared_insert_def shared_clear_def Let_def)
  have "i \<noteq> j" using assms(3,5) by auto
  then show ?thesis
    using assms(3-7) step gone by (simp add: reader_turn_def Let_def)
qed

section \<open>Concrete runs\<close>

text \<open>A thread that looks up new scopes fills the cache.\<close>

lemma fill_cache:
  assumes "shared_inv sa maxg s" and "wanted (rs i) = xs @ ys" and "distinct xs"
    and "set xs \<inter> fst ` set (sc_index s) = {}" and "length (sc_index s) + length xs \<le> 301"
    and "holding (rs i) = None" and "\<not> dangling (rs i)"
  shows "\<exists>s' r. readers_run sa maxg (replicate (2 * length xs) i) (s, rs) = (s', rs(i := r))
    \<and> shared_inv sa maxg s' \<and> length (sc_index s') = length (sc_index s) + length xs
    \<and> fst ` set (sc_index s') = fst ` set (sc_index s) \<union> set xs
    \<and> wanted r = ys \<and> holding r = None \<and> \<not> dangling r"
  using assms
proof (induction xs arbitrary: s rs)
  case Nil
  then show ?case by (intro exI [of _ s] exI [of _ "rs i"]) simp
next
  case (Cons x xs)
  obtain a s1 where step: "shared_scopeToGroups sa maxg x s = (a, s1)" by (metis surj_pair)
  have new: "map_of (sc_index s) x = None" using Cons.prems(4) by (simp add: map_of_eq_None_iff)
  have insert: "shared_insert sa maxg x s = (a, s1)"
    using step new Cons.prems(5) by (simp add: shared_scopeToGroups_def)
  from shared_insert_step [OF Cons.prems(1) insert] have s1: "shared_inv sa maxg s1"
    "refers sa maxg x a s1" "sc_index s1 = AList.update x a (sc_index s)" by auto
  have len: "length (sc_index s1) = Suc (length (sc_index s))"
    using Cons.prems(1) new by (simp add: s1(3) length_update shared_inv_def)
  have keys: "fst ` set (sc_index s1) = insert x (fst ` set (sc_index s))"
    by (auto simp: s1(3) dom_map_of_conv_image_fst [symmetric] sm.find_assign split: if_splits)
  let ?r = "(rs i)\<lparr>wanted := xs @ ys, holding := None, copies := copies (rs i) @ [groups_of sa maxg x]\<rparr>"
  have two: "readers_run sa maxg [i, i] (s, rs) = (s1, rs(i := ?r))"
    using Cons.prems(2,6,7) step s1(2) by (simp add: reader_turn_def Let_def refers_def)
  have "\<exists>s' r. readers_run sa maxg (replicate (2 * length xs) i) (s1, rs(i := ?r)) = (s', (rs(i := ?r))(i := r))
    \<and> shared_inv sa maxg s' \<and> length (sc_index s') = length (sc_index s1) + length xs
    \<and> fst ` set (sc_index s') = fst ` set (sc_index s1) \<union> set xs
    \<and> wanted r = ys \<and> holding r = None \<and> \<not> dangling r"
    by (rule Cons.IH [OF s1(1)]) (use Cons.prems len keys in auto)
  then obtain s' r where rest: "readers_run sa maxg (replicate (2 * length xs) i) (s1, rs(i := ?r)) = (s', rs(i := r))"
    and s': "shared_inv sa maxg s'" "length (sc_index s') = length (sc_index s1) + length xs"
      "fst ` set (sc_index s') = fst ` set (sc_index s1) \<union> set xs" "wanted r = ys" "holding r = None"
      "\<not> dangling r" by auto
  have "readers_run sa maxg (replicate (2 * length (x # xs)) i) (s, rs) = (s', rs(i := r))"
    using two rest by simp
  with s' len keys show ?case by (intro exI [of _ s'] exI [of _ r]) auto
qed

text \<open>Scopes that are numbers, each its own only super-scope.\<close>

definition nat_scopes :: "nat scope_api" where
  "nat_scopes = \<lparr>scope_toString = show_nat, superScopes = (\<lambda>s. [s]), scope_parse = (\<lambda>s. Inr (read_nat s)),
     md5_hex = (\<lambda>s. s)\<rparr>"

definition many_lookups :: "nat \<Rightarrow> nat list" where
  "many_lookups i = (if i = 0 then [0..<301] @ [0] else if i = 1 then [301] else [])"

theorem shared_lookups_agree_witness:
  "copies (snd (readers_run nat_scopes 32 [0, 1, 1, 0] (readers_start (\<lambda>i. if i < 2 then [5, i] else []))) 1)
    = [groups_of nat_scopes 32 5]"
proof -
  let ?ws = "\<lambda>i :: nat. if i < 2 then [5, i] else []"
  obtain s rs where run: "(s, rs) = readers_run nat_scopes 32 [0, 1, 1, 0] (readers_start ?ws)"
    by (metis surj_pair)
  have fin: "finite {0, 1, 5 :: nat}" "card {0, 1, 5 :: nat} \<le> 301" by simp_all
  have "set (?ws i) \<subseteq> {0, 1, 5}" for i by auto
  from shared_lookups_agree [OF fin this run, of 1]
  have "copies (rs 1) @ map (groups_of nat_scopes 32) (pending (rs 1)) = map (groups_of nat_scopes 32) [5, 1]"
    by simp
  moreover have "length (copies (rs 1)) = 1"
    using run by (auto simp: readers_start_def reader_turn_def shared_scopeToGroups_def shared_insert_def
        shared_new_def Let_def)
  ultimately have "copies (rs 1) = [groups_of nat_scopes 32 5]" by (cases "copies (rs 1)") auto
  then show ?thesis using run by (metis snd_conv)
qed

theorem full_cache_invalidates_reference_witness:
  "\<exists>as. dangling (snd (readers_run nat_scopes 32 as (readers_start many_lookups)) 0)"
proof -
  obtain s0 rs0 where start: "readers_start many_lookups = (s0, rs0)" by (metis surj_pair)
  then have s0: "s0 = shared_new" and rs0: "\<And>i. rs0 i = \<lparr>wanted = many_lookups i, holding = None, copies = [], dangling = False\<rparr>"
    by (auto simp: readers_start_def)
  have "\<exists>s' r. readers_run nat_scopes 32 (replicate (2 * length [0..<301]) 0) (s0, rs0) = (s', rs0(0 := r))
    \<and> shared_inv nat_scopes 32 s' \<and> length (sc_index s') = length (sc_index s0) + length [0..<301]
    \<and> fst ` set (sc_index s') = fst ` set (sc_index s0) \<union> set [0..<301]
    \<and> wanted r = [0] \<and> holding r = None \<and> \<not> dangling r"
    by (rule fill_cache) (simp_all add: s0 shared_inv_new rs0 many_lookups_def, simp_all add: shared_new_def)
  then obtain s1 r1 where run1: "readers_run nat_scopes 32 (replicate (2 * length [0..<301]) 0) (s0, rs0) = (s1, rs0(0 := r1))"
    and s1: "length (sc_index s1) = 301" "fst ` set (sc_index s1) = {0..<301}"
    and r1: "wanted r1 = [0]" "holding r1 = None" "\<not> dangling r1"
    by (auto simp: s0) (auto simp: shared_new_def)
  obtain a where a: "map_of (sc_index s1) 0 = Some a"
    using s1(2) by (metis atLeastLessThan_iff domIff dom_map_of_conv_image_fst not_None_eq zero_le zero_less_numeral)
  let ?rs = "rs0(0 := r1\<lparr>wanted := [], holding := Some (0, a)\<rparr>)"
  have run2: "(s1, ?rs) = readers_run nat_scopes 32 (replicate (2 * length [0..<301]) 0 @ [0]) (readers_start many_lookups)"
    unfolding readers_run_append start run1
    using a r1 by (simp add: reader_turn_def shared_scopeToGroups_def)
  have other: "map_of (sc_index s1) 301 = None" by (simp add: map_of_eq_None_iff s1(2))
  have "dangling (snd (readers_run nat_scopes 32 [1, 0] (s1, ?rs)) 0)"
    by (rule full_cache_invalidates_reference [OF run2, where other = 301 and scopes = "[]"])
      (simp_all add: s1(1) r1 rs0 many_lookups_def other)
  then show ?thesis
    unfolding run2 readers_run_append [symmetric] by (rule exI)
qed

end
