(* ===== verification/Factory.thy ===== *)
theory Factory
  imports InConnector
begin

text \<open>
  \<open>Factory\<close> (\<open>Factory.h\<close>, \<open>Factory.cpp\<close>), \<open>registration.cpp\<close> and \<open>Plugin.cpp\<close>: connectors get the
  bus of their daemon, and connectors for one daemon share one bus. A bus is an object of the
  process: \<open>heap\<close> maps its number to it while some \<open>shared_ptr\<close> keeps it alive, the factory holds
  \<open>weak_ptr\<close>s, that is numbers. The option accessors of \<open>rsc::runtime::Properties\<close> are a parameter.
\<close>

section \<open>Objects of the process\<close>

record ('m, 'd, 'z) process =
  heap :: "nat \<Rightarrow> ('m, 'd) bus option"
  fresh :: nat
  calls :: history
  world :: "'z"

type_synonym host_and_port = "string \<times> 32 word"

record factory =
  buses :: "(host_and_port \<times> nat) list"

definition factory_new :: factory where
  "factory_new = \<lparr>buses = []\<rparr>"

text \<open>\<open>weak_ptr::lock\<close> finds the object if it is alive.\<close>

definition lock_bus :: "('m, 'd, 'z) process \<Rightarrow> nat \<Rightarrow> nat option" where
  "lock_bus pr i = (if heap pr i = None then None else Some i)"

section \<open>Obtaining a bus\<close>

text \<open>
  The new bus only enters the heap when \<open>activate\<close> has returned: an exception destroys the bus and
  its connection, which are both inactive then.
\<close>

definition create_bus ::
  "spread_api \<Rightarrow> ('d, 'sc) dispatcher_api \<Rightarrow> bool \<Rightarrow> int \<Rightarrow> host_and_port
     \<Rightarrow> factory \<times> ('m, 'd, 'z) process \<Rightarrow> (nat, factory \<times> ('m, 'd, 'z) process) outcome" where
  "create_bus api da win32 junk options s = (case s of (f, pr) \<Rightarrow>
     let bus = bus_create da (conn_new win32 junk (fst options) (snd options)); i = fresh pr
     in case bus_activate api (bus, calls pr, world pr) of
          (Inl ex, (bus', w, z)) \<Rightarrow> (Inl ex, (f, pr\<lparr>fresh := Suc i, calls := w, world := z\<rparr>))
        | (Inr _, (bus', w, z)) \<Rightarrow>
            (Inr i, (f\<lparr>buses := AList.update options i (buses f)\<rparr>,
               pr\<lparr>heap := (heap pr)(i \<mapsto> bus'), fresh := Suc i, calls := w, world := z\<rparr>)))"

definition obtainBus ::
  "spread_api \<Rightarrow> ('d, 'sc) dispatcher_api \<Rightarrow> bool \<Rightarrow> int \<Rightarrow> host_and_port
     \<Rightarrow> factory \<times> ('m, 'd, 'z) process \<Rightarrow> (nat, factory \<times> ('m, 'd, 'z) process) outcome" where
  "obtainBus api da win32 junk options s = (case s of (f, pr) \<Rightarrow>
     (case map_of (buses f) options of
        Some weak \<Rightarrow>
          (case lock_bus pr weak of
             Some i \<Rightarrow> (Inr i, (f, pr))
           | None \<Rightarrow>
               create_bus api da win32 junk options (f\<lparr>buses := AList.delete options (buses f)\<rparr>, pr))
      | None \<Rightarrow> create_bus api da win32 junk options (f, pr)))"

section \<open>Creating connectors\<close>

record ('p, 'cv) properties_api =
  get_string :: "'p \<Rightarrow> string \<Rightarrow> string \<Rightarrow> exn + string"
  getAs_uint :: "'p \<Rightarrow> string \<Rightarrow> 32 word \<Rightarrow> exn + 32 word"
  get_converters :: "'p \<Rightarrow> exn + 'cv"

definition parseOptions ::
  "('p, 'cv) properties_api \<Rightarrow> spread_api \<Rightarrow> 'p \<Rightarrow> exn + host_and_port" where
  "parseOptions pa api args =
     (case get_string pa args ''host'' defaultHost of
        Inl ex \<Rightarrow> Inl ex
      | Inr h \<Rightarrow>
          (case getAs_uint pa args ''port'' (defaultPort api) of
             Inl ex \<Rightarrow> Inl ex
           | Inr p \<Rightarrow> Inr (h, p)))"

text \<open>
  A connector together with its converters and the number of its bus. C++ leaves the order open in
  which the arguments of the constructors are evaluated; here it is the order they are written in.
\<close>

definition createInConnector ::
  "('p, 'cv) properties_api \<Rightarrow> spread_api \<Rightarrow> ('d, 'sc) dispatcher_api \<Rightarrow> bool \<Rightarrow> int \<Rightarrow> 'sc \<Rightarrow> 'p
     \<Rightarrow> factory \<times> ('m, 'd, 'z) process
     \<Rightarrow> ('cv \<times> nat \<times> ('sc, 'ev, 'u) in_connector, factory \<times> ('m, 'd, 'z) process) outcome" where
  "createInConnector pa api da win32 junk default_scope args s =
     (case (get_converters pa args, parseOptions pa api args) of
        (Inl ex, _) \<Rightarrow> (Inl ex, s)
      | (Inr cv, Inl ex) \<Rightarrow> (Inl ex, s)
      | (Inr cv, Inr options) \<Rightarrow>
          andThen (obtainBus api da win32 junk options s)
            (\<lambda>i s'. (Inr (cv, i, ic_new default_scope), s')))"

definition createOutConnector ::
  "('p, 'cv) properties_api \<Rightarrow> spread_api \<Rightarrow> ('d, 'sc) dispatcher_api \<Rightarrow> bool \<Rightarrow> int \<Rightarrow> 'p
     \<Rightarrow> factory \<times> ('m, 'd, 'z) process
     \<Rightarrow> ('cv \<times> nat \<times> 'sc out_connector, factory \<times> ('m, 'd, 'z) process) outcome" where
  "createOutConnector pa api da win32 junk args s =
     (case (get_converters pa args, parseOptions pa api args) of
        (Inl ex, _) \<Rightarrow> (Inl ex, s)
      | (Inr cv, Inl ex) \<Rightarrow> (Inl ex, s)
      | (Inr cv, Inr options) \<Rightarrow>
          andThen (obtainBus api da win32 junk options s)
            (\<lambda>i s'. case getAs_uint pa args ''maxfragmentsize'' 100000 of
               Inl ex \<Rightarrow> (Inl ex, s')
             | Inr maxSize \<Rightarrow> (Inr (cv, i, oc_new maxSize), s')))"

section \<open>Registration\<close>

text \<open>
  The two connector factories of the RSB core only see the calls made to them: the direction, the
  name, the schema, the flag \<open>remote\<close> and the options the connectors take.
\<close>

datatype direction = InFactory | OutFactory

record registered =
  reg_direction :: direction
  reg_name :: string
  reg_schema :: string
  reg_remote :: bool
  reg_options :: "string set"

record registration =
  the_factory :: "factory option"
  registrations :: "registered list"

definition registration_new :: registration where
  "registration_new = \<lparr>the_factory = None, registrations = []\<rparr>"

definition spread_entry :: "direction \<Rightarrow> registered" where
  "spread_entry d = \<lparr>reg_direction = d, reg_name = ''spread'', reg_schema = ''spread'',
     reg_remote = True, reg_options = {''host'', ''port''}\<rparr>"

definition registerTransport :: "registration \<Rightarrow> registration" where
  "registerTransport s =
     (if the_factory s = None then
        s\<lparr>the_factory := Some factory_new,
          registrations := registrations s @ [spread_entry InFactory, spread_entry OutFactory]\<rparr>
      else s)"

definition unregisterTransport :: "registration \<Rightarrow> registration" where
  "unregisterTransport s = s\<lparr>the_factory := None\<rparr>"

definition plugin_init :: "registration \<Rightarrow> registration" where
  "plugin_init s = registerTransport s"

definition plugin_shutdown :: "registration \<Rightarrow> registration" where
  "plugin_shutdown s = unregisterTransport s"

section \<open>One bus per daemon\<close>

definition bus_options :: "('m, 'd) bus \<Rightarrow> host_and_port" where
  "bus_options b = (host (connection b), port (connection b))"

text \<open>
  What can happen to the process: a connector obtains its bus, the bus is used (whatever changes, it
  keeps its host and port), the last owner of a bus drops it and its destructor runs.
\<close>

inductive process_step ::
  "spread_api \<Rightarrow> ('d, 'sc) dispatcher_api \<Rightarrow> factory \<times> ('m, 'd, 'z) process
     \<Rightarrow> factory \<times> ('m, 'd, 'z) process \<Rightarrow> bool" for api da where
  obtained: "obtainBus api da win32 junk options s = (r, s') \<Longrightarrow> process_step api da s s'"
| used: "heap pr i = Some b \<Longrightarrow> bus_options b' = bus_options b \<Longrightarrow>
     process_step api da (f, pr)
       (f, pr\<lparr>heap := (heap pr)(i \<mapsto> b'), calls := w, world := z\<rparr>)"
| dropped: "heap pr i = Some b \<Longrightarrow> bus_destroy api wait (b, calls pr, world pr) = (r, (b', w, z)) \<Longrightarrow>
     process_step api da (f, pr)
       (f, pr\<lparr>heap := (heap pr)(i := None), calls := w, world := z\<rparr>)"

inductive process_reachable ::
  "spread_api \<Rightarrow> ('d, 'sc) dispatcher_api \<Rightarrow> factory \<times> ('m, 'd, 'z) process \<Rightarrow> bool" for api da where
  process_start: "heap pr = (\<lambda>i. None) \<Longrightarrow> process_reachable api da (factory_new, pr)"
| process_next: "process_reachable api da s \<Longrightarrow> process_step api da s s' \<Longrightarrow>
     process_reachable api da s'"


definition factory_inv :: "factory \<times> ('m, 'd, 'z) process \<Rightarrow> bool" where
  "factory_inv s = (case s of (f, pr) \<Rightarrow>
     (\<forall>i b. heap pr i = Some b \<longrightarrow> i < fresh pr \<and> map_of (buses f) (bus_options b) = Some i)
   \<and> (\<forall>options i. map_of (buses f) options = Some i \<longrightarrow> i < fresh pr
        \<and> (\<forall>b. heap pr i = Some b \<longrightarrow> bus_options b = options)))"

lemma factory_invD:
  assumes "factory_inv (f, pr)"
  shows "heap pr i = Some b \<Longrightarrow> i < fresh pr \<and> map_of (buses f) (bus_options b) = Some i"
    and "map_of (buses f) options = Some i \<Longrightarrow> i < fresh pr"
    and "map_of (buses f) options = Some i \<Longrightarrow> heap pr i = Some b \<Longrightarrow> bus_options b = options"
  using assms unfolding factory_inv_def prod.case by blast+

lemma bus_activate_options:
  "bus_activate api (b, w, z) = (r, (b', w', z')) \<Longrightarrow> bus_options b' = bus_options b"
  by (auto simp: bus_activate_def conn_activate_def bus_options_def Let_def
      split: outcome_splits)

lemma bus_new_options [simp]: "bus_options (bus_create da (conn_new win32 junk h p)) = (h, p)"
  by (simp add: bus_options_def bus_create_def bus_new_def conn_new_def)

text \<open>A bus whose activation has returned: the daemon has accepted the connection and the receiver runs.\<close>

definition freshly_active :: "spread_api \<Rightarrow> bool \<Rightarrow> host_and_port \<Rightarrow> history \<Rightarrow> ('m, 'd) bus \<Rightarrow> history \<Rightarrow> bool" where
  "freshly_active api win32 options w b w' \<longleftrightarrow>
     bus_options b = options \<and> bus_active b \<and> connected (connection b)
   \<and> (\<exists>t. receiver b = Some t \<and> \<not> taskCancelled t)
   \<and> w' = SpConnect (c_str (daemon_name win32 (fst options) (snd options))) (ACCEPT_SESSION api)
        (mailbox (connection b)) (privateGroup (connection b)) # w"

lemma bus_activate_fresh:
  assumes "bus_activate api (bus_create da (conn_new win32 junk (fst options) (snd options)), w, z)
    = (Inr x, (b, w', z'))"
  shows "freshly_active api win32 options w b w' \<and> z' = z"
  using assms
  by (cases options) (auto simp: freshly_active_def bus_create_def bus_new_def bus_activate_def conn_activate_def conn_new_def
      bus_options_def rt_new_def Let_def split: outcome_splits)

lemma create_bus_cases:
  fixes pr :: "('m, 'd, 'z) process"
  assumes "create_bus api da win32 junk options (f, pr) = (r, (f', pr'))"
  obtains (failed) e w z where "r = Inl e" "f' = f"
      "pr' = pr\<lparr>fresh := Suc (fresh pr), calls := w, world := z\<rparr>"
    | (created) b w z where "r = Inr (fresh pr)"
      "f' = f\<lparr>buses := AList.update options (fresh pr) (buses f)\<rparr>"
      "pr' = pr\<lparr>heap := (heap pr)(fresh pr \<mapsto> b), fresh := Suc (fresh pr), calls := w, world := z\<rparr>"
      "bus_options b = options" "freshly_active api win32 options (calls pr) b w" "z = world pr"
proof -
  obtain q w z and b :: "('m, 'd) bus" where act: "bus_activate api
      (bus_create da (conn_new win32 junk (fst options) (snd options)), calls pr, world pr)
      = (q, (b, w, z))"
    by (metis prod.exhaust)
  have o: "bus_options b = options" using bus_activate_options [OF act] by simp
  show thesis
  proof (cases q)
    case (Inl e)
    show thesis
      by (rule failed [of e z w]) (use assms act Inl in \<open>auto simp: create_bus_def Let_def\<close>)
  next
    case (Inr x)
    show thesis
      by (rule created [where b = b and w = w and z = z]) (use assms act Inr o bus_activate_fresh [OF act [unfolded Inr]] in \<open>auto simp: create_bus_def Let_def\<close>)
  qed
qed

lemma factory_inv_create:
  assumes "create_bus api da win32 junk options (f, pr) = (r, (f', pr'))" and "factory_inv (f, pr)"
    and "\<And>i b. heap pr i = Some b \<Longrightarrow> bus_options b \<noteq> options"
  shows "factory_inv (f', pr')"
  using assms(1)
proof (cases rule: create_bus_cases)
  case failed
  then show ?thesis using assms(2) by (auto simp: factory_inv_def intro: less_SucI)
next
  case (created b w z)
  have old: "i < fresh pr \<and> map_of (buses f) (bus_options c) = Some i" if "heap pr i = Some c" for i c
    by (rule factory_invD(1) [OF assms(2) that])
  have entry: "i < fresh pr \<and> (\<forall>c. heap pr i = Some c \<longrightarrow> bus_options c = opts)"
    if "map_of (buses f) opts = Some i" for i opts
    using factory_invD(2,3) [OF assms(2) that] by blast
  have "i < Suc (fresh pr) \<and> map_of (buses f') (bus_options c) = Some i" if "heap pr' i = Some c" for i c
    using that created old [of i c] assms(3) [of i c]
    by (auto simp: sm.find_assign split: if_splits)
  moreover have "i < Suc (fresh pr) \<and> (\<forall>c. heap pr' i = Some c \<longrightarrow> bus_options c = opts)"
    if "map_of (buses f') opts = Some i" for i opts
    using that created entry [of opts i]
    by (auto simp: sm.find_assign split: if_splits)
  ultimately show ?thesis using created(3) by (auto simp: factory_inv_def)
qed

lemma factory_inv_delete:
  assumes "factory_inv (f, pr)" and "\<And>i b. heap pr i = Some b \<Longrightarrow> bus_options b \<noteq> options"
  shows "factory_inv (f\<lparr>buses := AList.delete options (buses f)\<rparr>, pr)"
  using assms by (auto simp: factory_inv_def sm.find_erase split: if_splits)

text \<open>The three ways \<open>obtainBus\<close> can go.\<close>

lemma obtainBus_cases:
  assumes "obtainBus api da win32 junk options (f, pr) = (r, s')" and "factory_inv (f, pr)"
  obtains (shared) i b where "heap pr i = Some b" "bus_options b = options" "r = Inr i" "s' = (f, pr)"
    | (new) f1 where "\<And>i b. heap pr i = Some b \<Longrightarrow> bus_options b \<noteq> options" "factory_inv (f1, pr)"
      "create_bus api da win32 junk options (f1, pr) = (r, s')"
      "f1 = f \<or> f1 = f\<lparr>buses := AList.delete options (buses f)\<rparr>"
proof (cases "map_of (buses f) options")
  case None
  then have "bus_options b \<noteq> options" if "heap pr i = Some b" for i b
    using factory_invD(1) [OF assms(2) that] None by auto
  then show thesis using new [of f] None assms by (simp add: obtainBus_def)
next
  case (Some weak)
  show thesis
  proof (cases "heap pr weak")
    case None
    have dead: "bus_options b \<noteq> options" if "heap pr i = Some b" for i b
    proof
      assume "bus_options b = options"
      then have "weak = i" using factory_invD(1) [OF assms(2) that] Some by simp
      with None that show False by simp
    qed
    show thesis
      by (rule new [OF dead factory_inv_delete [OF assms(2) dead]])
        (use Some None assms(1) in \<open>simp_all add: obtainBus_def lock_bus_def\<close>)
  next
    case (Some b)
    note entry = \<open>map_of (buses f) options = Some weak\<close>
    have "bus_options b = options" by (rule factory_invD(3) [OF assms(2) entry Some])
    with Some entry assms(1) show thesis
      by (intro shared [of weak b]) (auto simp: obtainBus_def lock_bus_def)
  qed
qed

lemma process_step_inv:
  assumes "process_step api da s s'" and "factory_inv s"
  shows "factory_inv s'"
  using assms(1)
proof (cases rule: process_step.cases)
  case (obtained win32 junk options r)
  obtain f pr where s: "s = (f, pr)" by (cases s)
  obtain f' pr' where s': "s' = (f', pr')" by (cases s')
  have inv: "factory_inv (f, pr)" using assms(2) s by simp
  show ?thesis using obtained [unfolded s] inv
  proof (cases rule: obtainBus_cases)
    case (shared i b)
    then show ?thesis using inv by simp
  next
    case (new f1)
    show ?thesis unfolding s'
      by (rule factory_inv_create [OF new(3) [unfolded s'] new(2,1)])
  qed
next
  case (used pr i b b' f w z)
  then show ?thesis using assms(2) by (auto simp: factory_inv_def)
next
  case (dropped pr i b wait r b' w z f)
  then show ?thesis using assms(2) by (auto simp: factory_inv_def)
qed

lemma process_reachable_inv: "process_reachable api da s \<Longrightarrow> factory_inv s"
proof (induction rule: process_reachable.induct)
  case (process_start pr)
  then show ?case by (simp add: factory_inv_def factory_new_def)
next
  case (process_next s s')
  from process_step_inv [OF process_next(2,3)] show ?case .
qed

text \<open>C26 One bus per daemon: at any time at most one live bus of the process has a given host and
  port. When a bus with the requested host and port is alive, \<open>obtainBus\<close> returns it and changes
  nothing (no second connection). Otherwise, when it returns, it has made exactly one new object, a bus that
  has been activated: its connection for that host and port is open, which took one call of \<open>SP_connect\<close>
  that the daemon accepted, its receiver task runs, and the factory knows it. When it throws, no bus has
  been added.\<close>

theorem one_bus_per_daemon:
  assumes "process_reachable api da (f, pr)"
  shows "(\<forall>i j b c. heap pr i = Some b \<and> heap pr j = Some c \<and> bus_options b = bus_options c
      \<longrightarrow> i = j)
    \<and> (\<forall>j b. heap pr j = Some b \<and> bus_options b = options \<longrightarrow>
        obtainBus api da win32 junk options (f, pr) = (Inr j, (f, pr)))
    \<and> ((\<nexists>j b. heap pr j = Some b \<and> bus_options b = options) \<longrightarrow>
        (case obtainBus api da win32 junk options (f, pr) of
           (Inr i, (f', pr')) \<Rightarrow> heap pr i = None \<and> map_of (buses f') options = Some i
             \<and> (\<exists>b. heap pr' = (heap pr)(i \<mapsto> b) \<and> freshly_active api win32 options (calls pr) b (calls pr'))
         | (Inl ex, (f', pr')) \<Rightarrow> heap pr' = heap pr))"
proof (intro conjI allI impI, goal_cases)
  case (1 i j b c)
  note inv = factory_invD [OF process_reachable_inv [OF assms]]
  show ?case using inv(1) [of i b] inv(1) [of j c] 1 by auto
next
  case (2 j b)
  note inv = factory_invD(1) [OF process_reachable_inv [OF assms]]
  show ?case using inv [of j b] 2 by (auto simp: obtainBus_def lock_bus_def)
next
  case 3
  have inv: "factory_inv (f, pr)" by (rule process_reachable_inv [OF assms])
  obtain r f' pr' where obtain_bus: "obtainBus api da win32 junk options (f, pr) = (r, (f', pr'))"
    by (metis prod.exhaust)
  then show ?case using inv
  proof (cases rule: obtainBus_cases)
    case (shared i b)
    then show ?thesis using 3 by blast
  next
    case (new f1)
    have "heap pr (fresh pr) = None"
      using factory_invD(1) [OF inv, of "fresh pr"] by (cases "heap pr (fresh pr)") auto
    with new(3) show ?thesis unfolding obtain_bus
      by (cases rule: create_bus_cases) (auto simp: sm.find_assign)
  qed
qed

definition empty_process :: "(unit, (string \<times> nat) list, unit) process" where
  "empty_process = \<lparr>heap = (\<lambda>i. None), fresh = 0, calls = [], world = ()\<rparr>"

lemma sample_obtain:
  assumes "heap pr = (\<lambda>i. None)"
  shows "\<exists>i s. obtainBus sample_api count_dispatcher False 0 (''h'', 4803) (factory_new, pr) = (Inr i, s)"
  by (simp add: obtainBus_def create_bus_def factory_new_def bus_create_def bus_new_def bus_activate_def
      conn_activate_def conn_new_def sample_api_def rt_new_def dh_new_def default_pool_def pool_new_def
      Let_def)

theorem one_bus_per_daemon_witness:
  "\<exists>i b f pr. obtainBus sample_api count_dispatcher False 0 (''h'', 4803) (factory_new, empty_process)
        = (Inr i, (f, pr))
    \<and> heap pr i = Some b \<and> bus_options b = (''h'', 4803) \<and> bus_active b \<and> connected (connection b)"
proof -
  have e: "heap empty_process = (\<lambda>i. None)" by (simp add: empty_process_def)
  obtain i f pr where o: "obtainBus sample_api count_dispatcher False 0 (''h'', 4803)
      (factory_new, empty_process) = (Inr i, (f, pr))"
    using sample_obtain [OF e] by (metis surj_pair)
  have r: "process_reachable sample_api count_dispatcher (factory_new, empty_process)"
    by (rule process_reachable.process_start [OF e])
  from one_bus_per_daemon [OF r, of "(''h'', 4803)" False 0] o e show ?thesis
    by (auto simp: freshly_active_def)
qed

text \<open>Registration: initialising the plugin again changes nothing while it is registered; but
  \<open>unregisterTransport\<close> forgets the factory without taking the connectors out of the core, so
  after shutting down and initialising again both connectors are registered twice under the
  name \<open>spread\<close>.\<close>

lemma registration_idempotent_until_unregistered:
  "plugin_init (plugin_init s) = plugin_init s
   \<and> (the_factory s = None \<longrightarrow> registrations (plugin_init (plugin_shutdown (plugin_init s)))
       = registrations s @ [spread_entry InFactory, spread_entry OutFactory,
                            spread_entry InFactory, spread_entry OutFactory])"
  by (simp add: plugin_init_def plugin_shutdown_def registerTransport_def unregisterTransport_def)

lemma registration_idempotent_until_unregistered_witness:
  "registrations (plugin_init (plugin_shutdown (plugin_init registration_new)))
    = [spread_entry InFactory, spread_entry OutFactory, spread_entry InFactory, spread_entry OutFactory]"
  using registration_idempotent_until_unregistered [of registration_new]
  by (simp add: registration_new_def)

end
