(* ===== verification/BufferSaturation.thy ===== *)
theory BufferSaturation
  imports MembershipManager
begin

text \<open>
  \<open>testErrorOnBufferSaturation\<close> of \<open>SpreadConnectionTest.cpp\<close>: a connection floods another one that
  does not read. When the daemon gives up a client that is too slow (\<open>gives_up\<close>), the reading
  connection reports it as a \<open>CommException\<close> instead of returning fewer messages without a word.
\<close>

section \<open>The test\<close>

fun send_times :: "spread_api \<Rightarrow> bool \<Rightarrow> nat \<Rightarrow> spread_message \<Rightarrow> conn_state \<Rightarrow> (unit, conn_state) outcome"
where
  "send_times api dbg 0 m s = (Inr (), s)"
| "send_times api dbg (Suc k) m s =
     andThen (conn_send api dbg m s) (\<lambda>_. send_times api dbg k m)"

fun receive_times ::
  "spread_api \<Rightarrow> bool \<Rightarrow> nat \<Rightarrow> spread_message \<times> conn_state \<Rightarrow>
     (unit, spread_message \<times> conn_state) outcome" where
  "receive_times api dbg 0 st = (Inr (), st)"
| "receive_times api dbg (Suc k) st =
     andThen (conn_receive api dbg (fst st) (snd st)) (\<lambda>_. receive_times api dbg k)"

definition flood_group :: string where
  "flood_group = ''dasdasd''"

text \<open>\<open>payload\<close> is the random string, \<open>n\<close> the constant \<open>bufferSize\<close>.\<close>

definition test_error_on_buffer_saturation ::
  "spread_api \<Rightarrow> bool \<Rightarrow> bool \<Rightarrow> int \<Rightarrow> int \<Rightarrow> 32 word \<Rightarrow> string \<Rightarrow> nat \<Rightarrow> bool" where
  "test_error_on_buffer_saturation api dbg win32 junk junk' spread_port payload n =
     (case conn_activate api (conn_new win32 junk ''localhost'' spread_port, []) of
        (Inl ex, _) \<Rightarrow> False
      | (Inr _, (sendConnection, w1)) \<Rightarrow>
          (case conn_activate api (conn_new win32 junk' ''localhost'' spread_port, w1) of
             (Inl ex, _) \<Rightarrow> False
           | (Inr _, con) \<Rightarrow>
               (case mm_join (conn_join api) flood_group (mm_new, con) of
                  (Inl ex, _) \<Rightarrow> False
                | (Inr _, (groups, (receiveConnection, w2))) \<Rightarrow>
                    (case addGroup (MAX_GROUP_NAME api) flood_group
                            (setData payload (message_of_type REGULAR)) of
                       (Inl ex, _) \<Rightarrow> False
                     | (Inr _, message) \<Rightarrow>
                         (case send_times api dbg n message (sendConnection, w2) of
                            (Inl ex, _) \<Rightarrow> False
                          | (Inr _, (_, w3)) \<Rightarrow>
                              (case fst (receive_times api dbg n
                                           (message_new, (receiveConnection, w3))) of
                                 Inl (CommException text) \<Rightarrow> True
                               | _ \<Rightarrow> False))))))"

section \<open>The flow control of the daemon\<close>

text \<open>How many messages other connections have sent to the groups of a mailbox, and how many it has
  received, since it was connected.\<close>

fun incoming_count :: "int \<Rightarrow> history \<Rightarrow> nat" where
  "incoming_count mb [] = 0"
| "incoming_count mb (SpMulticast m s g d r # w) =
     (if m \<noteq> mb \<and> 0 \<le> r \<and> g \<in> joined mb w then Suc (incoming_count mb w) else incoming_count mb w)"
| "incoming_count mb (SpMultigroupMulticast m s gs d r # w) =
     (if m \<noteq> mb \<and> 0 \<le> r \<and> set gs \<inter> joined mb w \<noteq> {} then Suc (incoming_count mb w) else incoming_count mb w)"
| "incoming_count mb (SpConnect d r m p # w) = (if m = mb then 0 else incoming_count mb w)"
| "incoming_count mb (c # w) = incoming_count mb w"

fun read_count :: "int \<Rightarrow> history \<Rightarrow> nat" where
  "read_count mb [] = 0"
| "read_count mb (SpReceive m rc # w) =
     (if m = mb \<and> 0 \<le> rc_ret rc then Suc (read_count mb w) else read_count mb w)"
| "read_count mb (SpConnect d r m p # w) = (if m = mb then 0 else read_count mb w)"
| "read_count mb (c # w) = read_count mb w"

definition backlog :: "int \<Rightarrow> history \<Rightarrow> nat" where
  "backlog mb w = incoming_count mb w - read_count mb w"

fun connects :: "int \<Rightarrow> spread_call \<Rightarrow> bool" where
  "connects mb (SpConnect d r m p) \<longleftrightarrow> m = mb"
| "connects mb c \<longleftrightarrow> False"

fun overrun :: "nat \<Rightarrow> int \<Rightarrow> history \<Rightarrow> bool" where
  "overrun limit mb [] \<longleftrightarrow> False"
| "overrun limit mb (c # w) \<longleftrightarrow>
     limit < backlog mb (c # w) \<or> \<not> connects mb c \<and> overrun limit mb w"

text \<open>The daemon keeps at most \<open>limit\<close> messages for a client. When one more is due it ends the
  session and drops what it has kept: what the client can still read lacks at least one message.\<close>

definition gives_up :: "spread_api \<Rightarrow> nat \<Rightarrow> bool" where
  "gives_up api limit \<longleftrightarrow> (\<forall>w mb. overrun limit mb w \<longrightarrow> 0 \<le> rc_ret (SP_receive api w mb) \<longrightarrow>
     Suc (read_count mb w) < incoming_count mb w)"

text \<open>Apart from that it takes what it is given, a new connection has a mailbox of its own, and what
  is received is what was sent, which in this test is for one group.\<close>

fun only_to :: "string \<Rightarrow> spread_call \<Rightarrow> bool" where
  "only_to grp (SpMulticast m s g d r) \<longleftrightarrow> g = grp"
| "only_to grp (SpMultigroupMulticast m s gs d r) \<longleftrightarrow> set gs = {grp}"
| "only_to grp c \<longleftrightarrow> True"

definition serves :: "spread_api \<Rightarrow> string \<Rightarrow> bool" where
  "serves api grp \<longleftrightarrow> length grp < MAX_GROUP_NAME api
     \<and> (\<forall>w d. case SP_connect api w d of (ret, mb, pg) \<Rightarrow>
          ret = ACCEPT_SESSION api \<and> c_str pg \<noteq> grp \<and> \<not> in_session (ACCEPT_SESSION api) mb w)
     \<and> (\<forall>w m g. SP_join api w m g = 0)
     \<and> (\<forall>w m s g d. 0 \<le> SP_multicast api w m s g d)
     \<and> (\<forall>w mb. list_all (only_to grp) w \<longrightarrow> 0 \<le> rc_ret (SP_receive api w mb) \<longrightarrow>
          (let rc = SP_receive api w mb
           in Is_regular_mess api (rc_service rc) \<and> rc_numGroups rc = 1 \<and> c_str (rc_groups rc 0) = grp))"

section \<open>The client is told\<close>

text \<open>The sender's loop ends without an exception and its messages are waiting.\<close>

definition flooding :: "string \<Rightarrow> spread_connection \<Rightarrow> history \<Rightarrow> bool" where
  "flooding grp r w \<longleftrightarrow> grp \<in> joined (mailbox r) w \<and> list_all (only_to grp) w \<and> read_count (mailbox r) w = 0"

lemma send_times_floods:
  assumes "serves api grp" and "nul_free grp" and "getGroups m = [grp]" and "connected c"
    and "mailbox c \<noteq> mailbox r" and "flooding grp r w"
  shows "\<exists>w'. send_times api dbg n m (c, w) = (Inr (), (c, w')) \<and> flooding grp r w'
     \<and> incoming_count (mailbox r) w' = incoming_count (mailbox r) w + n"
  using assms(6)
proof (induction n arbitrary: w)
  case 0
  then show ?case by simp
next
  case (Suc n)
  obtain s r' where send: "conn_send api dbg m (c, w)
      = (Inr (), (c, SpMulticast (mailbox c) s grp (getData m) r' # w))" and "0 \<le> r'"
    using assms(1-4) by (auto simp: conn_send_def send_result_def serves_def Let_def not_less)
  let ?w = "SpMulticast (mailbox c) s grp (getData m) r' # w"
  have "flooding grp r ?w" "incoming_count (mailbox r) ?w = Suc (incoming_count (mailbox r) w)"
    using Suc.prems assms(5) \<open>0 \<le> r'\<close> by (simp_all add: flooding_def)
  with Suc.IH [of ?w] send show ?case by auto
qed

text \<open>The reader never gets all of them: before the last one is due, \<open>receive\<close> throws.\<close>

lemma receive_times_throws:
  assumes "serves api grp" and "gives_up api limit" and "connected c" and "privateGroup c \<noteq> grp"
    and "list_all (only_to grp) w" and "overrun limit (mailbox c) w" and "0 < k"
    and "read_count (mailbox c) w + k = incoming_count (mailbox c) w"
  shows "\<exists>text. fst (receive_times api dbg k (m, (c, w))) = Inl (CommException text)"
  using assms(5-8)
proof (induction k arbitrary: m w)
  case 0
  then show ?case by simp
next
  case (Suc k)
  define rc where "rc = SP_receive api w (mailbox c)"
  let ?w = "SpReceive (mailbox c) rc # w"
  show ?case
  proof (cases "rc_ret rc < 0")
    case True
    then have "conn_receive api dbg m (c, w)
        = (Inl (CommException (''Spread receive error: '' @ spreadErrorString api (rc_ret rc))), (m, c, ?w))"
      using assms(3) by (simp add: conn_receive_def rc_def Let_def)
    then show ?thesis by simp
  next
    case False
    then have "Suc (read_count (mailbox c) w) < incoming_count (mailbox c) w"
      using assms(2) Suc.prems(2) unfolding gives_up_def rc_def by (meson not_less)
    then have "0 < k" using Suc.prems(4) by linarith
    have rc: "Is_regular_mess api (rc_service rc)" "rc_numGroups rc = 1" "c_str (rc_groups rc 0) = grp"
      using assms(1) Suc.prems(1) False by (auto simp: serves_def rc_def Let_def not_less)
    have len: "length grp \<le> MAX_GROUP_NAME api - 1" using assms(1) by (auto simp: serves_def)
    obtain m' where "conn_receive api dbg m (c, w) = (Inr (), (m', c, ?w))"
      using receive_regular [OF assms(3) rc_def, where m = m and dbg = dbg] rc False assms(4) len
      by (auto simp: SPREAD_MAX_GROUPS_def)
    moreover have "\<exists>text. fst (receive_times api dbg k (m', (c, ?w))) = Inl (CommException text)"
      using Suc.prems False \<open>0 < k\<close> by (intro Suc.IH) auto
    ultimately show ?thesis by simp
  qed
qed

lemma serves_activate:
  assumes "serves api grp" and "\<not> connected c"
  obtains c' d where "conn_activate api (c, w)
      = (Inr (), (c', SpConnect d (ACCEPT_SESSION api) (mailbox c') (privateGroup c') # w))"
    and "connected c'" and "privateGroup c' \<noteq> grp" and "\<not> in_session (ACCEPT_SESSION api) (mailbox c') w"
proof -
  obtain ret mb pg where con: "SP_connect api w (c_str (daemonName c)) = (ret, mb, pg)"
    by (metis prod.exhaust)
  have "case SP_connect api w (c_str (daemonName c)) of (ret, mb, pg) \<Rightarrow>
      ret = ACCEPT_SESSION api \<and> c_str pg \<noteq> grp \<and> \<not> in_session (ACCEPT_SESSION api) mb w"
    using assms(1) by (simp add: serves_def)
  then have "ret = ACCEPT_SESSION api" "c_str pg \<noteq> grp" "\<not> in_session (ACCEPT_SESSION api) mb w"
    using con by simp_all
  with con assms(2) show thesis
    by (intro that [of "c\<lparr>mailbox := mb, privateGroup := c_str pg, connected := True\<rparr>"])
      (simp_all add: conn_activate_def Let_def)
qed

lemma overrun_backlog: "limit < backlog mb w \<Longrightarrow> overrun limit mb w"
  by (cases w) (simp_all add: backlog_def)

lemma test_error_on_buffer_saturation_holds:
  assumes "serves api flood_group" and "gives_up api limit" and "limit < n"
  shows "test_error_on_buffer_saturation api dbg win32 junk junk' p payload n"
proof -
  let ?s = "conn_new win32 junk ''localhost'' p" and ?r = "conn_new win32 junk' ''localhost'' p"
  have new: "\<not> connected (conn_new win32 j ''localhost'' p)" for j by (simp add: conn_new_def)
  obtain s d where s: "conn_activate api (?s, [])
      = (Inr (), (s, [SpConnect d (ACCEPT_SESSION api) (mailbox s) (privateGroup s)]))" "connected s"
    by (rule serves_activate [OF assms(1) new])
  define w1 where "w1 = [SpConnect d (ACCEPT_SESSION api) (mailbox s) (privateGroup s)]"
  obtain r d' where r: "conn_activate api (?r, w1)
      = (Inr (), (r, SpConnect d' (ACCEPT_SESSION api) (mailbox r) (privateGroup r) # w1))"
      "connected r" "privateGroup r \<noteq> flood_group" "mailbox s \<noteq> mailbox r"
    by (rule serves_activate [OF assms(1) new, where w = w1]) (auto simp: w1_def split: if_splits)
  have grp: "nul_free flood_group" by (simp add: nul_free_def flood_group_def)
  define w2 where "w2 = SpJoin (mailbox r) flood_group 0
      # SpConnect d' (ACCEPT_SESSION api) (mailbox r) (privateGroup r) # w1"
  have join: "mm_join (conn_join api) flood_group
      (mm_new, (r, SpConnect d' (ACCEPT_SESSION api) (mailbox r) (privateGroup r) # w1))
      = (Inr (), ([(flood_group, 1)], (r, w2)))"
    using r(2) grp assms(1) by (simp add: mm_join_def mm_new_def conn_join_def w2_def serves_def Let_def)
  let ?m = "(setData payload (message_of_type REGULAR))\<lparr>mgroups := [flood_group]\<rparr>"
  have m: "addGroup (MAX_GROUP_NAME api) flood_group (setData payload (message_of_type REGULAR)) = (Inr (), ?m)"
    using assms(1) by (auto simp: addGroup_def serves_def message_accessors message_constructors insort_insert_key_def)
  have "flooding flood_group r w2" "incoming_count (mailbox r) w2 = 0"
    using r(4) by (simp_all add: flooding_def w2_def w1_def)
  then obtain w3 where w3: "send_times api dbg n ?m (s, w2) = (Inr (), (s, w3))"
      "flooding flood_group r w3" "incoming_count (mailbox r) w3 = n"
    using send_times_floods [OF assms(1) grp, of ?m s r w2 dbg n] s(2) r(4)
    by (auto simp: message_accessors)
  have "overrun limit (mailbox r) w3"
    using w3(2,3) assms(3) by (intro overrun_backlog) (simp add: backlog_def flooding_def)
  then obtain t where
    "fst (receive_times api dbg n (message_new, (r, w3))) = Inl (CommException t)"
    using receive_times_throws [OF assms(1,2) r(2,3), of w3 n dbg message_new] w3(2,3) assms(3)
    by (auto simp: flooding_def)
  then show ?thesis
    by (simp add: test_error_on_buffer_saturation_def s(1) [folded w1_def] r(1) join m w3(1))
qed

section \<open>A library with flow control\<close>

text \<open>Mailboxes are numbered; a client that is too slow gets \<open>CONNECTION_CLOSED\<close>. Only witnesses use it.\<close>

fun fresh_mailbox :: "history \<Rightarrow> int" where
  "fresh_mailbox [] = 7"
| "fresh_mailbox (SpConnect d r m p # w) = max (m + 1) (fresh_mailbox w)"
| "fresh_mailbox (c # w) = fresh_mailbox w"

lemma in_session_less: "in_session acc mb w \<Longrightarrow> mb < fresh_mailbox w"
  by (induction w rule: fresh_mailbox.induct) (auto split: if_splits)

definition limiting_api :: "nat \<Rightarrow> spread_api" where
  "limiting_api limit = sample_api\<lparr>
     SP_connect := (\<lambda>w d. (1, fresh_mailbox w, ''#r#localhost'')),
     SP_receive := (\<lambda>w mb. if overrun limit mb w then sample_message\<lparr>rc_ret := -8\<rparr>
       else sample_message\<lparr>rc_groups := (\<lambda>i. flood_group)\<rparr>)\<rparr>"

lemma limiting_api_gives_up: "gives_up (limiting_api limit) limit"
  by (simp add: gives_up_def limiting_api_def sample_message_def)

lemma limiting_api_serves: "serves (limiting_api limit) flood_group"
proof -
  have "\<not> in_session 1 (fresh_mailbox w) w" for w
    using in_session_less [of 1 "fresh_mailbox w" w] by blast
  then show ?thesis
    by (simp add: serves_def limiting_api_def sample_api_def sample_message_def flood_group_def
        c_str_def Let_def)
qed

end
