(* ===== verification/UnitTests.thy ===== *)
theory UnitTests
  imports Pruning BufferSaturation
begin

text \<open>
  The unit tests of the repository (\<open>AssemblyTest.cpp\<close>, \<open>SpreadMessageTest.cpp\<close>,
  \<open>MembershipManagerTest.cpp\<close>, \<open>SpreadConnectionTest.cpp\<close>) as functions on the model: each
  computes the conjunction of the test's expectations. The random strings, the readings of the
  clock and the answers of the daemon are arguments, so that one theorem covers every run of a test.
\<close>

section \<open>AssemblyTest.cpp\<close>

definition test_part :: "32 word \<Rightarrow> nat \<Rightarrow> nat \<Rightarrow> string \<Rightarrow> unit fragmented" where
  "test_part seqnum i dataParts s =
     \<lparr>fn_notification = \<lparr>nt_event_id = \<lparr>sender_id = [], sequence_number = seqnum\<rparr>, nt_scope = [],
        nt_wire_schema = [], nt_data = s, nt_meta = ()\<rparr>,
      fn_data_part = of_nat i, fn_num_data_parts = of_nat dataParts\<rparr>"

fun test_assembly_loop :: "bool \<Rightarrow> nat \<Rightarrow> nat \<Rightarrow> string \<Rightarrow> string list \<Rightarrow> unit assembly \<Rightarrow> bool" where
  "test_assembly_loop dbg i dataParts containedData [] a = True"
| "test_assembly_loop dbg i dataParts containedData (newString # ss) a =
     (case assembly_add dbg (test_part 0 i dataParts newString) a of
        (Inl ex, a1) \<Rightarrow> False
      | (Inr complete, a1) \<Rightarrow>
          (if i = dataParts - 1 then
             isComplete a1 \<and> complete
             \<and> (case getCompleteNotification dbg a1 of
                  (Inl ex, _) \<Rightarrow> False | (Inr n, _) \<Rightarrow> nt_data n = containedData @ newString)
           else \<not> isComplete a1)
          \<and> test_assembly_loop dbg (Suc i) dataParts (containedData @ newString) ss a1)"

definition test_assembly :: "bool \<Rightarrow> int \<Rightarrow> string \<Rightarrow> string list \<Rightarrow> bool" where
  "test_assembly dbg now initialString newStrings =
     (case assembly_new dbg now (test_part 0 0 5 initialString) of
        Inl ex \<Rightarrow> False
      | Inr a \<Rightarrow> \<not> isComplete a \<and> test_assembly_loop dbg 1 5 initialString newStrings a)"

text \<open>The three readings of the clock: at construction, right after it, after three seconds.\<close>

definition test_age :: "bool \<Rightarrow> int \<Rightarrow> int \<Rightarrow> int \<Rightarrow> string \<Rightarrow> bool" where
  "test_age dbg birth soon later initialString =
     (case assembly_new dbg birth (test_part 0 0 5 initialString) of
        Inl ex \<Rightarrow> False
      | Inr a \<Rightarrow> age soon a < 1 \<and> age later a \<ge> 3 \<and> age later a \<le> 5)"

definition expect_data :: "string \<Rightarrow> exn + unit notification option \<Rightarrow> bool" where
  "expect_data s r = (case r of Inr (Some n) \<Rightarrow> nt_data n = s | _ \<Rightarrow> False)"

definition expect_result :: "exn + unit notification option \<Rightarrow> bool" where
  "expect_result r = (case r of Inr (Some n) \<Rightarrow> True | _ \<Rightarrow> False)"

fun test_pool_loop ::
  "bool \<Rightarrow> int \<Rightarrow> nat \<Rightarrow> nat \<Rightarrow> string \<Rightarrow> string list \<Rightarrow> unit assembly_pool \<Rightarrow> bool" where
  "test_pool_loop dbg now i dataParts containedData [] p = True"
| "test_pool_loop dbg now i dataParts containedData (newString # ss) p =
     (case pool_add dbg now (test_part 0 i dataParts newString) p of
        (r, p1) \<Rightarrow>
          (if i = dataParts - 1 then expect_data (containedData @ newString) r else r = Inr None)
          \<and> test_pool_loop dbg now (Suc i) dataParts (containedData @ newString) ss p1)"

definition test_pool_assembly :: "bool \<Rightarrow> int \<Rightarrow> string \<Rightarrow> string \<Rightarrow> string list \<Rightarrow> bool" where
  "test_pool_assembly dbg now s1 initialString newStrings =
     (case default_pool of
        Inl ex \<Rightarrow> False
      | Inr p \<Rightarrow>
          (case pool_add dbg now (test_part 0 0 1 s1) p of
             (r, p1) \<Rightarrow> expect_data s1 r
               \<and> (case pool_add dbg now (test_part 0 0 5 initialString) p1 of
                    (r, p2) \<Rightarrow> r = Inr None
                      \<and> test_pool_loop dbg now 1 5 initialString newStrings p2)))"

text \<open>While a test sleeps, the pruning task is due some number of times.\<close>

definition sleep :: "(nat \<Rightarrow> int) list \<Rightarrow> unit assembly_pool \<Rightarrow> unit assembly_pool" where
  "sleep clocks p = fold prune_tick clocks p"

definition test_pruning_default_off ::
  "bool \<Rightarrow> int \<Rightarrow> (nat \<Rightarrow> int) list \<Rightarrow> int \<Rightarrow> string \<Rightarrow> string \<Rightarrow> bool" where
  "test_pruning_default_off dbg t0 clocks t1 initialString newString =
     (case pool_new 1 500 of
        Inl ex \<Rightarrow> False
      | Inr p \<Rightarrow>
          (case pool_add dbg t0 (test_part 0 0 2 initialString) p of
             (r, p1) \<Rightarrow> r = Inr None
               \<and> expect_result (fst (pool_add dbg t1 (test_part 0 1 2 newString) (sleep clocks p1)))))"

definition test_pruning ::
  "bool \<Rightarrow> int \<Rightarrow> (nat \<Rightarrow> int) list \<Rightarrow> int \<Rightarrow> string \<Rightarrow> string
     \<Rightarrow> int \<Rightarrow> (nat \<Rightarrow> int) list \<Rightarrow> int \<Rightarrow> string \<Rightarrow> string \<Rightarrow> bool" where
  "test_pruning dbg t0 clocks t1 initialString newString t2 clocks' t3 initialString' newString' =
     (case pool_new 1 500 of
        Inl ex \<Rightarrow> False
      | Inr p \<Rightarrow>
          (case pool_add dbg t0 (test_part 0 0 2 initialString) (setPruning True p) of
             (r, p1) \<Rightarrow> r = Inr None
               \<and> (case pool_add dbg t1 (test_part 0 1 2 newString) (sleep clocks p1) of
                    (r, p2) \<Rightarrow> r = Inr None
                      \<and> (case pool_add dbg t2 (test_part 1 0 2 initialString') (setPruning False p2) of
                           (r, p3) \<Rightarrow> r = Inr None
                             \<and> expect_result (fst (pool_add dbg t3 (test_part 1 1 2 newString')
                                 (sleep clocks' p3)))))))"

section \<open>SpreadMessageTest.cpp\<close>

definition expect_message :: "message_type \<Rightarrow> string \<Rightarrow> spread_message \<Rightarrow> bool" where
  "expect_message t s m \<longleftrightarrow>
     getType m = t \<and> getQOS m = UNRELIABLE \<and> getData m = s \<and> getGroups m = []"

definition test_construction :: bool where
  "test_construction \<longleftrightarrow> expect_message OTHER [] message_new
     \<and> expect_message MEMBERSHIP [] (message_of_type MEMBERSHIP)
     \<and> expect_message OTHER ''data'' (message_of_data ''data'')
     \<and> expect_message OTHER ''foo'' (message_of_cstring ''foo'')"

section \<open>MembershipManagerTest.cpp\<close>

definition roundtrip_ops :: "mm_op list" where
  "roundtrip_ops = [MJoin ''a'', MJoin ''a'', MJoin ''b'', MLeave ''b'', MLeave ''a'', MLeave ''a'',
     MJoin ''b'', MLeave ''b'']"

text \<open>No call throws, the one of \<open>activate\<close> included.\<close>

definition test_roundtrip :: "spread_api \<Rightarrow> bool \<Rightarrow> bool \<Rightarrow> int \<Rightarrow> 32 word \<Rightarrow> bool" where
  "test_roundtrip api dbg win32 junk spread_port =
     (case conn_activate api (conn_new win32 junk defaultHost spread_port, []) of
        (Inl ex, s) \<Rightarrow> False
      | (Inr _, s) \<Rightarrow>
          (\<forall>r \<in> set (fst (mm_run dbg (conn_join api) (conn_leave api) roundtrip_ops (mm_new, s))).
             r = Inr ()))"

section \<open>SpreadConnectionTest.cpp\<close>

definition expect_illegal_state :: "exn + 'a \<Rightarrow> bool" where
  "expect_illegal_state r = (case r of Inl (IllegalStateException text) \<Rightarrow> True | _ \<Rightarrow> False)"

definition test_activation_state_checks ::
  "spread_api \<Rightarrow> bool \<Rightarrow> bool \<Rightarrow> int \<Rightarrow> 32 word \<Rightarrow> bool" where
  "test_activation_state_checks api dbg win32 junk spread_port =
     (let con = (conn_new win32 junk ''localhost'' spread_port, []);
          sendMsg = snd (addGroup (MAX_GROUP_NAME api) ''blubb'' (message_of_cstring ''foo''))
      in expect_illegal_state (fst (conn_send api dbg sendMsg con))
       \<and> expect_illegal_state (fst (conn_receive api dbg message_new con))
       \<and> expect_illegal_state (fst (conn_interruptReceive api con))
       \<and> expect_illegal_state (fst (conn_deactivate con))
       \<and> (case conn_activate api con of
            (Inl ex, con1) \<Rightarrow> False
          | (Inr _, con1) \<Rightarrow> expect_illegal_state (fst (conn_activate api con1))))"

definition test_deactivate_destructor_not_required :: "bool \<Rightarrow> int \<Rightarrow> 32 word \<Rightarrow> bool" where
  "test_deactivate_destructor_not_required win32 junk spread_port =
     (fst (conn_destroy (conn_new win32 junk ''localhost'' spread_port, [])) = Inr ())"

text \<open>
  \<open>receiveTester\<close>, for at most \<open>k\<close> messages: it is ended by an interruption or by a connection that is not
  active; any other exception leaves it. \<open>None\<close> is a tester that still receives.
\<close>

fun receive_tester ::
  "spread_api \<Rightarrow> bool \<Rightarrow> nat \<Rightarrow> spread_message \<times> conn_state \<Rightarrow> ((exn + unit) \<times> conn_state) option" where
  "receive_tester api dbg 0 st = None"
| "receive_tester api dbg (Suc k) (m, s) =
     (case conn_receive api dbg m s of
        (Inr _, (m', s')) \<Rightarrow> receive_tester api dbg k (m', s')
      | (Inl ThreadInterrupted, (m', s')) \<Rightarrow> Some (Inr (), s')
      | (Inl (IllegalStateException text), (m', s')) \<Rightarrow> Some (Inr (), s')
      | (Inl ex, (m', s')) \<Rightarrow> Some (Inl ex, s'))"

text \<open>The thread may read the wake-up message of the first \<open>interruptReceive\<close> before the second one is sent
  (\<open>early\<close>) or after it.\<close>

definition test_interrupt_receive ::
  "spread_api \<Rightarrow> bool \<Rightarrow> bool \<Rightarrow> bool \<Rightarrow> int \<Rightarrow> 32 word \<Rightarrow> bool" where
  "test_interrupt_receive api dbg early win32 junk spread_port =
     (case conn_activate api (conn_new win32 junk ''localhost'' spread_port, []) of
        (Inl ex, con) \<Rightarrow> False
      | (Inr _, con) \<Rightarrow>
          (case conn_interruptReceive api con of
             (Inl ex, con1) \<Rightarrow> False
           | (Inr _, con1) \<Rightarrow>
               (case (if early
                      then (case receive_tester api dbg 1 (message_new, con1) of
                              Some (Inr _, con2) \<Rightarrow> Some (conn_interruptReceive api con2)
                            | _ \<Rightarrow> None)
                      else (case conn_interruptReceive api con1 of
                              (Inl ex, con2) \<Rightarrow> None
                            | (Inr _, con2) \<Rightarrow> receive_tester api dbg 1 (message_new, con2))) of
                  Some (Inr _, con3) \<Rightarrow> fst (conn_deactivate con3) = Inr ()
                | _ \<Rightarrow> False)))"

section \<open>The tests hold\<close>

lemma test_part_simps [simp]:
  "fn_data_part (test_part q i k s) = of_nat i" "fn_num_data_parts (test_part q i k s) = of_nat k"
  "nt_data (fn_notification (test_part q i k s)) = s"
  by (simp_all add: test_part_def)

lemma test_part_key: "pool_key (test_part q i k s) = pool_key (test_part q j l t)"
  by (simp add: pool_key_def test_part_def)

lemma test_part_other_key: "pool_key (test_part 0 i k s) \<noteq> pool_key (test_part 1 j l t)"
  by (simp add: pool_key_def test_part_def)

lemma five_parts: "replicate 5 x = [x, x, x, x, x]"
  by (simp add: numeral_eq_Suc)

lemma length_four: "length ds = 4 \<longleftrightarrow> (\<exists>a b c d. ds = [a, b, c, d])"
  by (auto simp: numeral_eq_Suc length_Suc_conv)

lemma test_assembly_holds:
  assumes "length ds = 4"
  shows "test_assembly dbg now d0 ds"
proof -
  obtain a b c d where "ds = [a, b, c, d]" using assms by (auto simp: length_four)
  then show ?thesis
    by (simp add: test_assembly_def assembly_new_def assembly_add_def isComplete_def five_parts
        getCompleteNotification_def Let_def)
qed

lemma test_age_holds:
  assumes "birth \<le> soon" and "soon - birth < 1000000"
    and "3000000 \<le> later - birth" and "later - birth < 6000000"
  shows "test_age dbg birth soon later s"
proof -
  have "frag_index (test_part 0 0 5 s) < frag_total (test_part 0 0 5 s)" by (simp add: frag_defs)
  then obtain a where a: "assembly_new dbg birth (test_part 0 0 5 s) = Inr a" and "asm_inv a"
      and "length (store a) = frag_total (test_part 0 0 5 s)"
      and "asm_parts a = [frag_index (test_part 0 0 5 s) \<mapsto> test_part 0 0 5 s]"
      and b: "birthTime a = birth"
    by (rule assembly_new_ok)
  have "uint (age soon a) = (soon - birth) div 1000000"
    using assms b by (intro age_nonneg [of a soon, unfolded b]) auto
  moreover have "uint (age later a) = (later - birth) div 1000000"
    using assms b by (intro age_nonneg [of a later, unfolded b]) auto
  moreover have "(soon - birth) div 1000000 = 0" using assms by simp
  moreover have "3 \<le> (later - birth) div 1000000" "(later - birth) div 1000000 \<le> 5"
    using assms by linarith+
  ultimately show ?thesis
    using a by (simp add: test_age_def word_less_alt word_le_def)
qed

lemma test_pool_assembly_holds:
  assumes "length ds = 4"
  shows "test_pool_assembly dbg now s1 d0 ds"
proof -
  obtain a b c d where ds: "ds = [a, b, c, d]" using assms by (auto simp: length_four)
  define K where "K = pool_key (test_part 0 0 5 d0)"
  have key: "pool_key (test_part 0 i k s) = K" for i k s
    unfolding K_def by (rule test_part_key)
  show ?thesis
    unfolding ds
    by (simp add: test_pool_assembly_def default_pool_def pool_new_def pool_add_def key Let_def
        assembly_new_def assembly_add_def finish_assembly_def isComplete_def five_parts
        getCompleteNotification_def expect_data_def)
qed

text \<open>Sleeping with the task off changes nothing; with the task on the only entry may go, and is gone
  when one execution saw it older than a second.\<close>

lemma sleep_off:
  assumes "pruningTask p = None \<or> (\<exists>t. pruningTask p = Some t \<and> cancelled t)"
  shows "sleep clocks p = p"
proof -
  have "prune_tick c p = p" for c using assms by (auto simp: prune_tick_def)
  then show ?thesis by (induction clocks) (simp_all add: sleep_def)
qed

lemma sleep_on:
  assumes "pruningTask p = Some t" and "\<not> cancelled t" and "pool p = [(k, a)] \<or> pool p = []"
    and "pool p = [] \<or> (\<exists>c \<in> set clocks. age (c 0) a > maxAge t)"
  shows "sleep clocks p = p\<lparr>pool := []\<rparr>"
  using assms
proof (induction clocks arbitrary: p)
  case Nil
  then show ?case by (simp add: sleep_def)
next
  case (Cons c clocks)
  let ?p = "prune_tick c p"
  have "?p = p\<lparr>pool := if pool p = [] \<or> age (c 0) a > maxAge t then [] else [(k, a)]\<rparr>"
    using Cons.prems by (auto simp: prune_tick_def)
  moreover from this have "sleep clocks ?p = ?p\<lparr>pool := []\<rparr>"
    using Cons.prems by (intro Cons.IH) auto
  ultimately show ?case by (simp add: sleep_def)
qed

definition half :: "int \<Rightarrow> nat \<Rightarrow> unit fragmented \<Rightarrow> unit assembly" where
  "half now i f = \<lparr>receivedParts = 1, store = [None, None][i := Some f], birthTime = now\<rparr>"

lemma two_parts: "replicate 2 x = [x, x]"
  by (simp add: numeral_eq_Suc)

lemma add_first_half:
  assumes "map_of (pool p) (pool_key (test_part q i 2 s)) = None" and "i < 2"
  shows "pool_add dbg now (test_part q i 2 s) p = (Inr None,
    p\<lparr>pool := AList.update (pool_key (test_part q i 2 s)) (half now i (test_part q i 2 s)) (pool p)\<rparr>)"
proof -
  have "i = 0 \<or> i = 1" using assms(2) by auto
  then show ?thesis
    using assms(1) by (auto simp: pool_add_def assembly_new_def assembly_add_def finish_assembly_def
        isComplete_def two_parts half_def Let_def)
qed

lemma add_second_half:
  assumes "map_of (pool p) (pool_key (test_part q 1 2 s)) = Some (half now 0 (test_part q 0 2 s'))"
  shows "expect_result (fst (pool_add dbg t (test_part q 1 2 s) p))"
  using assms
  by (simp add: pool_add_def assembly_add_def finish_assembly_def isComplete_def half_def
      getCompleteNotification_def expect_result_def Let_def)

lemma test_pruning_default_off_holds: "test_pruning_default_off dbg t0 clocks t1 s s'"
proof -
  let ?p = "\<lparr>pool = [], pruningAgeS = 1, pruningIntervalMs = 500, pruningTask = None\<rparr>
    :: unit assembly_pool"
  let ?f = "test_part 0 0 2 s"
  have first: "pool_add dbg t0 ?f ?p = (Inr None, ?p\<lparr>pool := [(pool_key ?f, half t0 0 ?f)]\<rparr>)"
    using add_first_half [of ?p 0 0 s dbg t0] by simp
  have slept: "sleep clocks (?p\<lparr>pool := [(pool_key ?f, half t0 0 ?f)]\<rparr>)
      = ?p\<lparr>pool := [(pool_key ?f, half t0 0 ?f)]\<rparr>"
    by (rule sleep_off) simp
  have "expect_result (fst (pool_add dbg t1 (test_part 0 1 2 s')
      (?p\<lparr>pool := [(pool_key ?f, half t0 0 ?f)]\<rparr>)))"
    by (rule add_second_half [of _ _ _ t0 s]) (simp add: test_part_key [of 0 0 2 s 1 2 s'])
  then show ?thesis
    using first slept by (simp add: test_pruning_default_off_def pool_new_def)
qed

text \<open>The two and a half seconds of sleep: one execution reads the clock two seconds later.\<close>

lemma test_pruning_holds:
  assumes "c \<in> set clocks" and "2000000 \<le> c 0 - t0" and "(c 0 - t0) div 1000000 < 2 ^ 32"
  shows "test_pruning dbg t0 clocks t1 d0 d1 t2 clocks' t3 d2 d3"
proof -
  let ?p = "\<lparr>pool = [], pruningAgeS = 1, pruningIntervalMs = 500, pruningTask = None\<rparr>
    :: unit assembly_pool"
  let ?t = "\<lparr>maxAge = 1, intervalMs = 500, cancelled = False\<rparr>"
  let ?on = "?p\<lparr>pruningTask := Some ?t\<rparr>"
  let ?off = "?p\<lparr>pruningTask := Some (?t\<lparr>cancelled := True\<rparr>)\<rparr>"
  let ?f = "test_part 0 0 2 d0" and ?g = "test_part 0 1 2 d1" and ?h = "test_part 1 0 2 d2"
  have on: "setPruning True ?p = ?on" by (simp add: setPruning_def isPruning_def)
  have first: "pool_add dbg t0 ?f ?on = (Inr None, ?on\<lparr>pool := [(pool_key ?f, half t0 0 ?f)]\<rparr>)"
    using add_first_half [of ?on 0 0 d0 dbg t0] by simp
  have "uint (age (c 0) (half t0 0 ?f)) = (c 0 - t0) div 1000000"
    using assms(2,3) age_nonneg [of "half t0 0 ?f" "c 0"] by (simp add: half_def)
  moreover have "2 \<le> (c 0 - t0) div 1000000" using assms(2) by linarith
  ultimately have old: "age (c 0) (half t0 0 ?f) > 1" by (simp add: word_less_alt)
  have slept: "sleep clocks (?on\<lparr>pool := [(pool_key ?f, half t0 0 ?f)]\<rparr>) = ?on"
    using sleep_on [of "?on\<lparr>pool := [(pool_key ?f, half t0 0 ?f)]\<rparr>" ?t "pool_key ?f" "half t0 0 ?f" clocks]
      old assms(1) by auto
  have second: "pool_add dbg t1 ?g ?on = (Inr None, ?on\<lparr>pool := [(pool_key ?g, half t1 1 ?g)]\<rparr>)"
    using add_first_half [of ?on 0 1 d1 dbg t1] by simp
  have cancelled: "setPruning False (?on\<lparr>pool := m\<rparr>) = ?off\<lparr>pool := m\<rparr>" for m
    by (simp add: setPruning_def isPruning_def)
  let ?p2 = "?off\<lparr>pool := [(pool_key ?g, half t1 1 ?g)]\<rparr>"
  let ?p3 = "?off\<lparr>pool := [(pool_key ?g, half t1 1 ?g), (pool_key ?h, half t2 0 ?h)]\<rparr>"
  have other: "pool_key ?g \<noteq> pool_key ?h" by (rule test_part_other_key)
  have third: "pool_add dbg t2 ?h ?p2 = (Inr None, ?p3)"
    using add_first_half [of ?p2 1 0 d2 dbg t2] other by simp
  have awake: "sleep clocks' ?p3 = ?p3" by (rule sleep_off) simp
  have last: "expect_result (fst (pool_add dbg t3 (test_part 1 1 2 d3) ?p3))"
    by (rule add_second_half [of _ _ _ t2 d2])
      (use other test_part_key [of 1 1 2 d3 0 2 d2] in simp)
  show ?thesis
    unfolding test_pruning_def pool_new_def
    using on first slept second cancelled third awake last by simp
qed

lemma test_construction_holds: "test_construction"
  by (simp add: test_construction_def expect_message_def message_accessors message_constructors
      c_str_def)

text \<open>A daemon that accepts connections, joins and leaves.\<close>

definition accepting :: "spread_api \<Rightarrow> bool" where
  "accepting api \<longleftrightarrow> (\<forall>w d. fst (SP_connect api w d) = ACCEPT_SESSION api)
     \<and> (\<forall>w m g. SP_join api w m g = 0) \<and> (\<forall>w m g. SP_leave api w m g = 0)"

lemma accepting_activate:
  assumes "accepting api" and "\<not> connected c"
  obtains c' w' where "conn_activate api (c, w) = (Inr (), (c', w'))" and "connected c'"
proof -
  obtain ret mb pg where con: "SP_connect api w (c_str (daemonName c)) = (ret, mb, pg)"
    by (metis prod.exhaust)
  have "ret = ACCEPT_SESSION api" using assms(1) con by (metis accepting_def fst_conv)
  with con assms(2) show thesis
    by (intro that [of "c\<lparr>mailbox := mb, privateGroup := c_str pg, connected := True\<rparr>"])
      (simp_all add: conn_activate_def Let_def)
qed

lemma test_roundtrip_holds:
  assumes "accepting api"
  shows "test_roundtrip api dbg win32 junk p"
proof -
  have new: "\<not> connected (conn_new win32 junk defaultHost p)" by (simp add: conn_new_def)
  obtain c w where act: "conn_activate api (conn_new win32 junk defaultHost p, []) = (Inr (), (c, w))"
    and c: "connected c"
    by (rule accepting_activate [OF assms new])
  then show ?thesis
    using assms by (simp add: test_roundtrip_def roundtrip_ops_def mm_new_def mm_join_def mm_leave_def
        conn_join_def conn_leave_def accepting_def Let_def)
qed

lemma test_activation_state_checks_holds:
  assumes "accepting api"
  shows "test_activation_state_checks api dbg win32 junk p"
proof -
  have new: "\<not> connected (conn_new win32 junk ''localhost'' p)" by (simp add: conn_new_def)
  obtain c w where "conn_activate api (conn_new win32 junk ''localhost'' p, []) = (Inr (), (c, w))"
    and "connected c"
    by (rule accepting_activate [OF assms new])
  then show ?thesis
    using new by (simp add: test_activation_state_checks_def expect_illegal_state_def conn_defs Let_def
        del: conn_activate_def) (simp add: conn_activate_def)
qed

text \<open>A daemon that returns what a connection sends to its own private group.\<close>

definition wakes :: "spread_api \<Rightarrow> bool" where
  "wakes api \<longleftrightarrow> (\<forall>w mb g ret. nul_free g \<longrightarrow>
     (let rc = SP_receive api (SpMulticast mb (RELIABLE_MESS api) g [] ret # w) mb
     in 0 \<le> rc_ret rc \<and> Is_regular_mess api (rc_service rc) \<and> rc_numGroups rc = 1
      \<and> c_str (rc_groups rc 0) = g))"

lemma tester_interrupted:
  assumes "wakes api" and "connected c" and "nul_free (privateGroup c)"
  shows "\<exists>s. receive_tester api dbg 1
      (m, (c, SpMulticast (mailbox c) (RELIABLE_MESS api) (c_str (privateGroup c)) [] ret # w)) = Some (Inr (), (c, s))"
proof -
  let ?w = "SpMulticast (mailbox c) (RELIABLE_MESS api) (c_str (privateGroup c)) [] ret # w"
  have "\<exists>s. conn_receive api dbg m (c, ?w) = (Inl ThreadInterrupted, (m, c, s))"
    using assms unfolding receive_interrupted_iff wakes_def Let_def by auto
  then show ?thesis by auto
qed

lemma test_interrupt_receive_holds:
  assumes "accepting api" and "wakes api"
  shows "test_interrupt_receive api dbg early win32 junk p"
proof -
  have new: "\<not> connected (conn_new win32 junk ''localhost'' p)" by (simp add: conn_new_def)
  obtain c w where act: "conn_activate api (conn_new win32 junk ''localhost'' p, []) = (Inr (), (c, w))"
    and c: "connected c"
    by (rule accepting_activate [OF assms(1) new])
  have group: "nul_free (privateGroup c)" using act new
    by (auto simp: conn_activate_def Let_def nul_free_def c_str_def split: prod.splits if_splits dest: set_takeWhileD)
  define sent1 where "sent1 w' = SpMulticast (mailbox c) (RELIABLE_MESS api) (c_str (privateGroup c)) []
      (SP_multicast api w' (mailbox c) (RELIABLE_MESS api) (c_str (privateGroup c)) []) # w'" for w'
  have interrupt: "conn_interruptReceive api (c, w') = (Inr (), (c, sent1 w'))" for w'
    using c by (simp add: conn_interruptReceive_def Let_def sent1_def)
  have tester: "\<exists>s. receive_tester api dbg 1 (m, (c, sent1 w')) = Some (Inr (), (c, s))" for m w'
    unfolding sent1_def by (rule tester_interrupted [OF assms(2) c group])
  obtain s1 where s1: "receive_tester api dbg 1 (message_new, (c, sent1 w)) = Some (Inr (), (c, s1))"
    using tester by blast
  obtain s2 where s2: "receive_tester api dbg 1 (message_new, (c, sent1 (sent1 w))) = Some (Inr (), (c, s2))"
    using tester by blast
  have "fst (conn_deactivate (c, w')) = Inr ()" for w' using c by (simp add: conn_deactivate_def)
  then show ?thesis
    by (cases early) (simp_all add: test_interrupt_receive_def act interrupt s1 s2 del: receive_tester.simps One_nat_def)
qed

text \<open>C39 The unit tests of the repository hold on the model, for every choice of the random strings
  and of the address, in debug and release builds: assembling five parts, the age of an assembly
  after a sleep, pooling single and multi part notifications, pruning off by default, pruning on and
  off again, the constructors of messages, joining and leaving groups, and the checks of the
  activation state, an interrupted reader, and the exception of a connection that the daemon gives up
  because it does not read; given a clock that runs forward, a pruning task that is executed at least once
  while the test sleeps, and a daemon that accepts the calls
  (\<open>flooded\<close> is the one with flow control, with room for fewer messages than the test sends).\<close>

theorem unit_tests_hold:
  assumes "length ds = 4" and "birth \<le> soon" and "soon - birth < 1000000"
    and "3000000 \<le> later - birth" and "later - birth < 6000000"
    and "c \<in> set clocks" and "2000000 \<le> c 0 - t0" and "(c 0 - t0) div 1000000 < 2 ^ 32"
    and "accepting api" and "wakes api"
    and "serves flooded flood_group" and "gives_up flooded limit" and "limit < 25000"
  shows "test_assembly dbg birth d0 ds \<and> test_age dbg birth soon later d0
    \<and> test_pool_assembly dbg birth d1 d0 ds
    \<and> test_pruning_default_off dbg t0 clocks t1 d0 d1
    \<and> test_pruning dbg t0 clocks t1 d0 d1 t2 clocks' t3 d2 d3
    \<and> test_construction
    \<and> test_roundtrip api dbg win32 junk p \<and> test_activation_state_checks api dbg win32 junk p
    \<and> test_deactivate_destructor_not_required win32 junk p
    \<and> test_interrupt_receive api dbg early win32 junk p
    \<and> test_error_on_buffer_saturation flooded dbg win32 junk junk' p payload 25000"
  using test_assembly_holds [OF assms(1)] test_age_holds [OF assms(2-5)]
    test_pool_assembly_holds [OF assms(1)] test_pruning_default_off_holds
    test_pruning_holds [OF assms(6-8)] test_construction_holds
    test_roundtrip_holds [OF assms(9)] test_activation_state_checks_holds [OF assms(9)]
    test_interrupt_receive_holds [OF assms(9,10)]
    test_error_on_buffer_saturation_holds [OF assms(11-13)]
  by (simp add: test_deactivate_destructor_not_required_def conn_destroy_def conn_new_def)

definition waking_api :: spread_api where
  "waking_api = sample_api\<lparr>SP_receive := (\<lambda>w mb. case w of
     SpMulticast mb' service g d ret # w' \<Rightarrow> sample_message\<lparr>rc_groups := (\<lambda>i. g)\<rparr>
   | _ \<Rightarrow> sample_message)\<rparr>"

theorem unit_tests_hold_witness:
  "test_assembly True 0 ''abc'' [''d'', ''e'', ''f'', ''g'']
    \<and> test_pruning True 0 [\<lambda>i. 2500000] 2500001 ''a'' ''b'' 2500002 [] 5000000 ''c'' ''d''
    \<and> test_roundtrip waking_api True False 7 4803 \<and> test_interrupt_receive waking_api True True False 7 4803
    \<and> test_error_on_buffer_saturation (limiting_api 1000) True False 7 7 4803 ''abc'' 25000"
proof -
  have lib: "accepting waking_api" "wakes waking_api"
    by (simp_all add: accepting_def wakes_def waking_api_def sample_api_def sample_message_def Let_def)
  note flow = limiting_api_serves [of 1000] limiting_api_gives_up [of 1000]
  show ?thesis
    using unit_tests_hold [of "[''d'', ''e'', ''f'', ''g'']" 0 1 3000000 "\<lambda>i. 2500000" "[\<lambda>i. 2500000]" 0
        waking_api "limiting_api 1000" 1000 True "''abc''"] lib flow
      unit_tests_hold [of "[''d'', ''e'', ''f'', ''g'']" 0 1 3000000 "\<lambda>i. 2500000" "[\<lambda>i. 2500000]" 0
        waking_api "limiting_api 1000" 1000 True "''a''" "''b''" 2500001 2500002 "[]" 5000000 "''c''" "''d''"
        False 7 4803 True 7 "''abc''"]
    by simp
qed

end
