(* ===== verification/IntegrationTests.thy ===== *)
theory IntegrationTests
  imports PubSub UnitTests
begin

text \<open>
  The integration tests (\<open>ConnectorTest.cpp\<close>) of single connectors, and the informer task
  (\<open>InformerTask.cpp\<close>) of those that send events from one process to others, with the events it creates.
\<close>

section \<open>Connectors alone\<close>

text \<open>The mock bus of \<open>testIsolatedConstruction\<close> records the calls it gets.\<close>

datatype 'sc mock_call = MockAddSink 'sc nat | MockRemoveSink 'sc nat

definition mock_addSink :: "'sc \<Rightarrow> nat \<Rightarrow> 'sc mock_call list \<Rightarrow> (unit, 'sc mock_call list) outcome" where
  "mock_addSink scope sink calls = (Inr (), calls @ [MockAddSink scope sink])"

definition mock_removeSink :: "'sc \<Rightarrow> nat \<Rightarrow> 'sc mock_call list \<Rightarrow> (unit, 'sc mock_call list) outcome" where
  "mock_removeSink scope sink calls = (Inr (), calls @ [MockRemoveSink scope sink])"

text \<open>An in-connector is created, activated on a scope and destroyed; the out-connector has no operation on
  sinks, its calls cannot change the mock.\<close>

definition test_isolated_construction :: "bool \<Rightarrow> 'sc \<Rightarrow> 'sc \<Rightarrow> nat \<Rightarrow> bool" where
  "test_isolated_construction dbg root foo self =
     ((case ic_setScope dbg foo (ic_new root :: ('sc, unit, unit) in_connector) of
         (Inl ex, _) \<Rightarrow> False
       | (Inr _, ic) \<Rightarrow>
           (case andThen (ic_activate mock_addSink self (ic, [])) (\<lambda>_. ic_destroy mock_removeSink self) of
              (Inl ex, _) \<Rightarrow> False
            | (Inr _, (_, calls)) \<Rightarrow> calls = [MockAddSink foo self, MockRemoveSink foo self]))
    \<and> fst (andThen (oc_activate (oc_default :: 'sc out_connector)) (\<lambda>_. oc_destroy)) = Inr ())"

text \<open>\<open>testConnectingConstruction\<close> and \<open>testConnection\<close>: each connector has an activated bus of its own.\<close>

definition connecting_bus ::
  "('d, 'sc) dispatcher_api \<Rightarrow> spread_api \<Rightarrow> bool \<Rightarrow> int \<Rightarrow> 32 word \<Rightarrow> 'z \<Rightarrow> (unit, (unit, 'd, 'z) bus_state) outcome" where
  "connecting_bus da api win32 junk spread_port z =
     bus_activate api (bus_new da (conn_new win32 junk defaultHost spread_port), [], z)"

definition test_connection ::
  "'sc scope_api \<Rightarrow> ('d, 'sc) dispatcher_api \<Rightarrow> spread_api \<Rightarrow> bool \<Rightarrow> bool \<Rightarrow> int \<Rightarrow> 32 word \<Rightarrow> 'sc \<Rightarrow> 'sc \<Rightarrow> nat \<Rightarrow> bool" where
  "test_connection sa da api dbg win32 junk spread_port root foo self =
     (case connecting_bus da api win32 junk spread_port () of
        (Inl ex, _) \<Rightarrow> False
      | (Inr _, st) \<Rightarrow>
          (case ic_setScope dbg foo (ic_new root :: ('sc, unit, unit) in_connector) of
             (Inl ex, _) \<Rightarrow> False
           | (Inr _, ic) \<Rightarrow>
               fst (andThen (ic_activate (bus_addSink sa api da) self (ic, st))
                      (\<lambda>_. ic_deactivate (bus_removeSink sa api dbg da) self)) = Inr ()
             \<and> fst (andThen (oc_activate (oc_default :: 'sc out_connector)) (\<lambda>_. oc_deactivate)) = Inr ()))"

lemma test_isolated_construction_holds: "test_isolated_construction dbg root foo self"
  by (simp add: test_isolated_construction_def ic_setScope_def ic_new_def ic_activate_def ic_destroy_def
      ic_deactivate_def mock_addSink_def mock_removeSink_def oc_activate_def oc_destroy_def oc_deactivate_def
      oc_default_def oc_new_def base_activate_def base_deactivate_def)

lemma test_connection_holds:
  assumes "accepting api"
  shows "test_connection sa da api dbg win32 junk spread_port root foo self"
proof -
  have new: "\<not> connected (conn_new win32 junk defaultHost spread_port)" by (simp add: conn_new_def)
  obtain c w where act: "conn_activate api (conn_new win32 junk defaultHost spread_port, []) = (Inr (), (c, w))"
    and c: "connected c"
    by (rule accepting_activate [OF assms new])
  show ?thesis using assms c
    by (simp add: test_connection_def connecting_bus_def bus_activate_def bus_new_def act rt_new_def dh_new_def
        default_pool_def pool_new_def mm_new_def ic_setScope_def ic_new_def ic_activate_def ic_deactivate_def
        bus_addSink_def bus_removeSink_def mm_join_def mm_leave_def conn_join_def conn_leave_def accepting_def
        base_activate_def base_deactivate_def oc_activate_def oc_deactivate_def oc_default_def oc_new_def Let_def)
qed

section \<open>The informer task\<close>

record ('e, 'sc) informer_task =
  it_scope :: 'sc
  numEvents :: "32 word"
  sentEvents :: "32 word"
  it_events :: "'e list"
  it_data :: string
  it_id :: string
  it_cancelled :: bool

text \<open>What the task uses of \<open>Event\<close> and \<open>Scope\<close>: the constructor with \<open>setId\<close> and \<open>addCause\<close>, and \<open>concat\<close>.
  The constructor reads the clock (the creation time). A round has the readings of the clock at the
  creation and at the sending of its event, and the causes, which are drawn at random.\<close>

type_synonym round = "int \<times> int \<times> event_id list"

record ('e, 'sc) informer_api =
  ia_event :: "int \<Rightarrow> 'sc \<Rightarrow> string \<Rightarrow> event_id \<Rightarrow> event_id list \<Rightarrow> 'e"
  scope_concat :: "'sc \<Rightarrow> 'sc \<Rightarrow> 'sc"
  other_scope :: 'sc

definition it_new :: "'sc \<Rightarrow> 32 word \<Rightarrow> string \<Rightarrow> string \<Rightarrow> ('e, 'sc) informer_task" where
  "it_new scope n data uuid = \<lparr>it_scope = scope, numEvents = n, sentEvents = 0, it_events = [],
     it_data = data, it_id = uuid, it_cancelled = False\<rparr>"

definition it_event ::
  "('e, 'sc) informer_api \<Rightarrow> ('e, 'sc) informer_task \<Rightarrow> 32 word \<Rightarrow> int \<Rightarrow> event_id list \<Rightarrow> 'e" where
  "it_event ia t nr created causes =
     (let thisScope = (if nr mod 2 = 0 then scope_concat ia (other_scope ia) (it_scope t) else it_scope t)
      in ia_event ia created thisScope (it_data t) \<lparr>sender_id = it_id t, sequence_number = nr\<rparr> causes)"

definition it_execute ::
  "('e, 'sc) informer_api
     \<Rightarrow> (int \<Rightarrow> 'e \<Rightarrow> 'sc out_connector \<times> 'b \<Rightarrow> (unit, 'e \<times> 'sc out_connector \<times> 'b) outcome)
     \<Rightarrow> round \<Rightarrow> ('e, 'sc) informer_task \<times> 'sc out_connector \<times> 'b
     \<Rightarrow> (unit, ('e, 'sc) informer_task \<times> 'sc out_connector \<times> 'b) outcome" where
  "it_execute ia handle round st = (case (round, st) of ((created, now, causes), (t, s)) \<Rightarrow>
     let nr = sentEvents t + 1;
         t' = t\<lparr>sentEvents := nr\<rparr>
     in case handle now (it_event ia t nr created causes) s of
          (Inl ex, (e, s')) \<Rightarrow> (Inl ex, (t', s'))
        | (Inr _, (e, s')) \<Rightarrow>
            (Inr (), (t'\<lparr>it_events := (if nr mod 2 = 1 then it_events t @ [e] else it_events t),
               it_cancelled := it_cancelled t \<or> nr = 2 * numEvents t\<rparr>, s')))"

text \<open>The thread of the task for as many rounds as are given.\<close>

fun it_run ::
  "('e, 'sc) informer_api
     \<Rightarrow> (int \<Rightarrow> 'e \<Rightarrow> 'sc out_connector \<times> 'b \<Rightarrow> (unit, 'e \<times> 'sc out_connector \<times> 'b) outcome)
     \<Rightarrow> round list \<Rightarrow> ('e, 'sc) informer_task \<times> 'sc out_connector \<times> 'b
     \<Rightarrow> (unit, ('e, 'sc) informer_task \<times> 'sc out_connector \<times> 'b) outcome" where
  "it_run ia handle [] st = (Inr (), st)"
| "it_run ia handle (r # rounds) st =
     (if it_cancelled (fst st) then (Inr (), st)
      else andThen (it_execute ia handle r st) (\<lambda>_. it_run ia handle rounds))"

text \<open>The events it creates from round \<open>j\<close> on.\<close>

fun it_created ::
  "('e, 'sc) informer_api \<Rightarrow> ('e, 'sc) informer_task \<Rightarrow> nat \<Rightarrow> round list \<Rightarrow> (int \<times> 'e) list" where
  "it_created ia t j [] = []"
| "it_created ia t j ((created, now, causes) # rounds) =
     (now, it_event ia t (of_nat (Suc j)) created causes) # it_created ia t (Suc j) rounds"

definition odd_ones :: "nat \<Rightarrow> 'e list \<Rightarrow> 'e list" where
  "odd_ones j es = map snd (filter (\<lambda>x. odd (fst x)) (enumerate j es))"

lemma odd_ones_simps [simp]:
  "odd_ones j [] = []"
  "odd_ones j (e # es) = (if odd j then [e] else []) @ odd_ones (Suc j) es"
  by (simp_all add: odd_ones_def)

lemma word_odd:
  assumes "i < 2 ^ 32"
  shows "(of_nat i :: 32 word) mod 2 = 0 \<longleftrightarrow> even i" and "(of_nat i :: 32 word) mod 2 = 1 \<longleftrightarrow> odd i"
proof -
  have "unat ((of_nat i :: 32 word) mod 2) = i mod 2"
    using assms by (simp add: unat_mod_distrib unat_of_nat_32)
  then have "(of_nat i :: 32 word) mod 2 = 0 \<longleftrightarrow> i mod 2 = 0" "(of_nat i :: 32 word) mod 2 = 1 \<longleftrightarrow> i mod 2 = 1"
    by (metis unat_eq_zero unsigned_0, metis unat_1 word_unat_eq_iff)
  then show "(of_nat i :: 32 word) mod 2 = 0 \<longleftrightarrow> even i" "(of_nat i :: 32 word) mod 2 = 1 \<longleftrightarrow> odd i"
    by (simp_all add: even_iff_mod_2_eq_zero odd_iff_mod_2_eq_one)
qed

text \<open>A task for \<open>n\<close> events runs \<open>2 * n\<close> rounds: it publishes an event in each and keeps the odd ones.\<close>

lemma it_event_cong:
  "it_scope t = it_scope t' \<Longrightarrow> it_data t = it_data t' \<Longrightarrow> it_id t = it_id t' \<Longrightarrow>
     it_event ia t nr created causes = it_event ia t' nr created causes"
  by (simp add: it_event_def)

lemma it_created_cong:
  assumes "it_scope t = it_scope t'" "it_data t = it_data t'" "it_id t = it_id t'"
  shows "it_created ia t j rounds = it_created ia t' j rounds"
  by (induction rounds arbitrary: j) (simp_all add: split_paired_all it_event_cong [OF assms])

lemma it_run_cancelled: "it_cancelled (fst st) \<Longrightarrow> it_run ia handle rounds st = (Inr (), st)"
  by (cases rounds) simp_all

lemma it_run_publishes:
  assumes "it_run ia (oc_handle sa maxg ca ea dbg handle) rounds (t, s) = (Inr (), (t', s'))"
    and "sentEvents t = of_nat j" and "\<not> it_cancelled t" and "j < 2 * n" and "2 * n < 2 ^ 32"
    and "numEvents t = of_nat n" and "2 * n \<le> j + length rounds"
  shows "\<exists>es. publish_all sa maxg ca ea dbg handle (it_created ia t j (take (2 * n - j) rounds)) s = (Inr (), (es, s'))
    \<and> it_events t' = it_events t @ odd_ones (Suc j) es \<and> it_cancelled t' \<and> sentEvents t' = of_nat (2 * n)"
  using assms(1-4,6,7)
proof (induction rounds arbitrary: t s j)
  case Nil
  then show ?case by simp
next
  case (Cons r rounds)
  obtain created now causes where r: "r = (created, now, causes)" by (metis prod.exhaust)
  define m where "m = sentEvents t + 1"
  have m: "m = of_nat (Suc j)" using Cons.prems(2) by (simp add: m_def)
  have small: "Suc j < 2 ^ 32" using Cons.prems(4) assms(5) by simp
  obtain q e s1 where handle: "oc_handle sa maxg ca ea dbg handle now (it_event ia t m created causes) s = (q, (e, s1))"
    by (metis prod.exhaust)
  define t1 where "t1 = t\<lparr>sentEvents := m,
      it_events := (if m mod 2 = 1 then it_events t @ [e] else it_events t),
      it_cancelled := it_cancelled t \<or> m = 2 * numEvents t\<rparr>"
  have execute: "it_execute ia (oc_handle sa maxg ca ea dbg handle) r (t, s)
      = (case q of Inl ex \<Rightarrow> (Inl ex, (t\<lparr>sentEvents := m\<rparr>, s1)) | Inr _ \<Rightarrow> (Inr (), (t1, s1)))"
    by (simp add: it_execute_def r Let_def m_def [symmetric] handle t1_def split: sum.splits)
  have q: "q = Inr ()" using Cons.prems(1,3) execute by (cases q) simp_all
  have run: "it_run ia (oc_handle sa maxg ca ea dbg handle) rounds (t1, s1) = (Inr (), (t', s'))"
    using Cons.prems(1,3) execute q by simp
  have events: "it_events t1 = it_events t @ odd_ones (Suc j) [e]"
    using word_odd(2) [OF small] by (simp add: t1_def m)
  have last: "it_cancelled t1 \<longleftrightarrow> Suc j = 2 * n"
  proof -
    have "m = 2 * of_nat n \<longleftrightarrow> m = of_nat (2 * n)" by simp
    also have "\<dots> \<longleftrightarrow> Suc j = 2 * n" unfolding m
      using small assms(5) by (metis unat_of_nat_32)
    finally show ?thesis using Cons.prems(3,5) by (simp add: t1_def)
  qed
  show ?case
  proof (cases "Suc j = 2 * n")
    case True
    with last have "it_cancelled t1" by simp
    then have same: "t' = t1" "s' = s1" using run by (simp_all add: it_run_cancelled)
    have "publish_all sa maxg ca ea dbg handle (it_created ia t j [r]) s = (Inr (), ([e], s1))"
      by (simp add: r handle q m [symmetric] del: of_nat_Suc)
    moreover have "take (2 * n - j) (r # rounds) = [r]" using True by (simp add: take_Cons')
    moreover have "sentEvents t1 = of_nat (2 * n)" by (simp add: t1_def m True del: of_nat_Suc)
    ultimately show ?thesis using events \<open>it_cancelled t1\<close> same by (intro exI [of _ "[e]"]) simp
  next
    case False
    then have more: "\<not> it_cancelled t1" "Suc j < 2 * n" using last Cons.prems(4) by simp_all
    have t1: "sentEvents t1 = of_nat (Suc j)" "numEvents t1 = of_nat n"
      using Cons.prems(5) by (simp_all add: t1_def m)
    have len: "2 * n \<le> Suc j + length rounds" using Cons.prems(6) by simp
    obtain es where es: "publish_all sa maxg ca ea dbg handle (it_created ia t1 (Suc j) (take (2 * n - Suc j) rounds)) s1
        = (Inr (), (es, s'))" "it_events t' = it_events t1 @ odd_ones (Suc (Suc j)) es"
      "it_cancelled t'" "sentEvents t' = of_nat (2 * n)"
      using Cons.IH [OF run t1(1) more t1(2) len] by blast
    have "it_created ia t1 (Suc j) xs = it_created ia t (Suc j) xs" for xs
      by (rule it_created_cong) (simp_all add: t1_def)
    moreover have "take (2 * n - j) (r # rounds) = r # take (2 * n - Suc j) rounds"
      using Cons.prems(4) by (simp add: take_Cons')
    ultimately show ?thesis using es handle q events
      by (intro exI [of _ "e # es"]) (simp add: r m [symmetric] del: of_nat_Suc)
  qed
qed

section \<open>The events of an informer\<close>

lemma publish_all_events:
  "publish_all sa maxg ca ea dbg handle evs s = (Inr (), (es, s')) \<Longrightarrow>
     es = map (\<lambda>(now, ev). setSendTime ea now ev) evs"
proof (induction evs arbitrary: s es)
  case (Cons ev evs)
  obtain now event where ev: "ev = (now, event)" by (cases ev)
  obtain q e s1 where handle: "oc_handle sa maxg ca ea dbg handle now event s = (q, (e, s1))"
    by (metis prod.exhaust)
  have e: "e = setSendTime ea now event" using handle
    by (cases s) (auto simp: oc_handle_def Let_def split: prod.splits sum.splits)
  show ?case
    using Cons handle ev e by (cases q) (auto split: prod.splits)
qed simp

definition it_sent ::
  "('e, 'sc, 'm) event_api \<Rightarrow> ('e, 'sc) informer_api \<Rightarrow> ('e, 'sc) informer_task \<Rightarrow> nat
     \<Rightarrow> round list \<Rightarrow> 'e list" where
  "it_sent ea ia t j rounds = map (\<lambda>(now, ev). setSendTime ea now ev) (it_created ia t j rounds)"

lemma length_it_sent [simp]: "length (it_sent ea ia t j rounds) = length rounds"
  by (induction ia t j rounds rule: it_created.induct) (simp_all add: it_sent_def)

lemma it_sent_Cons [simp]:
  "it_sent ea ia t j [] = []"
  "it_sent ea ia t j ((created, now, causes) # rounds)
     = setSendTime ea now (it_event ia t (of_nat (Suc j)) created causes) # it_sent ea ia t (Suc j) rounds"
  by (simp_all add: it_sent_def)

lemma it_sent_form:
  assumes "e \<in> set (it_sent ea ia t j rounds)"
  shows "\<exists>created now sc eid causes. e = setSendTime ea now (ia_event ia created sc (it_data t) eid causes)
    \<and> sc \<in> {it_scope t, scope_concat ia (other_scope ia) (it_scope t)}"
  using assms
proof (induction rounds arbitrary: j)
  case (Cons r rounds)
  obtain created now causes where r: "r = (created, now, causes)" by (metis prod.exhaust)
  show ?case
  proof (cases "e \<in> set (it_sent ea ia t (Suc j) rounds)")
    case False
    with Cons.prems r have "e = setSendTime ea now (it_event ia t (of_nat (Suc j)) created causes)" by simp
    then show ?thesis unfolding it_event_def Let_def by (intro exI conjI, assumption) simp
  qed (rule Cons.IH)
qed simp

text \<open>The scopes of the task; an event has the scope and the id it was created with, whatever its causes.\<close>

definition it_scope_of :: "('e, 'sc) informer_api \<Rightarrow> ('e, 'sc) informer_task \<Rightarrow> nat \<Rightarrow> 'sc" where
  "it_scope_of ia t i = (if odd i then it_scope t else scope_concat ia (other_scope ia) (it_scope t))"

text \<open>
  What the tests read of an event besides its scope and id, and where it is kept on the way: in the meta data
  of a notification and in what a converter returns.
\<close>

record ('e, 'm, 'dt) core_view =
  getEventType :: "'e \<Rightarrow> string"
  getCauses :: "'e \<Rightarrow> event_id set"
  getCreateTime :: "'e \<Rightarrow> int"
  getSendTime :: "'e \<Rightarrow> int"
  getReceiveTime :: "'e \<Rightarrow> int"
  meta_causes :: "'m \<Rightarrow> event_id set"
  meta_createTime :: "'m \<Rightarrow> int"
  meta_sendTime :: "'m \<Rightarrow> int"
  data_type :: "'dt \<Rightarrow> string"

text \<open>Times are \<open>boost::uint64_t\<close> values.\<close>

definition clock_time :: "int \<Rightarrow> bool" where
  "clock_time t \<longleftrightarrow> 0 \<le> t \<and> t < 2 ^ 64"

text \<open>The documentation of \<open>Event\<close>: it has what it was constructed with, setters set and leave the rest.\<close>

definition event_laws ::
  "('e, 'sc, 'm) event_api \<Rightarrow> ('e, 'sc) informer_api \<Rightarrow> ('e, 'm, 'dt) core_view \<Rightarrow> bool" where
  "event_laws ea ia cv \<longleftrightarrow>
     (\<forall>created scope data eid causes.
        let e = ia_event ia created scope data eid causes
        in getScope ea e = scope \<and> getEventId ea e = eid \<and> getCauses cv e = set causes
         \<and> (clock_time created \<longrightarrow> getCreateTime cv e = created))
   \<and> (\<forall>now e. let e' = setSendTime ea now e
        in getScope ea e' = getScope ea e \<and> getEventId ea e' = getEventId ea e
         \<and> getEventType cv e' = getEventType cv e \<and> getCauses cv e' = getCauses cv e
         \<and> getCreateTime cv e' = getCreateTime cv e \<and> (clock_time now \<longrightarrow> getSendTime cv e' = now))"

lemma it_event_header:
  assumes "event_laws ea ia cv" and "i < 2 ^ 32"
  shows "getScope ea (setSendTime ea now (it_event ia t (of_nat i) created causes)) = it_scope_of ia t i"
    and "getEventId ea (setSendTime ea now (it_event ia t (of_nat i) created causes))
      = \<lparr>sender_id = it_id t, sequence_number = of_nat i\<rparr>"
  using assms(1) word_odd [OF assms(2)]
  by (simp_all add: it_event_def it_scope_of_def event_laws_def Let_def)

lemma it_sent_headers:
  assumes "event_laws ea ia cv" and "j + length rounds < 2 ^ 32"
  shows "map (getScope ea) (it_sent ea ia t j rounds) = map (it_scope_of ia t) [Suc j..<Suc (j + length rounds)]"
    and "map (getEventId ea) (it_sent ea ia t j rounds)
      = map (\<lambda>i. \<lparr>sender_id = it_id t, sequence_number = of_nat i\<rparr>) [Suc j..<Suc (j + length rounds)]"
proof -
  have "map (getScope ea) (it_sent ea ia t j rounds) = map (it_scope_of ia t) [Suc j..<Suc (j + length rounds)]
    \<and> map (getEventId ea) (it_sent ea ia t j rounds)
      = map (\<lambda>i. \<lparr>sender_id = it_id t, sequence_number = of_nat i\<rparr>) [Suc j..<Suc (j + length rounds)]"
    using assms(2)
  proof (induction rounds arbitrary: j)
    case (Cons r rounds)
    obtain created now causes where r: "r = (created, now, causes)" by (metis prod.exhaust)
    have "Suc j + length rounds < 2 ^ 32" and i: "Suc j < 2 ^ 32" using Cons.prems by simp_all
    from Cons.IH [OF this(1)] show ?case
      using it_event_header [OF assms(1) i, of now t created causes]
      by (simp add: r upt_rec [of "Suc j"] del: upt_Suc of_nat_Suc)
  qed simp
  then show "map (getScope ea) (it_sent ea ia t j rounds) = map (it_scope_of ia t) [Suc j..<Suc (j + length rounds)]"
    and "map (getEventId ea) (it_sent ea ia t j rounds)
      = map (\<lambda>i. \<lparr>sender_id = it_id t, sequence_number = of_nat i\<rparr>) [Suc j..<Suc (j + length rounds)]"
    by simp_all
qed

lemma it_sent_times:
  assumes "event_laws ea ia cv" and "\<forall>(created, now, causes) \<in> set rounds. clock_time created \<and> clock_time now"
  shows "list_all2 (\<lambda>(created, now, causes) e. getCreateTime cv e = created \<and> getSendTime cv e = now)
    rounds (it_sent ea ia t j rounds)"
  using assms(2)
proof (induction rounds arbitrary: j)
  case (Cons r rounds)
  obtain created now causes where r: "r = (created, now, causes)" by (metis prod.exhaust)
  with Cons assms(1) show ?case by (auto simp: event_laws_def it_event_def Let_def)
qed simp

lemma numbered_ids_distinct:
  assumes "k < 2 ^ 32"
  shows "distinct (map (\<lambda>i. \<lparr>sender_id = u, sequence_number = of_nat i\<rparr>) [Suc 0..<Suc k])"
proof -
  have "inj_on (\<lambda>i. \<lparr>sender_id = u, sequence_number = (of_nat i :: 32 word)\<rparr>) {Suc 0..<Suc k}"
  proof (rule inj_onI)
    fix i i'
    assume i: "i \<in> {Suc 0..<Suc k}" "i' \<in> {Suc 0..<Suc k}"
      and "\<lparr>sender_id = u, sequence_number = (of_nat i :: 32 word)\<rparr> = \<lparr>sender_id = u, sequence_number = of_nat i'\<rparr>"
    then have "unat (of_nat i :: 32 word) = unat (of_nat i' :: 32 word)" by simp
    then show "i = i'" using i assms by (simp add: unat_of_nat_32)
  qed
  then show ?thesis by (simp add: distinct_map del: upt_Suc)
qed

lemma filter_odd_ones:
  assumes "map f es = map g [j..<j + length es]" and "\<And>i. Q (g i) \<longleftrightarrow> odd i"
  shows "filter (\<lambda>e. Q (f e)) es = odd_ones j es"
  using assms(1)
proof (induction es arbitrary: j)
  case (Cons e es)
  have "f e = g j" "map f es = map g [Suc j..<Suc j + length es]"
    using Cons.prems by (simp_all add: upt_rec [of j] del: upt_Suc)
  with Cons.IH [OF this(2)] assms(2) show ?case by simp
qed simp

lemma list_all2_odd_ones:
  "list_all2 P xs ys \<Longrightarrow> list_all2 P (odd_ones j xs) (odd_ones j ys)"
  by (induction xs ys arbitrary: j rule: list_all2_induct) auto

lemma set_odd_ones: "set (odd_ones j xs) \<subseteq> set xs"
  by (induction xs arbitrary: j) auto

lemma length_odd_ones: "odd j \<Longrightarrow> length es = 2 * n \<Longrightarrow> length (odd_ones j es) = n"
proof (induction n arbitrary: j es)
  case (Suc n)
  then obtain e e' es' where "es = e # e' # es'" "length es' = 2 * n"
    by (auto simp: length_Suc_conv numeral_2_eq_2)
  with Suc.IH [of "Suc (Suc j)" es'] Suc.prems(1) show ?case by simp
qed simp

end
