(* ===== verification/RoundtripTests.thy ===== *)
theory RoundtripTests
  imports IntegrationTests
begin

text \<open>
  The integration tests that send events from one process to others (\<open>ConnectorTest.cpp\<close>):
  \<open>testHierarchySending\<close>, \<open>testRoundtrip\<close> and what \<open>testRoundtripDynamicScopes\<close> counts, with the observers of
  \<open>InformerTask.cpp\<close>. What the tests compare is proved for all numbers of events, sizes, scopes and readings
  of the clocks, from the theorems about the program and the laws of the RSB core.
\<close>

section \<open>The observers\<close>

record ('e, 'sc) waiting_observer =
  wo_scope :: 'sc
  expectedEvents :: "32 word"
  receivedEvents :: "32 word"
  wo_events :: "'e list"
  wo_notified :: bool

definition wo_new :: "'sc \<Rightarrow> 32 word \<Rightarrow> ('e, 'sc) waiting_observer" where
  "wo_new scope n = \<lparr>wo_scope = scope, expectedEvents = n, receivedEvents = 0, wo_events = [], wo_notified = False\<rparr>"

definition wo_handler ::
  "'e \<Rightarrow> ('e, 'sc) waiting_observer \<Rightarrow> (unit, ('e, 'sc) waiting_observer) outcome" where
  "wo_handler event ob =
     (let received = receivedEvents ob + 1
      in (Inr (), ob\<lparr>wo_events := wo_events ob @ [event], receivedEvents := received,
            wo_notified := wo_notified ob \<or> received = expectedEvents ob\<rparr>))"

text \<open>\<open>waitReceived\<close> when nothing more comes: \<open>None\<close> is a call that waits forever.\<close>

definition wo_waitReceived :: "32 word \<Rightarrow> ('e, 'sc) waiting_observer \<Rightarrow> bool option" where
  "wo_waitReceived timeoutMs ob =
     (if receivedEvents ob < expectedEvents ob then (if timeoutMs = 0 then None else Some False)
      else Some True)"

section \<open>What the tests compare\<close>

text \<open>Both tests compare the ids, types and scopes of the sent and the received events. \<open>testHierarchySending\<close>
  only counts what the observer on the root scope gets.\<close>

definition same_event ::
  "('e, 'sc, 'm) event_api \<Rightarrow> ('e, 'm, 'dt) core_view \<Rightarrow> 'e \<Rightarrow> 'e \<Rightarrow> bool" where
  "same_event ea cv e e' \<longleftrightarrow> getEventId ea e = getEventId ea e'
     \<and> getEventType cv e = getEventType cv e' \<and> getScope ea e = getScope ea e'"

definition hierarchy_check ::
  "('e, 'sc, 'm) event_api \<Rightarrow> ('e, 'm, 'dt) core_view \<Rightarrow> bool \<Rightarrow> 'e list \<Rightarrow> 'e list \<Rightarrow> bool" where
  "hierarchy_check ea cv is_root source got =
     (if is_root then length got = 2 * length source else list_all2 (same_event ea cv) source got)"

text \<open>\<open>testRoundtrip\<close> also compares the causes, the sender and the times, with a reading \<open>start\<close> of the clock
  before the test sends and a reading \<open>finish\<close> after it has received.\<close>

definition roundtrip_event ::
  "('e, 'sc, 'm) event_api \<Rightarrow> ('e, 'm, 'dt) core_view \<Rightarrow> int \<Rightarrow> int \<Rightarrow> 'e \<Rightarrow> 'e \<Rightarrow> bool" where
  "roundtrip_event ea cv start finish e e' \<longleftrightarrow> same_event ea cv e e'
     \<and> getCauses cv e = getCauses cv e'
     \<and> sender_id (getEventId ea e) = sender_id (getEventId ea e')
     \<and> start \<le> getCreateTime cv e' \<and> getCreateTime cv e' \<le> finish
     \<and> start \<le> getSendTime cv e' \<and> getSendTime cv e' \<le> finish
     \<and> getCreateTime cv e' \<le> getSendTime cv e'
     \<and> start \<le> getReceiveTime cv e' \<and> getReceiveTime cv e' \<le> finish
     \<and> getSendTime cv e' \<le> getReceiveTime cv e'"

definition roundtrip_check ::
  "('e, 'sc, 'm) event_api \<Rightarrow> ('e, 'm, 'dt) core_view \<Rightarrow> int \<Rightarrow> int \<Rightarrow> 'e list \<Rightarrow> 'e list \<Rightarrow> bool" where
  "roundtrip_check ea cv start finish source got = list_all2 (roundtrip_event ea cv start finish) source got"

section \<open>The receiving connector\<close>

text \<open>
  What the RSB core documents of the way from an event to a notification and back: \<open>fillNotificationHeader\<close>
  writes the causes and times of the event, converters undo each other, \<open>fillEvent\<close> reads what a notification
  has, and \<open>setReceiveTime\<close> sets one time.
\<close>

definition wire_laws ::
  "'sc scope_api \<Rightarrow> ('e, 'sc, 'm) event_api \<Rightarrow> ('e, 'm, 'dt) core_view \<Rightarrow> ('e, 'm, 'dt) in_event_api \<Rightarrow> bool" where
  "wire_laws sa ea cv ie \<longleftrightarrow>
     (\<forall>e schema n. let n' = fillNotificationHeader ea e schema n
        in meta_causes cv (nt_meta n') = getCauses cv e \<and> meta_createTime cv (nt_meta n') = getCreateTime cv e
         \<and> meta_sendTime cv (nt_meta n') = getSendTime cv e)
   \<and> (\<forall>e schema wire. to_wire ea e = Inr (schema, wire) \<longrightarrow>
        (\<exists>d. ie_deserialize ie schema wire = Inr d \<and> data_type cv d = getEventType cv e))
   \<and> (\<forall>n d ev sc. scope_parse sa (nt_scope n) = Inr sc \<longrightarrow>
        (\<exists>ev'. ie_fillEvent ie n d ev = (Inr (), ev')
         \<and> getEventId ea ev' = nt_event_id n \<and> getScope ea ev' = sc \<and> getEventType cv ev' = data_type cv d
         \<and> getCauses cv ev' = meta_causes cv (nt_meta n) \<and> getCreateTime cv ev' = meta_createTime cv (nt_meta n)
         \<and> getSendTime cv ev' = meta_sendTime cv (nt_meta n)))
   \<and> (\<forall>now e. let e' = ie_setReceiveTime ie now e
        in getEventId ea e' = getEventId ea e \<and> getScope ea e' = getScope ea e
         \<and> getEventType cv e' = getEventType cv e \<and> getCauses cv e' = getCauses cv e
         \<and> getCreateTime cv e' = getCreateTime cv e \<and> getSendTime cv e' = getSendTime cv e
         \<and> (clock_time now \<longrightarrow> getReceiveTime cv e' = now))"

definition decoded_as ::
  "('e, 'sc, 'm) event_api \<Rightarrow> ('e, 'm, 'dt) core_view \<Rightarrow> int \<Rightarrow> 'e \<Rightarrow> 'e \<Rightarrow> bool" where
  "decoded_as ea cv now e e' \<longleftrightarrow> same_event ea cv e e' \<and> getCauses cv e = getCauses cv e'
     \<and> getCreateTime cv e' = getCreateTime cv e \<and> getSendTime cv e' = getSendTime cv e
     \<and> (clock_time now \<longrightarrow> getReceiveTime cv e' = now)"

text \<open>The event that \<open>notificationToEvent\<close> makes of the notification that the sender's event has become.\<close>

lemma decode_sent:
  assumes "wire_laws sa ea cv ie" and "fills_notifications sa ea" and "sent_notification ea e = Some n"
    and "scope_parse sa (scope_toString sa (getScope ea e)) = Inr (getScope ea e)"
  shows "\<exists>e'. decode_event ie now n = (Inr (), e') \<and> decoded_as ea cv now e e'"
proof -
  obtain schema wire where wire: "to_wire ea e = Inr (schema, wire)" and n: "n = event_notification ea e schema wire"
    using assms(3) by (auto simp: sent_notification_def split: sum.splits)
  let ?n = "nf_notification n"
  have head: "nt_event_id ?n = getEventId ea e" "scope_parse sa (nt_scope ?n) = Inr (getScope ea e)"
    "meta_causes cv (nt_meta ?n) = getCauses cv e" "meta_createTime cv (nt_meta ?n) = getCreateTime cv e"
    "meta_sendTime cv (nt_meta ?n) = getSendTime cv e"
    using assms(1,2,4)
    by (simp_all add: n event_notification_def fragment_header_def fills_notifications_def wire_laws_def Let_def)
  obtain d where d: "ie_deserialize ie schema wire = Inr d" "data_type cv d = getEventType cv e"
    using assms(1) wire unfolding wire_laws_def by blast
  obtain e1 where e1: "ie_fillEvent ie ?n d (new_event ie) = (Inr (), e1)"
    "getEventId ea e1 = getEventId ea e" "getScope ea e1 = getScope ea e" "getEventType cv e1 = getEventType cv e"
    "getCauses cv e1 = getCauses cv e" "getCreateTime cv e1 = getCreateTime cv e"
    "getSendTime cv e1 = getSendTime cv e"
    using assms(1) head d(2) unfolding wire_laws_def by metis
  have "decode_event ie now n = (Inr (), ie_setReceiveTime ie now e1)"
    using d(1) e1(1) by (simp add: decode_event_def n event_notification_def)
  moreover have "decoded_as ea cv now e (ie_setReceiveTime ie now e1)"
    using assms(1) e1(2-7) by (simp add: decoded_as_def same_event_def wire_laws_def Let_def)
  ultimately show ?thesis by blast
qed

text \<open>What a connector makes of a sequence of notifications, each at its time.\<close>

definition ic_times ::
  "('ev, 'm, 'dt) in_event_api \<Rightarrow> ('sc, 'ev, 'u) in_connector \<Rightarrow> int list
     \<Rightarrow> ('sc, 'm) transport_notification list \<Rightarrow> 'u \<times> report list \<Rightarrow> 'u \<times> report list" where
  "ic_times ie ic nows ns s = fold (\<lambda>(now, n) s. snd (ic_handleNotification ie now ic n s)) (zip nows ns) s"

lemma ic_times_simps [simp]:
  "ic_times ie ic [] [] s = s"
  "ic_times ie ic (now # nows) (n # ns) s = ic_times ie ic nows ns (snd (ic_handleNotification ie now ic n s))"
  by (simp_all add: ic_times_def)

lemma observer_run:
  assumes "wire_laws sa ea cv ie" and "fills_notifications sa ea" and "ic_handlers ic = [wo_handler]"
    and "map Some ns = map (sent_notification ea) es" and "length nows = length ns"
    and "\<forall>e \<in> set es. scope_parse sa (scope_toString sa (getScope ea e)) = Inr (getScope ea e)"
  shows "\<exists>got flag. ic_times ie ic nows ns (ob, out) = (ob\<lparr>wo_events := wo_events ob @ got,
      receivedEvents := receivedEvents ob + of_nat (length es), wo_notified := flag\<rparr>, out)
    \<and> list_all2 (\<lambda>(now, e) e'. decoded_as ea cv now e e') (zip nows es) got
    \<and> (es \<noteq> [] \<and> receivedEvents ob + of_nat (length es) = expectedEvents ob \<or> wo_notified ob \<longrightarrow> flag)"
  using assms(4-6)
proof (induction ns arbitrary: es ob nows)
  case Nil
  then show ?case by (intro exI [of _ "[]"] exI [of _ "wo_notified ob"]) simp
next
  case (Cons n ns)
  obtain e es' where es: "es = e # es'" "sent_notification ea e = Some n"
    "map Some ns = map (sent_notification ea) es'"
    using Cons.prems(1) by (cases es) auto
  obtain now nows' where nows: "nows = now # nows'" "length nows' = length ns"
    using Cons.prems(2) by (cases nows) auto
  obtain e' where e': "decode_event ie now n = (Inr (), e')" "decoded_as ea cv now e e'"
    using decode_sent [OF assms(1,2) es(2)] Cons.prems(3) es(1) by auto
  define ob1 where "ob1 = snd (wo_handler e' ob)"
  have ob1: "wo_events ob1 = wo_events ob @ [e']" "receivedEvents ob1 = receivedEvents ob + 1"
    "expectedEvents ob1 = expectedEvents ob"
    "wo_notified ob1 \<longleftrightarrow> wo_notified ob \<or> receivedEvents ob + 1 = expectedEvents ob"
    by (simp_all add: ob1_def wo_handler_def Let_def)
  have upd: "ob1\<lparr>wo_events := w, receivedEvents := r, wo_notified := f\<rparr>
      = ob\<lparr>wo_events := w, receivedEvents := r, wo_notified := f\<rparr>" for w r f
    by (simp add: ob1_def wo_handler_def Let_def)
  have "ic_handleNotification ie now ic n (ob, out) = (Inr (), (ob1, out))"
    by (simp add: ic_handleNotification_ok [OF e'(1)] assms(3) ob1_def wo_handler_def Let_def)
  moreover obtain got flag where "ic_times ie ic nows' ns (ob1, out) = (ob1\<lparr>wo_events := wo_events ob1 @ got,
      receivedEvents := receivedEvents ob1 + of_nat (length es'), wo_notified := flag\<rparr>, out)"
    "list_all2 (\<lambda>(now, e) e'. decoded_as ea cv now e e') (zip nows' es') got"
    "es' \<noteq> [] \<and> receivedEvents ob1 + of_nat (length es') = expectedEvents ob1 \<or> wo_notified ob1 \<longrightarrow> flag"
    using Cons.IH [OF es(3) nows(2), of ob1] Cons.prems(3) es(1) by auto
  ultimately show ?case using e'(2) ob1
    by (intro exI [of _ "e' # got"] exI [of _ flag]) (auto simp: es(1) nows(1) upd add.assoc)
qed

section \<open>The tests\<close>

text \<open>The times of the events an observer has got, when the clocks of the test do not go back.\<close>

lemma roundtrip_check_times:
  assumes "list_all2 (\<lambda>(created, now, causes) e. getCreateTime cv e = created \<and> getSendTime cv e = now) rs es"
    and "list_all2 (\<lambda>(created, now, causes) received. now \<le> received \<and> received \<le> finish) rs nows"
    and "list_all2 (\<lambda>(now, e) e'. decoded_as ea cv now e e') (zip nows es) got"
    and "\<forall>(created, now, causes) \<in> set rs. start \<le> created \<and> created \<le> now \<and> now \<le> finish"
    and "0 \<le> start" and "finish < 2 ^ 64"
  shows "roundtrip_check ea cv start finish es got"
proof -
  have len: "length es = length rs" "length nows = length rs" "length got = length rs"
    using assms(1-3) by (simp_all add: list_all2_conv_all_nth)
  have "roundtrip_event ea cv start finish (es ! i) (got ! i)" if i: "i < length rs" for i
  proof -
    obtain created now causes where r: "rs ! i = (created, now, causes)" by (metis prod.exhaust)
    have times: "getCreateTime cv (es ! i) = created" "getSendTime cv (es ! i) = now"
      "now \<le> nows ! i" "nows ! i \<le> finish"
      using assms(1,2) i r by (fastforce simp: list_all2_conv_all_nth)+
    moreover have "start \<le> created" "created \<le> now" "now \<le> finish"
      using assms(4) nth_mem [OF i] r by auto
    moreover have "decoded_as ea cv (nows ! i) (es ! i) (got ! i)"
      using assms(3) i len by (fastforce simp: list_all2_conv_all_nth)
    moreover have "clock_time (nows ! i)"
      using assms(5,6) calculation(3-6) by (simp add: clock_time_def)
    ultimately show ?thesis by (simp add: roundtrip_event_def decoded_as_def same_event_def)
  qed
  then show ?thesis using len by (simp add: roundtrip_check_def list_all2_conv_all_nth)
qed

lemma decoded_check:
  assumes "list_all2 (\<lambda>(now, e) e'. decoded_as ea cv now e e') (zip nows es) got" and "length nows = length es"
  shows "list_all2 (same_event ea cv) es got" and "length got = length es"
  using assms by (auto simp: list_all2_conv_all_nth decoded_as_def)

text \<open>What the informer task has published when it ends, and which of it is on a scope.\<close>

lemma informer_events:
  fixes ca :: "'m codec_api" and scope :: 'sc and n :: nat and data uuid :: string
  defines "t \<equiv> it_new scope (of_nat n) data uuid :: ('e, 'sc) informer_task"
  assumes run: "it_run ia (oc_handle sa maxg ca ea dbg (bus_handleOutgoing ca api dbg da so)) rounds
        (t, (oc, (b, w, y))) = (Inr (), (t', (oc', (b', w', y'))))"
      "0 < n" "2 * n < 2 ^ 32" "2 * n \<le> length rounds"
    and laws: "event_laws ea ia cv"
      "\<forall>now created eid causes. \<forall>sc \<in> {scope, scope_concat ia (other_scope ia) scope}.
        publishable sa ca ea (maxFragmentSize oc) (minDataSpace oc)
          (setSendTime ea now (ia_event ia created sc data eid causes))"
  obtains es where
    "publish_all sa maxg ca ea dbg (bus_handleOutgoing ca api dbg da so)
      (it_created ia t 0 (take (2 * n) rounds)) (oc, (b, w, y)) = (Inr (), (es, (oc', (b', w', y'))))"
    and "es = it_sent ea ia t 0 (take (2 * n) rounds)" and "length es = 2 * n"
    and "it_events t' = odd_ones 1 es" and "it_cancelled t'"
    and "map (getScope ea) es = map (it_scope_of ia t) [1..<1 + length es]"
    and "distinct (map (getEventId ea) es)"
    and "\<forall>e \<in> set es. publishable sa ca ea (maxFragmentSize oc) (minDataSpace oc) e
      \<and> sender_id (getEventId ea e) = uuid"
proof -
  let ?other = "scope_concat ia (other_scope ia) scope"
  let ?rounds = "take (2 * n) rounds"
  have t: "sentEvents t = of_nat 0" "\<not> it_cancelled t" "numEvents t = of_nat n" "it_events t = []"
    "it_scope t = scope" "it_id t = uuid" "it_data t = data" by (simp_all add: t_def it_new_def)
  obtain es where publish: "publish_all sa maxg ca ea dbg (bus_handleOutgoing ca api dbg da so)
      (it_created ia t 0 ?rounds) (oc, (b, w, y)) = (Inr (), (es, (oc', (b', w', y'))))"
    and recorded: "it_events t' = odd_ones (Suc 0) es" and cancelled: "it_cancelled t'"
    using it_run_publishes [OF run(1) t(1,2) _ run(3) t(3)] run(2,4) t(4) by auto
  have es: "es = it_sent ea ia t 0 ?rounds" using publish_all_events [OF publish] by (simp add: it_sent_def)
  have len: "length es = 2 * n" using run(4) by (simp add: es)
  have small: "0 + length ?rounds < 2 ^ 32" using run(3,4) by simp
  note headers = it_sent_headers [OF laws(1) small, of t, folded es]
  have ids: "map (getEventId ea) es
      = map (\<lambda>i. \<lparr>sender_id = uuid, sequence_number = of_nat i\<rparr>) [Suc 0..<Suc (2 * n)]"
    using headers(2) run(4) by (simp add: t(6) min_def)
  have "publishable sa ca ea (maxFragmentSize oc) (minDataSpace oc) e \<and> sender_id (getEventId ea e) = uuid"
    if mem: "e \<in> set es" for e
  proof
    obtain now created sc eid causes where
      "e = setSendTime ea now (ia_event ia created sc data eid causes)" "sc \<in> {scope, ?other}"
      using it_sent_form [OF mem [unfolded es]] unfolding t(5,7) by blast
    then show "publishable sa ca ea (maxFragmentSize oc) (minDataSpace oc) e" using laws(2) by blast
    have "getEventId ea e \<in> set (map (\<lambda>i. \<lparr>sender_id = uuid, sequence_number = of_nat i\<rparr>) [Suc 0..<Suc (2 * n)])"
      unfolding ids [symmetric] using mem by simp
    then show "sender_id (getEventId ea e) = uuid" by auto
  qed
  then have each: "\<forall>e \<in> set es. publishable sa ca ea (maxFragmentSize oc) (minDataSpace oc) e
      \<and> sender_id (getEventId ea e) = uuid" by blast
  have scopes: "map (getScope ea) es = map (it_scope_of ia t) [1..<1 + length es]"
    using headers(1) len run(4) by simp
  have "distinct (map (getEventId ea) es)" using ids numbered_ids_distinct [OF run(3)] by simp
  from that [OF publish es len recorded [folded One_nat_def] cancelled scopes this each] show thesis .
qed

lemma events_on_scope:
  assumes "map (getScope ea) es = map (it_scope_of ia t) [1..<1 + length es]"
    and "r \<in> set (superScopes sa (it_scope t))"
    and "root \<longleftrightarrow> r \<in> set (superScopes sa (scope_concat ia (other_scope ia) (it_scope t)))"
  shows "filter (\<lambda>e. r \<in> set (superScopes sa (getScope ea e))) es = (if root then es else odd_ones 1 es)"
proof (cases root)
  case True
  have "r \<in> set (superScopes sa (it_scope_of ia t i))" for i
    using True assms(2,3) by (simp add: it_scope_of_def)
  then have "\<forall>sc \<in> set (map (getScope ea) es). r \<in> set (superScopes sa sc)" unfolding assms(1) by simp
  then show ?thesis using True by simp
next
  case False
  have "r \<in> set (superScopes sa (it_scope_of ia t i)) \<longleftrightarrow> odd i" for i
    using False assms(2,3) by (simp add: it_scope_of_def)
  from filter_odd_ones [OF assms(1), of "\<lambda>sc. r \<in> set (superScopes sa sc)", OF this]
  show ?thesis using False by simp
qed

text \<open>C21 \<open>testHierarchySending\<close>, \<open>testRoundtrip\<close>: an informer task for \<open>n\<close> events runs on a connector whose
  calls return, and a process with an observer on some super-scope of its scope gets the informer's packets
  of its groups, in order, once each. The task cancels itself in round \<open>2 * n\<close> with \<open>n\<close> events recorded.
  If the observer's scope is not a super-scope of the scope \<open>/other...\<close> of the events in between, it
  receives exactly the recorded events, in order, and all comparisons of both tests hold: equal id, type and
  scope, equal causes and participant, and creation, sending and receiving times in order between a
  reading of the clock before the test and one after it, when the clocks do not go back and no message is
  received before it is sent. Otherwise (the root scope) it receives twice as many. Either way the observer is
  notified and \<open>waitReceived\<close> returns true, whatever its time limit. Of the RSB core only the laws of its
  events, converters and conversion functions are assumed. This
  holds for every number of events up to 2^31, every size of data, every quality of service.\<close>

theorem hierarchy_test_passes:
  fixes ca :: "'m codec_api" and ie :: "('e, 'm, 'dt) in_event_api" and scope :: 'sc
    and z :: "('sc, 'e, ('e, 'sc) waiting_observer) connectors"
  assumes informer: "it_run ia (oc_handle sa maxg ca ea dbg (bus_handleOutgoing ca api dbg da so)) rounds
        (it_new scope (of_nat n) data uuid, (oc, (b, w, y))) = (Inr (), (t', (oc', (b', w', y'))))"
      "0 < n" "2 * n < 2 ^ 32" "2 * n \<le> length rounds" "sent w' = new @ sent w"
    and library: "codec_roundtrips ca" "fills_notifications sa ea" "digest_printable sa"
      "cache_inv sa maxg (oc_cache oc)" "event_laws ea ia cv" "wire_laws sa ea cv ie"
      "\<forall>now created eid causes. \<forall>sc \<in> {scope, scope_concat ia (other_scope ia) scope}.
        publishable sa ca ea (maxFragmentSize oc) (minDataSpace oc)
          (setSendTime ea now (ia_event ia created sc data eid causes))"
    and observer: "r \<in> set (superScopes sa scope)" "scopeToGroup sa maxg r \<in> groups"
      "subscribed sa da' d (\<lambda>j. z j \<noteq> None) k r" "ic_handlers ic = [wo_handler]"
    and network: "map getData (filter (from_sender ca uuid) (map snd ms))
        = map (\<lambda>p. snd (snd p)) (filter (reaches groups) (rev new))"
      "pool p = []" "dh_run ca sa dbg' ms p = (rs, p')" "\<forall>x \<in> set (delivered rs). notified_by uuid x"
    and expected: "root \<longleftrightarrow> r \<in> set (superScopes sa (scope_concat ia (other_scope ia) scope))"
      "ob = wo_new r (of_nat (if root then 2 * n else n))"
    and clocks: "\<forall>(created, now, causes) \<in> set rounds. start \<le> created \<and> created \<le> now \<and> now \<le> finish"
      "0 \<le> start" "finish < 2 ^ 64" "length nows = (if root then 2 * n else n)"
      "\<not> root \<longrightarrow> list_all2 (\<lambda>(created, now, causes) received. now \<le> received \<and> received \<le> finish)
        (odd_ones 1 (take (2 * n) rounds)) nows"
  shows "it_cancelled t' \<and> length (it_events t') = n
    \<and> (\<exists>ob'. ic_times ie ic nows (addressed da' d z k (delivered rs)) (ob, out) = (ob', out)
      \<and> wo_notified ob' \<and> wo_waitReceived timeout ob' = Some True
      \<and> hierarchy_check ea cv root (it_events t') (wo_events ob')
      \<and> (\<not> root \<longrightarrow> roundtrip_check ea cv start finish (it_events t') (wo_events ob')))"
proof -
  let ?t = "it_new scope (of_nat n) data uuid :: ('e, 'sc) informer_task"
  let ?ns = "addressed da' d z k (delivered rs)" and ?rounds = "take (2 * n) rounds"
  obtain es where publish: "publish_all sa maxg ca ea dbg (bus_handleOutgoing ca api dbg da so)
      (it_created ia ?t 0 ?rounds) (oc, (b, w, y)) = (Inr (), (es, (oc', (b', w', y'))))"
    and es: "es = it_sent ea ia ?t 0 ?rounds" "length es = 2 * n" "it_events t' = odd_ones 1 es" "it_cancelled t'"
    and scopes: "map (getScope ea) es = map (it_scope_of ia ?t) [1..<1 + length es]"
    and distinct: "distinct (map (getEventId ea) es)"
    and each: "\<forall>e \<in> set es. publishable sa ca ea (maxFragmentSize oc) (minDataSpace oc) e
      \<and> sender_id (getEventId ea e) = uuid"
    by (rule informer_events [OF informer(1-4) library(5,7)])
  let ?heard = "if root then es else it_events t'"
  have count: "length (it_events t') = n" unfolding es(3) using es(2) by (intro length_odd_ones) simp_all
  have "map Some (filter (notified_by uuid) ?ns)
      = map (sent_notification ea) (filter (\<lambda>e. r \<in> set (superScopes sa (getScope ea e))) es)"
    by (rule subscriber_views [OF library(1-3) publish each distinct library(4) informer(5) observer(2,3) network(1-3)])
  moreover have "filter (notified_by uuid) ?ns = ?ns"
    using network(4) by (intro filter_True) (simp add: addressed_def)
  moreover have "filter (\<lambda>e. r \<in> set (superScopes sa (getScope ea e))) es = ?heard"
    using events_on_scope [OF scopes, of r sa root] observer(1) expected(1) by (simp add: it_new_def es(3))
  ultimately have views: "map Some ?ns = map (sent_notification ea) ?heard" by simp
  have heard: "length ?heard = (if root then 2 * n else n)" "?heard \<noteq> []" using count es(2) informer(2) by auto
  then have "length nows = length ?ns" using clocks(4) arg_cong [OF views, of length] by simp
  moreover have "\<forall>e \<in> set ?heard. scope_parse sa (scope_toString sa (getScope ea e)) = Inr (getScope ea e)"
    using each set_odd_ones [of 1 es] by (auto simp: publishable_def es(3))
  ultimately obtain got flag where got: "ic_times ie ic nows ?ns (ob, out) = (ob\<lparr>wo_events := wo_events ob @ got,
      receivedEvents := receivedEvents ob + of_nat (length ?heard), wo_notified := flag\<rparr>, out)"
    and decoded: "list_all2 (\<lambda>(now, e) e'. decoded_as ea cv now e e') (zip nows ?heard) got"
    and flag: "?heard \<noteq> [] \<and> receivedEvents ob + of_nat (length ?heard) = expectedEvents ob \<or> wo_notified ob \<longrightarrow> flag"
    using observer_run [OF library(6,2) observer(4) views, of nows ob out] by blast
  have ob: "flag" "receivedEvents ob + of_nat (length ?heard) = expectedEvents ob" "wo_events ob = []"
    using flag heard by (simp_all add: expected(2) wo_new_def)
  have "hierarchy_check ea cv root (it_events t') got"
    using decoded_check [OF decoded] heard(1) clocks(4) count by (cases root) (simp_all add: hierarchy_check_def)
  moreover have "roundtrip_check ea cv start finish (it_events t') got" if root: "\<not> root"
  proof (rule roundtrip_check_times)
    have "\<forall>(created, now, causes) \<in> set rounds. clock_time created \<and> clock_time now"
      using clocks(1-3) by (fastforce simp: clock_time_def)
    then have "\<forall>(created, now, causes) \<in> set ?rounds. clock_time created \<and> clock_time now"
      by (meson in_set_takeD)
    from list_all2_odd_ones [OF it_sent_times [OF library(5) this, of ?t 0, folded es(1)], of 1]
    show "list_all2 (\<lambda>(created, now, causes) e. getCreateTime cv e = created \<and> getSendTime cv e = now)
        (odd_ones 1 ?rounds) (it_events t')" unfolding es(3) .
    show "\<forall>(created, now, causes) \<in> set (odd_ones 1 ?rounds). start \<le> created \<and> created \<le> now \<and> now \<le> finish"
      using clocks(1) set_odd_ones [of 1 ?rounds] by (meson in_set_takeD subsetD)
  qed (use clocks root decoded in auto)
  ultimately show ?thesis
    using count es(4) got ob by (intro conjI exI) (auto simp: wo_waitReceived_def)
qed

text \<open>\<open>testSetSendTime\<close>: the clock is read before, during and after the call of \<open>handle\<close>.\<close>

definition test_set_send_time ::
  "('e, 'm, 'dt) core_view \<Rightarrow> (int \<Rightarrow> 'e \<Rightarrow> 's \<Rightarrow> (unit, 'e \<times> 's) outcome) \<Rightarrow> int \<Rightarrow> int \<Rightarrow> int \<Rightarrow> 'e \<Rightarrow> 's \<Rightarrow> bool" where
  "test_set_send_time cv handle beforeSend now afterSend e st =
     (case handle now e st of
        (Inl ex, _) \<Rightarrow> False
      | (Inr _, (e', _)) \<Rightarrow> getSendTime cv e' \<noteq> 0
          \<and> beforeSend \<le> getSendTime cv e' \<and> getSendTime cv e' \<le> afterSend)"

lemma test_set_send_time_holds:
  assumes "event_laws ea ia cv" and "0 < beforeSend" "beforeSend \<le> now" "now \<le> afterSend" "afterSend < 2 ^ 64"
    and "oc_handle sa maxg ca ea dbg handle now e (oc, b) = (Inr (), (e', st'))"
  shows "test_set_send_time cv (oc_handle sa maxg ca ea dbg handle) beforeSend now afterSend e (oc, b)"
proof -
  have "e' = setSendTime ea now e" using assms(6)
    by (auto simp: oc_handle_def Let_def split: prod.splits sum.splits)
  moreover have "clock_time now" using assms(2-5) by (simp add: clock_time_def)
  ultimately have "getSendTime cv e' = now" using assms(1) by (simp add: event_laws_def Let_def)
  then show ?thesis using assms(2-4,6) by (simp add: test_set_send_time_def)
qed

section \<open>A test run\<close>

text \<open>Events as records of what the tests read; a protocol for the two messages of the run.\<close>

record test_event =
  ev_scope :: string
  ev_id :: event_id
  ev_data :: string
  ev_causes :: "event_id list"
  ev_created :: int
  ev_sent :: int
  ev_received :: int

record test_meta =
  tm_causes :: "event_id list"
  tm_created :: int
  tm_sent :: int

definition test_events :: "(test_event, string, test_meta) event_api" where
  "test_events = \<lparr>setSendTime = (\<lambda>t e. e\<lparr>ev_sent := t\<rparr>), getScope = ev_scope, getEventId = ev_id,
     to_wire = (\<lambda>e. Inr (''utf-8'', ev_data e)),
     blank = \<lparr>nt_event_id = \<lparr>sender_id = [], sequence_number = 0\<rparr>, nt_scope = [],
       nt_wire_schema = [], nt_data = [], nt_meta = \<lparr>tm_causes = [], tm_created = 0, tm_sent = 0\<rparr>\<rparr>,
     fillNotificationId = (\<lambda>e n. n\<lparr>nt_event_id := ev_id e\<rparr>),
     fillNotificationHeader = (\<lambda>e schema n. n\<lparr>nt_scope := ev_scope e, nt_wire_schema := schema,
       nt_meta := \<lparr>tm_causes = ev_causes e, tm_created = ev_created e, tm_sent = ev_sent e\<rparr>\<rparr>)\<rparr>"

definition test_informer :: "(test_event, string) informer_api" where
  "test_informer = \<lparr>ia_event = (\<lambda>created sc data eid causes. \<lparr>ev_scope = sc, ev_id = eid, ev_data = data,
       ev_causes = causes, ev_created = created, ev_sent = 0, ev_received = 0\<rparr>),
     scope_concat = (@), other_scope = ''/other''\<rparr>"

definition test_in_events :: "(test_event, test_meta, string) in_event_api" where
  "test_in_events = \<lparr>new_event = \<lparr>ev_scope = [], ev_id = \<lparr>sender_id = [], sequence_number = 0\<rparr>, ev_data = [],
       ev_causes = [], ev_created = 0, ev_sent = 0, ev_received = 0\<rparr>,
     ie_deserialize = (\<lambda>schema p. Inr p),
     ie_fillEvent = (\<lambda>n d ev. (Inr (), ev\<lparr>ev_scope := nt_scope n, ev_id := nt_event_id n, ev_data := d,
       ev_causes := tm_causes (nt_meta n), ev_created := tm_created (nt_meta n), ev_sent := tm_sent (nt_meta n)\<rparr>)),
     ie_setReceiveTime = (\<lambda>now ev. ev\<lparr>ev_received := now\<rparr>),
     exn_what = (\<lambda>ex. ''what''), exceptionInfo = (\<lambda>ex. ''info'')\<rparr>"

definition test_view :: "(test_event, test_meta, string) core_view" where
  "test_view = \<lparr>getEventType = (\<lambda>e. ''string''), getCauses = (\<lambda>e. set (ev_causes e)),
     getCreateTime = ev_created, getSendTime = ev_sent, getReceiveTime = ev_received,
     meta_causes = (\<lambda>m. set (tm_causes m)), meta_createTime = tm_created, meta_sendTime = tm_sent,
     data_type = (\<lambda>d. ''string'')\<rparr>"

definition cause :: event_id where
  "cause = \<lparr>sender_id = ''q'', sequence_number = 9\<rparr>"

text \<open>The two rounds of a task for one event: the readings of the clock and the causes.\<close>

definition test_rounds :: "round list" where
  "test_rounds = [(10, 11, [cause]), (12, 13, [])]"

definition informer_part :: "string \<Rightarrow> 32 word \<Rightarrow> round \<Rightarrow> test_meta fragmented" where
  "informer_part scope nr round = (case round of (created, now, causes) \<Rightarrow>
     \<lparr>fn_notification = \<lparr>nt_event_id = \<lparr>sender_id = ''s'', sequence_number = nr\<rparr>,
       nt_scope = scope, nt_wire_schema = ''utf-8'', nt_data = ''xyz'',
       nt_meta = \<lparr>tm_causes = causes, tm_created = created, tm_sent = now\<rparr>\<rparr>,
     fn_data_part = 0, fn_num_data_parts = 1\<rparr>)"

definition part_one :: "test_meta fragmented" where
  "part_one = informer_part ''/a'' 1 (10, 11, [cause])"

definition part_two :: "test_meta fragmented" where
  "part_two = informer_part ''/other/a'' 2 (12, 13, [])"

definition test_codec :: "test_meta codec_api" where
  "test_codec = \<lparr>headerByteSize = (\<lambda>n. of_nat (length (nt_scope n) + 4)),
     serialize = (\<lambda>f. if f = part_one then Some ''one'' else if f = part_two then Some ''two'' else None),
     parse = (\<lambda>s. if s = ''one'' then Some part_one else if s = ''two'' then Some part_two else None)\<rparr>"

lemma test_codec_roundtrips: "codec_roundtrips test_codec"
  by (auto simp: codec_roundtrips_def test_codec_def split: if_splits)

lemma test_fills: "fills_notifications sample_scopes test_events"
  by (simp add: fills_notifications_def test_events_def sample_scopes_def)

lemma test_event_laws: "event_laws test_events test_informer test_view"
  by (simp add: event_laws_def test_events_def test_informer_def test_view_def)

lemma test_wire_laws: "wire_laws sample_scopes test_events test_view test_in_events"
  by (auto simp: wire_laws_def test_events_def test_in_events_def test_view_def sample_scopes_def split: if_splits)

definition test_bus :: "(test_meta, unit) bus" where
  "test_bus = \<lparr>bus_active = True, connection = open_conn, memberships = [], receiver = None,
     scopeDispatcher = ()\<rparr>"

definition test_sinks :: "(string, test_meta, unit) sink_ops" where
  "test_sinks = \<lparr>sink_alive = (\<lambda>z k. False), sink_handleNotification = (\<lambda>k n z. (Inr (), z)),
     sink_handleError = (\<lambda>k ex z. (Inr (), z))\<rparr>"

definition informer_event :: "string \<Rightarrow> 32 word \<Rightarrow> round \<Rightarrow> test_event" where
  "informer_event scope nr round = (case round of (created, now, causes) \<Rightarrow>
     \<lparr>ev_scope = scope, ev_id = \<lparr>sender_id = ''s'', sequence_number = nr\<rparr>, ev_data = ''xyz'',
      ev_causes = causes, ev_created = created, ev_sent = now, ev_received = 0\<rparr>)"

lemma test_send:
  assumes "scope \<in> {''/a'', ''/other/a''}"
  shows "addGroups 32 [scope, ''/''] (setQOS FIFO message_new)
      = (Inr (), \<lparr>mtype = OTHER, mqos = FIFO, mdata = [], mgroups = [''/'', scope]\<rparr>)"
    and "conn_send sample_api True \<lparr>mtype = OTHER, mqos = FIFO, mdata = d, mgroups = [''/'', scope]\<rparr> (open_conn, w)
      = (Inr (), (open_conn, SpMultigroupMulticast 7 0x44 [''/'', scope] d (int (length d)) # w))"
  using assms
  by (auto simp: conn_send_def open_conn_def conn_new_def sample_api_def message_accessors
      SPREAD_MAX_GROUPS_def c_str_def send_result_def addGroup_def message_constructors
      insort_insert_key_def)

lemma test_fragments:
  assumes "scope \<in> {''/a'', ''/other/a''}"
  shows "make_fragments test_codec test_events dbg 30 5 (informer_event scope nr round)
      ''utf-8'' ''xyz'' 0 0 [] = Inr [informer_part scope nr round]"
  using assms
  by (cases round) (auto simp: make_fragments.simps fragment_header_def test_codec_def test_events_def substr_def
      informer_part_def informer_event_def)

abbreviation test_handler ::
  "int \<Rightarrow> test_event \<Rightarrow> string out_connector \<times> (test_meta, unit, unit) bus_state
     \<Rightarrow> (unit, test_event \<times> string out_connector \<times> (test_meta, unit, unit) bus_state) outcome" where
  "test_handler \<equiv> oc_handle sample_scopes 32 test_codec test_events True
     (bus_handleOutgoing test_codec sample_api True quiet_dispatcher test_sinks)"

lemma test_handle:
  assumes "scope \<in> {''/a'', ''/other/a''}" and "scopeToGroups sample_scopes 32 scope (oc_cache oc) = ([scope, ''/''], cache')"
    and "maxFragmentSize oc = 30" "minDataSpace oc = 5" "messageQOS oc = FIFO"
    and "serialize test_codec (informer_part scope nr (created, now, causes)) = Some bytes"
  shows "\<exists>w'. test_handler now (ia_event test_informer created scope ''xyz'' \<lparr>sender_id = ''s'', sequence_number = nr\<rparr> causes)
      (oc, (test_bus, w, ()))
   = (Inr (), (informer_event scope nr (created, now, causes), oc\<lparr>oc_cache := cache'\<rparr>, (test_bus, w', ())))
   \<and> sent w' = ([''/'', scope], 0x44, bytes) # sent w"
proof -
  let ?f = "informer_part scope nr (created, now, causes)"
  have max: "MAX_GROUP_NAME sample_api = 32" by (simp add: sample_api_def)
  have part: "?f\<lparr>fn_num_data_parts := 1\<rparr> = ?f" by (simp add: informer_part_def)
  have event: "setSendTime test_events now (ia_event test_informer created scope ''xyz''
      \<lparr>sender_id = ''s'', sequence_number = nr\<rparr> causes) = informer_event scope nr (created, now, causes)"
    by (simp add: test_events_def test_informer_def informer_event_def)
  have fields: "getScope test_events (informer_event scope nr r) = scope"
    "to_wire test_events (informer_event scope nr r) = Inr (''utf-8'', ''xyz'')" for r
    by (cases r; simp add: test_events_def informer_event_def)+
  show ?thesis
    using assms(2-6)
    by (simp add: oc_handle_def event fields test_fragments [OF assms(1)] test_send [OF assms(1)] bus_handleOutgoing_def
        sendNotification_def max part test_bus_def setData_def quiet_dispatcher_def Let_def
        del: addGroups.simps One_nat_def)
qed

lemma test_serialize:
  "serialize test_codec (informer_part ''/a'' 1 (10, 11, [cause])) = Some ''one''"
  "serialize test_codec (informer_part ''/other/a'' 2 (12, 13, [])) = Some ''two''"
  by (simp_all add: test_codec_def part_one_def part_two_def) (simp_all add: informer_part_def)

lemma test_run:
  "\<exists>t' oc' w'. it_run test_informer test_handler test_rounds
      (it_new ''/a'' (of_nat 1) ''xyz'' ''s'', (oc_new 30, (test_bus, [], ()))) = (Inr (), (t', (oc', (test_bus, w', ()))))
    \<and> sent w' = [([''/'', ''/other/a''], 0x44, ''two''), ([''/'', ''/a''], 0x44, ''one'')] @ sent []"
proof -
  let ?id = "\<lambda>nr. \<lparr>sender_id = ''s'', sequence_number = nr\<rparr>"
  let ?oc = "oc_new 30 :: string out_connector"
  let ?cache = "[(''/a'', [''/a'', ''/''])]"
  let ?t = "it_new ''/a'' (of_nat 1) ''xyz'' ''s'' :: (test_event, string) informer_task"
  have oc: "maxFragmentSize ?oc = 30" "minDataSpace ?oc = 5" "messageQOS ?oc = FIFO" "oc_cache ?oc = []"
    by (simp_all add: oc_new_def)
  have groups: "scopeToGroups sample_scopes 32 ''/a'' (oc_cache ?oc) = ([''/a'', ''/''], ?cache)"
    "\<exists>c. scopeToGroups sample_scopes 32 ''/other/a'' (oc_cache (?oc\<lparr>oc_cache := ?cache\<rparr>)) = ([''/other/a'', ''/''], c)"
    by (simp_all add: oc scopeToGroups_def sample_scopes_def scopeToGroup_def Let_def)
  then obtain c where c: "scopeToGroups sample_scopes 32 ''/other/a'' (oc_cache (?oc\<lparr>oc_cache := ?cache\<rparr>))
      = ([''/other/a'', ''/''], c)" by blast
  obtain w1 where one: "test_handler 11 (ia_event test_informer 10 ''/a'' ''xyz'' (?id 1) [cause]) (?oc, (test_bus, [], ()))
      = (Inr (), (informer_event ''/a'' 1 (10, 11, [cause]), ?oc\<lparr>oc_cache := ?cache\<rparr>, (test_bus, w1, ())))"
    and w1: "sent w1 = ([''/'', ''/a''], 0x44, ''one'') # sent []"
    using test_handle [of "''/a''", OF _ groups(1) oc(1-3) test_serialize(1)] by blast
  have next_oc: "maxFragmentSize (?oc\<lparr>oc_cache := ?cache\<rparr>) = 30" "minDataSpace (?oc\<lparr>oc_cache := ?cache\<rparr>) = 5"
    "messageQOS (?oc\<lparr>oc_cache := ?cache\<rparr>) = FIFO" "?oc\<lparr>oc_cache := ?cache, oc_cache := c\<rparr> = ?oc\<lparr>oc_cache := c\<rparr>"
    by (simp_all add: oc_new_def)
  obtain w2 where two: "test_handler 13 (ia_event test_informer 12 ''/other/a'' ''xyz'' (?id 2) [])
        (?oc\<lparr>oc_cache := ?cache\<rparr>, (test_bus, w1, ()))
      = (Inr (), (informer_event ''/other/a'' 2 (12, 13, []), ?oc\<lparr>oc_cache := c\<rparr>, (test_bus, w2, ())))"
    and w2: "sent w2 = ([''/'', ''/other/a''], 0x44, ''two'') # sent w1"
    using test_handle [of "''/other/a''", OF _ c next_oc(1-3) test_serialize(2), of w1, unfolded next_oc(4)] by blast
  have created: "it_event test_informer t 1 10 [cause] = ia_event test_informer 10 ''/a'' ''xyz'' (?id 1) [cause]"
    "it_event test_informer t 2 12 [] = ia_event test_informer 12 ''/other/a'' ''xyz'' (?id 2) []"
    if "it_scope t = ''/a''" "it_id t = ''s''" "it_data t = ''xyz''" for t
    using that by (simp_all add: it_event_def) (simp_all add: test_informer_def)
  obtain t1 where t1: "it_execute test_informer test_handler (10, 11, [cause]) (?t, (?oc, (test_bus, [], ())))
      = (Inr (), (t1, (?oc\<lparr>oc_cache := ?cache\<rparr>, (test_bus, w1, ()))))"
    "it_scope t1 = ''/a''" "it_id t1 = ''s''" "it_data t1 = ''xyz''" "sentEvents t1 = 1" "\<not> it_cancelled t1"
    using one created(1) [of ?t] by (simp add: it_execute_def Let_def it_new_def)
  have "\<exists>t2. it_execute test_informer test_handler (12, 13, []) (t1, (?oc\<lparr>oc_cache := ?cache\<rparr>, (test_bus, w1, ())))
      = (Inr (), (t2, (?oc\<lparr>oc_cache := c\<rparr>, (test_bus, w2, ()))))"
    using two created(2) [OF t1(2-4)] by (simp add: it_execute_def Let_def t1)
  then obtain t2 where t2: "it_execute test_informer test_handler (12, 13, []) (t1, (?oc\<lparr>oc_cache := ?cache\<rparr>, (test_bus, w1, ())))
      = (Inr (), (t2, (?oc\<lparr>oc_cache := c\<rparr>, (test_bus, w2, ()))))" by blast
  have "\<not> it_cancelled ?t" by (simp add: it_new_def)
  then have "it_run test_informer test_handler test_rounds (?t, (?oc, (test_bus, [], ())))
      = (Inr (), (t2, (?oc\<lparr>oc_cache := c\<rparr>, (test_bus, w2, ()))))"
    using t1 t2 by (simp add: test_rounds_def)
  then show ?thesis using w1 w2 by (intro exI conjI) (assumption, simp)
qed

definition observing :: "(string, test_event, (test_event, string) waiting_observer) in_connector" where
  "observing = (ic_new ''/a'')\<lparr>ic_handlers := [wo_handler]\<rparr>"

definition test_pool :: "test_meta assembly_pool" where
  "test_pool = \<lparr>pool = [], pruningAgeS = 20, pruningIntervalMs = 4000, pruningTask = None\<rparr>"

definition test_message :: spread_message where
  "test_message = \<lparr>mtype = REGULAR, mqos = UNRELIABLE, mdata = ''one'', mgroups = []\<rparr>"

abbreviation test_notification :: "(string, test_meta) transport_notification" where
  "test_notification \<equiv> event_notification test_events (informer_event ''/a'' 1 (10, 11, [cause])) ''utf-8'' ''xyz''"

lemma test_received:
  "dh_run test_codec sample_scopes True [(0, test_message)] test_pool = ([Inr (Some test_notification)], test_pool)"
proof -
  have "message_fragment test_codec test_message = Some part_one"
    by (simp add: message_fragment_def test_message_def message_accessors test_codec_def)
  then show ?thesis
    by (simp add: handleMessage_fragment maybeJoinFragments_def part_one_def informer_part_def
        incoming_notification_def sample_scopes_def event_notification_def test_events_def fragment_header_def
        informer_event_def)
qed

lemma test_publishable:
  "\<forall>now created eid causes. \<forall>sc \<in> {''/a'', scope_concat test_informer (other_scope test_informer) ''/a''}.
      publishable sample_scopes test_codec test_events (maxFragmentSize (oc_new 30 :: string out_connector))
        (minDataSpace (oc_new 30 :: string out_connector))
        (setSendTime test_events now (ia_event test_informer created sc ''xyz'' eid causes))"
proof -
  have sizes: "headerByteSize test_codec (fragment_header test_events e ''utf-8'' True) = of_nat (length (ev_scope e) + 4)"
    "headerByteSize test_codec (fragment_header test_events e ''utf-8'' False) = 4" for e
    by (simp_all add: test_codec_def test_events_def fragment_header_def)
  have fits: "headers_fit test_codec test_events 30 5 e ''utf-8''" if "ev_scope e \<in> {''/a'', ''/other/a''}" for e
    using that by (auto simp: headers_fit_def header_fits_def all_bool_eq sizes)
  have event: "ev_scope (setSendTime test_events now (ia_event test_informer created sc d eid causes)) = sc"
    "to_wire test_events (setSendTime test_events now (ia_event test_informer created sc d eid causes)) = Inr (''utf-8'', d)"
    "getScope test_events e = ev_scope e" for now created sc d eid causes e
    by (simp_all add: test_informer_def test_events_def)
  have scopes: "{''/a'', scope_concat test_informer (other_scope test_informer) ''/a''} = {''/a'', ''/other/a''}"
    by (simp add: test_informer_def)
  have parse: "scope_parse sample_scopes (scope_toString sample_scopes sc) = Inr sc" if "sc \<in> {''/a'', ''/other/a''}" for sc
    using that by (auto simp: sample_scopes_def)
  show ?thesis unfolding scopes publishable_def event
    using fits parse event(1) by (simp add: oc_new_def)
qed

theorem hierarchy_test_passes_witness:
  "\<exists>t' oc' w' ob'. it_run test_informer test_handler test_rounds
      (it_new ''/a'' (of_nat 1) ''xyz'' ''s'', (oc_new 30, (test_bus, [], ()))) = (Inr (), (t', (oc', (test_bus, w', ()))))
    \<and> it_cancelled t' \<and> length (it_events t') = 1
    \<and> ic_times test_in_events observing [20] [test_notification] (wo_new ''/a'' 1, []) = (ob', [])
    \<and> wo_notified ob' \<and> wo_waitReceived 40000 ob' = Some True
    \<and> hierarchy_check test_events test_view False (it_events t') (wo_events ob')
    \<and> roundtrip_check test_events test_view 5 30 (it_events t') (wo_events ob')"
proof -
  let ?z = "[4 \<mapsto> (observing, (wo_new ''/a'' 1, []))]
    :: (string, test_event, (test_event, string) waiting_observer) connectors"
  obtain t' oc' w' where run: "it_run test_informer test_handler test_rounds
      (it_new ''/a'' (of_nat 1) ''xyz'' ''s'', (oc_new 30, (test_bus, [], ()))) = (Inr (), (t', (oc', (test_bus, w', ()))))"
    and sent: "sent w' = [([''/'', ''/other/a''], 0x44, ''two''), ([''/'', ''/a''], 0x44, ''one'')] @ sent []"
    (is "_ = ?new @ _")
    using test_run by blast
  have bounds: "0 < (1 :: nat)" "2 * (1 :: nat) < 2 ^ 32" "2 * 1 \<le> length test_rounds"
    by (simp_all add: test_rounds_def)
  have cache: "cache_inv sample_scopes 32 (oc_cache (oc_new 30))" by (simp add: oc_new_def)
  have observer: "''/a'' \<in> set (superScopes sample_scopes ''/a'')" "scopeToGroup sample_scopes 32 ''/a'' \<in> {''/a''}"
    "subscribed sample_scopes scope_dispatcher [(''/a'', 4)] (\<lambda>j. ?z j \<noteq> None) 4 ''/a''"
    "ic_handlers observing = [wo_handler]"
    by (simp_all add: sample_scopes_def scopeToGroup_def subscribed_def scope_dispatcher_def observing_def)
  have fragment: "message_fragment test_codec test_message = Some part_one"
    by (simp add: message_fragment_def test_message_def message_accessors test_codec_def)
  have network: "map getData (filter (from_sender test_codec ''s'') (map snd [(0 :: int, test_message)]))
      = map (\<lambda>p. snd (snd p)) (filter (reaches {''/a''}) (rev ?new))" "pool test_pool = []"
    using fragment by (simp_all add: from_sender_def reaches_def test_pool_def)
      (simp add: part_one_def informer_part_def test_message_def message_accessors)
  have mine: "\<forall>x \<in> set (delivered [Inr (Some test_notification)]). notified_by ''s'' x"
    by (simp add: event_notification_id [OF test_fills]) (simp add: test_events_def informer_event_def)
  have root: "False \<longleftrightarrow> ''/a'' \<in> set (superScopes sample_scopes (scope_concat test_informer (other_scope test_informer) ''/a''))"
    by (simp add: sample_scopes_def test_informer_def)
  have ob: "wo_new ''/a'' 1 = wo_new ''/a'' (of_nat (if False then 2 * 1 else 1))" by simp
  have clocks: "\<forall>(created, now, causes) \<in> set test_rounds. 5 \<le> created \<and> created \<le> now \<and> now \<le> 30"
    "0 \<le> (5 :: int)" "(30 :: int) < 2 ^ 64" "length [20 :: int] = (if False then 2 * 1 else 1)"
    "\<not> False \<longrightarrow> list_all2 (\<lambda>(created, now, causes) received. now \<le> received \<and> received \<le> 30)
      (odd_ones 1 (take (2 * 1) test_rounds)) [20]"
    by (simp_all add: test_rounds_def)
  have addr: "addressed scope_dispatcher [(''/a'', 4)] ?z 4 (delivered [Inr (Some test_notification)]) = [test_notification]"
    by (simp add: addressed_def scope_dispatcher_def sample_scopes_def event_notification_def test_events_def
        informer_event_def)
  from hierarchy_test_passes [OF run bounds sent test_codec_roundtrips test_fills sample_scopes_printable cache
      test_event_laws test_wire_laws test_publishable observer network test_received mine root ob clocks, of "[]" 40000]
  show ?thesis unfolding addr using run by (auto simp del: it_run.simps ic_times_simps)
qed

end
