(* ===== verification/Spec2Isabelle.thy ===== *)
theory Spec2Isabelle
  imports PublishProgress Malformed Contracts ConcurrentSenders ConnectorLife ThreadRounds SharedCache
    Factory RoundtripTests
begin

text \<open>
  The Spread transport of the Robotics Service Bus (\<open>rsb-spread-cpp\<close>). Processes exchange events
  over the groups of a Spread daemon; the library turns an event into messages, sends them, receives
  messages, and turns them back into events. All paths below are relative to
  \<open>src/src/rsb/transport/spread\<close>.

  \<^bold>\<open>The program.\<close> An \<open>OutConnector\<close> serialises an event and cuts it into fragments that fit a
  message. It hands them to the bus (\<open>BusImpl\<close>), which numbers and serialises the fragments and
  sends each over its \<open>SpreadConnection\<close> to the groups of the event's scope (\<open>GroupNameCache\<close>). On
  the receiving side the bus runs a \<open>ReceiverTask\<close>, whose \<open>DeserializingHandler\<close> parses messages and
  reassembles fragments (\<open>Assembly\<close>, \<open>AssemblyPool\<close>); complete notifications are dispatched to the
  sinks of the bus, the \<open>InConnector\<close>s, which decode them for their handlers. The bus joins the groups
  of the registered scopes through the reference counts of \<open>MembershipManager\<close>. A \<open>Factory\<close> lets all
  connectors for one daemon share one bus.

  \<^bold>\<open>Theories and sources.\<close>
  \<^item> \<open>Prelude\<close>: exceptions, outcomes, C strings, decimal numbers, \<open>std::map\<close>. \<open>Interfaces\<close>: the
    contracts between components, as locales: \<open>group_provider\<close> (what the manager needs of a
    connection), \<open>part_collector\<close> (what the pool needs of an assembly), \<open>sink_registry\<close> (what a
    connector needs of a bus). \<open>OutConnector\<close> adds \<open>message_bus\<close> (what it needs of a bus). Each is
    interpreted on the model of the component that provides it.
  \<^item> \<open>SpreadApi\<close>, \<open>RsbApi\<close>: the code that is not in the repository, as parameters: the Spread client
    library (every call is recorded in a \<open>history\<close>, its answer is a function of the history), the
    protocol classes, scopes, digests, converters. \<open>SampleWorld\<close>: concrete instances for witnesses.
  \<^item> \<open>SpreadMessage\<close>, \<open>ErrorMessages\<close>, \<open>SpreadConnection\<close>, \<open>MembershipManager\<close>, \<open>GroupNameCache\<close>,
    \<open>Assembly\<close>, \<open>AssemblyPool\<close> (both \<open>Assembly.cpp\<close>), \<open>Notifications\<close>, \<open>ConnectorBase\<close>,
    \<open>OutConnector\<close>, \<open>DeserializingHandler\<close>, \<open>ReceiverTask\<close>, \<open>BusImpl\<close>, \<open>InConnector\<close>, \<open>Factory\<close> (also
    \<open>registration.cpp\<close> and \<open>Plugin.cpp\<close>): one theory per source file of that name. A class is a
    record with the class's members, an operation a function with the name of the member function
    (with a prefix where names clash: \<open>conn_\<close>, \<open>mm_\<close>, \<open>dh_\<close>, \<open>rt_\<close>, \<open>bus_\<close>, \<open>oc_\<close>, \<open>ic_\<close>). It takes
    the state and returns the exception or the value together with the state it leaves behind.
  \<^item> \<open>Reassembly\<close>, \<open>PoolSafety\<close>, \<open>Pruning\<close>: runs, invariant and pruning of the pool.
    \<open>PrunedReceiver\<close>, \<open>PoolSize\<close>: the deserialising handler with the pruning task beside it, in any
    order: what is delivered and how large the pool gets. \<open>Malformed\<close>: what parts that are not well formed
    do to the receiving path. \<open>Contracts\<close>: what \<open>SpreadConnection.h\<close> and
    \<open>Assembly.h\<close> document, as specifications (\<open>conn_contract\<close>, \<open>pool_contract\<close>) that the code refines.
    \<open>Fragmentation\<close>: what the fragments carry. \<open>Packets\<close>: what leaves the process. \<open>BusSession\<close>,
    \<open>ConnectorLife\<close>: state machines of a bus and of a connector on it. \<open>EndToEnd\<close>: sender and
    receiver together; \<open>Delivery\<close>: with the bus, the connectors and their handlers.
  \<^item> \<open>Provenance\<close>: the pool answers a message with its own event only. \<open>PubSub\<close>: sequences of events
    from a publisher to a subscriber in another process; \<open>LocalDelivery\<close>: in the same process;
    \<open>PublishProgress\<close>: publishing does not fail by itself. \<open>UnitTests\<close>, \<open>BufferSaturation\<close>, \<open>IntegrationTests\<close>,
    \<open>RoundtripTests\<close>:
    the repository's tests (\<open>src/test/rsb\<close>) and their helpers on the model.
  \<^item> \<open>BusThreads\<close>: the threads around a \<open>BusImpl\<close> (the \<open>shared_ptr\<close>s of the application, the
    receiver's thread with \<open>WeakHandlerAdapter\<close>, the destructor, the daemon), with every blocking call
    as a step that may not be possible. \<open>Shutdown\<close>: their invariant, and which shutdowns end.
    \<open>ThreadRounds\<close>: the turns of the receiver against the sequential \<open>execute\<close>.
  \<^item> \<open>SinkMutex\<close>: the operations of a bus taken apart into single steps, with \<open>sinkMutex\<close>, for any number
    of threads and for sinks that call the bus. \<open>Atomicity\<close>: a block under the mutex is one step.
    \<open>MutexProgress\<close>, \<open>Reentrancy\<close>: which calls come back. \<open>ConcurrentSenders\<close>: what leaves the
    process when several threads send at the same time, and what a receiver makes of it. \<open>SharedCache\<close>: \<open>GroupNameCache\<close> with several
    threads and the references it hands out.

  \<^bold>\<open>What is shown.\<close> An event that is published reaches the handlers of every process that listens
  (\<open>event_reaches_handlers\<close>), because it arrives as it was sent (\<open>event_arrives_intact\<close>), from the parts:
  fragmentation (\<open>fragments_carry_payload\<close>), posting (the interpretation \<open>bus\<close>), reassembly in any
  order (\<open>handler_reassembles\<close>, \<open>reassembly_in_any_order\<close>) and delivery (\<open>notifications_reach_sinks\<close>).
  For a sequence of events the library keeps the promise of publish and subscribe: a subscriber hears
  exactly the events of its scope and its sub-scopes, in order, in another process
  (\<open>subscriber_hears_publisher\<close>, from the groups the publisher sends to, those the bus has joined, the
  reassembly and the dispatching) and in the publisher's own (\<open>local_subscriber_hears_publisher\<close>); and
  publishing fails only when the library, a converter or the size of a header does
  (\<open>publishing_succeeds\<close>). What the integration tests compare (ids, types, scopes, causes and times) follows
  from the laws of the RSB core's events and conversions (\<open>hierarchy_test_passes\<close>).
  Events that several threads send at once arrive intact although their packets are mixed
  (\<open>concurrent_sends_arrive\<close>: sending takes no lock). Connection and pool refine the contracts of their
  headers (\<open>connection_refines_contract\<close>, \<open>pool_refines_contract\<close>).
  Group membership refines a multiset of references and covers every registered scope during a
  session. The pool is a family of independent machines, one per event, safe for well-formed
  fragments. The pruning task drops events that stay incomplete for longer than the maximal age and
  nothing else, and bounds the pool (\<open>pruning_drops_only_stale\<close>, \<open>pruning_bounds_pool\<close>); the library never
  starts it, so events that have lost a part stay for ever (\<open>incomplete_events_stay\<close>).
  Which messages are undefined behaviour for the receiver is characterised exactly: those with a part number
  behind the vector (\<open>part_number_out_of_range\<close>). Connectors contain the errors of converters and handlers,
  report each of them (\<open>connector_contains_errors\<close>) and hold one reference while active. The process has one
  live bus per daemon, and a bus that is handed out is active (\<open>one_bus_per_daemon\<close>). Every packet is well formed for the library,
  whatever exception ends the call that sends it. Under every schedule of the threads the library is
  called inside a session only and the bus is destroyed once, and the destructor comes to its end
  when the wake-up message is accepted and the receiver is not in a callback. Further theorems state
  where the code leaves its contract: malformed or duplicated fragments, unparsable messages, a clock
  that is set back, pruning that does not restart, groups beyond the array, wrapped limits, failing
  deactivation, a second session, repeated registration, a lost wake-up message, a receiver that
  becomes the last owner of its bus and waits for itself, a handler that calls its own bus, and a
  reference into a cache that another thread clears.

  \<^bold>\<open>Why blocks are steps.\<close> The sequential theories and \<open>BusThreads\<close> take a block under a mutex as one
  step. \<open>blocks_are_atomic\<close> justifies it for \<open>sinkMutex\<close>: every interleaving of the small steps ends in a
  state which whole blocks reach too, while no sink calls its own bus. \<open>boost::mutex\<close> is modelled as
  the operating system implements it by default: a second lock by the same thread blocks. The mutex
  of the pool is recursive and is held for one call only; an upgrade lock excludes other upgrade locks.

  \<^bold>\<open>Bounds and termination.\<close> \<open>unsigned int\<close> and \<open>uint32\<close> are 32 bit words. The loop over the
  fragments ends because its counter grows up to the point where it would wrap, which is undefined
  behaviour in the code; for a payload that stays with the maximal fragment size below \<open>2 ^ 32\<close> this
  point is not reached. Reference counts are exact up to \<open>2 ^ 32 - 1\<close>. All other loops run over a list.
  In the sequential theories the receiver's thread is run for a given number of rounds, each with the
  time it happens. In \<open>BusThreads\<close> a schedule is any finite list of turns; 10 turns in the order of
  \<open>closing_turns\<close> are enough for a shutdown: three for the destructor up to
  \<open>waitDone\<close>, one for the wake-up message, at most four for the receiver's way to the end of its loop,
  and two for the rest of the destructor.

  \<^bold>\<open>The daemon.\<close> The theorems about two processes assume of the Spread daemon what its service types
  promise: a connection gets the messages that have a group it is in, once each, those of one sender in
  the order of sending (\<open>PubSub\<close>), or in any order (\<open>EndToEnd\<close>, \<open>Delivery\<close>). Its flow control
  is the hypothesis \<open>gives_up\<close> of one test (\<open>BufferSaturation\<close>); the other theorems about two processes are about
  a receiver that keeps up. Of the dispatcher of the RSB
  core they assume that it hands an event to the sinks of its scope and its super-scopes (\<open>subscribed\<close>).

  \<^bold>\<open>What is not modelled.\<close> Log output; data races inside a single step: one call of the library, of a
  sink or of the pool; the mutex of the Windows build; the scope dispatcher of the RSB core, which is
  a parameter; memory exhaustion; the class declarations of the headers apart from their members
  (constructors, virtual destructors and export macros carry no behaviour of their own).
\<close>

end
